(* ===== verification/Prelude.thy ===== *)
theory Prelude
  imports Complex_Main "HOL-Library.AList"
begin

text \<open>
  What every component of the gateway shares: the Python values the model uses and the
  lemmas about them.

  \<^item> Python \<open>float\<close>s are exact rationals (\<^typ>\<open>rat\<close>): rounding is not modelled.
    Python \<open>int\<close>s are \<^typ>\<open>int\<close>.
  \<^item> A Python \<open>str\<close> is a \<^typ>\<open>string\<close>.
  \<^item> A \<open>dict\<close> is an association list in insertion order: \<open>map_of\<close> looks a key up,
    \<open>AList.update\<close> stores in place or appends, as \<open>d[k] = v\<close> does.
  \<^item> An exception the code lets escape is the left of a sum, \<^typ>\<open>string + nat\<close> style, with
    the exception type \<open>py_exn\<close> below.
\<close>

named_theorems gw_defs "the pool of the database, which proofs about several components unfold"

section \<open>Exceptions\<close>

datatype py_exn =
    KeyError string
  | ZeroDivisionError
  | ValidationError string
  | ValueError string
  | OverflowError
  | RuntimeError string
  | DatabaseError string
  | TypeError string
  | IndexError string
  | ConfigStoreError string
  | AssertionError

type_synonym 'a pyres = "py_exn + 'a"

text \<open>Sequencing: the first exception ends the computation.\<close>

fun rbind :: "'a pyres \<Rightarrow> ('a \<Rightarrow> 'b pyres) \<Rightarrow> 'b pyres" where
  "rbind (Inl e) f = Inl e"
| "rbind (Inr x) f = f x"

lemma rbind_eq_Inr [simp]: "rbind m f = Inr y \<longleftrightarrow> (\<exists>x. m = Inr x \<and> f x = Inr y)"
  by (cases m) auto

lemma rbind_eq_Inl: "rbind m f = Inl e \<longleftrightarrow> m = Inl e \<or> (\<exists>x. m = Inr x \<and> f x = Inl e)"
  by (cases m) auto

section \<open>Numbers\<close>

text \<open>\<open>int(x)\<close> of a float truncates towards zero.\<close>

definition py_int :: "rat \<Rightarrow> int" where
  "py_int x = (if 0 \<le> x then \<lfloor>x\<rfloor> else \<lceil>x\<rceil>)"

text \<open>\<open>x / y\<close> of numbers raises on a zero divisor.\<close>

definition py_div :: "rat \<Rightarrow> rat \<Rightarrow> rat pyres" where
  "py_div x y = (if y = 0 then Inl ZeroDivisionError else Inr (x / y))"

lemma py_int_nonneg [simp]: "0 \<le> x \<Longrightarrow> py_int x = \<lfloor>x\<rfloor>"
  by (simp add: py_int_def)

lemma py_int_of_int [simp]: "py_int (of_int n) = n"
  by (simp add: py_int_def)

lemma py_int_ge_0: "0 \<le> x \<Longrightarrow> 0 \<le> py_int x"
  by simp

lemma py_int_mono: "0 \<le> x \<Longrightarrow> x \<le> y \<Longrightarrow> py_int x \<le> py_int y"
  by (simp add: floor_mono)

lemma py_div_pos [simp]: "0 < y \<Longrightarrow> py_div x y = Inr (x / y)"
  by (simp add: py_div_def)

lemma floor_rat_numerals [simp]:
  "\<lfloor>numeral a / numeral b :: rat\<rfloor> = numeral a div numeral b"
  "\<lfloor>1 / numeral b :: rat\<rfloor> = 1 div numeral b"
  using floor_divide_of_int_eq [where 'a = rat, of "numeral a" "numeral b"]
    floor_divide_of_int_eq [where 'a = rat, of 1 "numeral b"] by simp_all

section \<open>Decimal text of an integer\<close>

text \<open>\<open>str(n)\<close>, as an f-string writes it.\<close>

definition digit :: "nat \<Rightarrow> char" where
  "digit d = char_of (48 + d)"

fun dec_nat :: "nat \<Rightarrow> string" where
  "dec_nat n = (if n < 10 then [digit n] else dec_nat (n div 10) @ [digit (n mod 10)])"

declare dec_nat.simps [simp del]

definition str_int :: "int \<Rightarrow> string" where
  "str_int i = (if i < 0 then CHR ''-'' # dec_nat (nat (- i)) else dec_nat (nat i))"

text \<open>Reading the digits back.\<close>

definition undec :: "string \<Rightarrow> nat" where
  "undec s = foldl (\<lambda>a c. 10 * a + (of_char c - 48)) 0 s"

lemma of_char_digit: "d < 10 \<Longrightarrow> of_char (digit d) = (48 + d :: nat)"
  by (simp add: digit_def)

lemma undec_dec_nat [simp]: "undec (dec_nat n) = n"
proof (induction n rule: dec_nat.induct)
  case (1 n)
  show ?case
  proof (cases "n < 10")
    case True
    then show ?thesis by (simp add: dec_nat.simps [of n] undec_def of_char_digit)
  next
    case False
    then have "undec (dec_nat (n div 10)) = n div 10" by (rule 1)
    with False show ?thesis
      by (simp add: dec_nat.simps [of n] undec_def of_char_digit)
  qed
qed

lemma dec_nat_inject [simp]: "dec_nat m = dec_nat n \<longleftrightarrow> m = n"
  by (metis undec_dec_nat)

lemma set_dec_nat: "c \<in> set (dec_nat n) \<Longrightarrow> 48 \<le> (of_char c :: nat) \<and> (of_char c :: nat) \<le> 57"
proof (induction n rule: dec_nat.induct)
  case (1 n)
  show ?case
  proof (cases "n < 10")
    case True
    with 1(2) show ?thesis by (simp add: dec_nat.simps [of n] of_char_digit)
  next
    case False
    have "n mod 10 < 10" by simp
    with False 1 show ?thesis by (auto simp: dec_nat.simps [of n] of_char_digit)
  qed
qed

lemma dash_notin_dec_nat [simp]: "CHR ''-'' \<notin> set (dec_nat n)"
  using set_dec_nat [of "CHR ''-''" n] by auto

lemma colon_notin_str_int [simp]: "CHR '':'' \<notin> set (str_int i)"
  using set_dec_nat [of "CHR '':''"] by (auto simp: str_int_def)

lemma str_int_inject [simp]: "str_int i = str_int j \<longleftrightarrow> i = j"
proof
  have neq: "CHR ''-'' # s \<noteq> dec_nat n" for s n
    using dash_notin_dec_nat [of n] by (metis list.set_intros(1))
  assume "str_int i = str_int j"
  then show "i = j" by (auto simp: str_int_def neq neq [symmetric] split: if_splits)
qed simp

section \<open>Dictionaries\<close>

type_synonym ('k, 'v) pydict = "('k \<times> 'v) list"

text \<open>\<open>d.setdefault(k, v)\<close>: nothing happens when the key is there.\<close>

definition dict_setdefault :: "'k \<Rightarrow> 'v \<Rightarrow> ('k, 'v) pydict \<Rightarrow> ('k, 'v) pydict" where
  "dict_setdefault k v d = (case map_of d k of None \<Rightarrow> d @ [(k, v)] | Some _ \<Rightarrow> d)"

lemma map_of_setdefault [simp]:
  "map_of (dict_setdefault k v d) k' =
     (if k' = k \<and> map_of d k = None then Some v else map_of d k')"
  by (auto simp: dict_setdefault_def map_add_def split: option.splits)

lemma keys_setdefault [simp]: "fst ` set (dict_setdefault k v d) = insert k (fst ` set d)"
  by (auto simp: dict_setdefault_def split: option.splits)
     (metis image_eqI map_of_SomeD fst_conv)

lemma distinct_setdefault [simp]:
  "distinct (map fst (dict_setdefault k v d)) = distinct (map fst d)"
  by (auto simp: dict_setdefault_def map_of_eq_None_iff split: option.splits)

lemma map_of_update [simp]: "map_of (AList.update k v d) = (map_of d)(k \<mapsto> v)"
  by (simp add: update_conv')

lemma update_new: "k \<notin> fst ` set d \<Longrightarrow> AList.update k v d = d @ [(k, v)]"
  by (induction d) auto

text \<open>A loop of stores: the later ones win; a dictionary copied into an empty one is itself.\<close>

lemma map_of_fold_update:
  "distinct (map fst kvs) \<Longrightarrow>
   map_of (fold (\<lambda>(k, v). AList.update k v) kvs d) k =
     (case map_of kvs k of Some v \<Rightarrow> Some v | None \<Rightarrow> map_of d k)"
proof (induction kvs arbitrary: d)
  case (Cons kv kvs)
  obtain a b where kv: "kv = (a, b)" by force
  have "map_of kvs a = None" using Cons.prems by (simp add: kv map_of_eq_None_iff)
  with Cons show ?case by (simp add: kv split: option.split)
qed simp

lemma distinct_fold_update:
  "distinct (map fst d) \<Longrightarrow> distinct (map fst (fold (\<lambda>(k, v). AList.update k v) kvs d))"
  by (induction kvs arbitrary: d) (auto simp: distinct_update)

lemma fold_update_same:
  "distinct (map fst (d @ kvs)) \<Longrightarrow> fold (\<lambda>(k, v). AList.update k v) kvs d = d @ kvs"
  by (induction kvs arbitrary: d) (auto simp: update_new)

section \<open>Lists\<close>

text \<open>Every element of a list sorted by a key lies between the ends.\<close>

lemma sorted_between:
  "sorted (map f xs) \<Longrightarrow> x \<in> set xs \<Longrightarrow> f (hd xs) \<le> f x \<and> f x \<le> f (last xs)"
  by (induction xs) auto

end
