(* ===== verification/Models.thy ===== *)
theory Models
  imports Prelude
begin

text \<open>
  The data of \<open>gateway/models.py\<close>: configuration, the OpenAI-shaped wire messages and the
  internal records, with the field constraints their classes declare. A constraint the class
  declares (\<open>PositiveInt\<close>, \<open>Field(ge=...)\<close>, \<open>max_length\<close>) and the validators written
  in Python become the \<open>valid_\<close> predicates and \<open>validate_chat_request\<close>; building an
  object that breaks one raises, here \<open>ValidationError\<close>.
\<close>

section \<open>Enumerations\<close>

datatype provider_error_kind =
  RATE_LIMITED | TRANSIENT_5XX | TIMEOUT | BAD_REQUEST | AUTH | CONTENT_FILTERED

fun provider_error_kind_value :: "provider_error_kind \<Rightarrow> string" where
  "provider_error_kind_value RATE_LIMITED = ''rate_limited''"
| "provider_error_kind_value TRANSIENT_5XX = ''transient_5xx''"
| "provider_error_kind_value TIMEOUT = ''timeout''"
| "provider_error_kind_value BAD_REQUEST = ''bad_request''"
| "provider_error_kind_value AUTH = ''auth''"
| "provider_error_kind_value CONTENT_FILTERED = ''content_filtered''"

datatype provider_mode = PM_mock | PM_real

datatype secrets_mode = SM_mock | SM_env

datatype role = System | User | Assistant | Tool

section \<open>Configuration\<close>

record rate_limit_entry =
  rl_rpm :: int
  rl_tpm :: int

record tier_entry =
  te_provider :: string
  te_model :: string
  te_weight :: rat
  te_rate_limits :: rate_limit_entry

record tier_config =
  tc_candidates :: "tier_entry list"

text \<open>
  \<open>CallerName\<close>: the pattern \<open>^[a-z0-9_-]{1,64}$\<close>.
\<close>

definition caller_name_char :: "char \<Rightarrow> bool" where
  "caller_name_char c \<longleftrightarrow>
     (let n = (of_char c :: nat)
      in 97 \<le> n \<and> n \<le> 122 \<or> 48 \<le> n \<and> n \<le> 57 \<or> c = CHR ''_'' \<or> c = CHR ''-'')"

definition valid_caller_name :: "string \<Rightarrow> bool" where
  "valid_caller_name s \<longleftrightarrow> 1 \<le> length s \<and> length s \<le> 64 \<and> list_all caller_name_char s"

record caller_entry =
  ce_name :: string
  ce_key_hash :: string
  ce_daily_token_cap :: "int option"
  ce_enabled :: bool

record routing_config =
  refresh_interval_ms :: int
  health_window_s :: int
  target_latency_s :: rat
  min_weight_floor :: rat
  rng_seed_env :: "string option"

definition default_routing_config :: routing_config where
  "default_routing_config =
     \<lparr>refresh_interval_ms = 1000, health_window_s = 60, target_latency_s = 3,
      min_weight_floor = 2 / 100, rng_seed_env = None\<rparr>"

record config =
  cfg_provider_mode :: provider_mode
  cfg_secrets_mode :: secrets_mode
  cfg_tiers :: "(string, tier_config) pydict"
  cfg_routing :: routing_config
  cfg_callers :: "caller_entry list"

definition valid_rate_limit :: "rate_limit_entry \<Rightarrow> bool" where
  "valid_rate_limit r \<longleftrightarrow> 0 < rl_rpm r \<and> 0 < rl_tpm r"

definition valid_tier_entry :: "tier_entry \<Rightarrow> bool" where
  "valid_tier_entry t \<longleftrightarrow> 0 \<le> te_weight t \<and> valid_rate_limit (te_rate_limits t)"

definition valid_tier_config :: "tier_config \<Rightarrow> bool" where
  "valid_tier_config t \<longleftrightarrow> list_all valid_tier_entry (tc_candidates t)"

definition valid_caller_entry :: "caller_entry \<Rightarrow> bool" where
  "valid_caller_entry c \<longleftrightarrow> valid_caller_name (ce_name c) \<and>
     (case ce_daily_token_cap c of None \<Rightarrow> True | Some n \<Rightarrow> 0 \<le> n)"

definition valid_routing_config :: "routing_config \<Rightarrow> bool" where
  "valid_routing_config r \<longleftrightarrow>
     0 < refresh_interval_ms r \<and> 0 < health_window_s r \<and>
     0 < target_latency_s r \<and> 0 \<le> min_weight_floor r"

definition valid_config :: "config \<Rightarrow> bool" where
  "valid_config c \<longleftrightarrow>
     distinct (map fst (cfg_tiers c)) \<and>
     list_all (\<lambda>(_, t). valid_tier_config t) (cfg_tiers c) \<and>
     valid_routing_config (cfg_routing c) \<and>
     list_all valid_caller_entry (cfg_callers c)"

section \<open>Wire messages\<close>

record message =
  msg_role :: role
  msg_content :: string

definition mk_message :: "role \<Rightarrow> string \<Rightarrow> message pyres" where
  "mk_message r s =
     (if length s \<le> 200000 then Inr \<lparr>msg_role = r, msg_content = s\<rparr>
      else Inl (ValidationError ''content''))"

text \<open>The same on integers, for evaluation.\<close>

lemma mk_message_code [code]:
  "mk_message r s =
     (if int (length s) \<le> 200000 then Inr \<lparr>msg_role = r, msg_content = s\<rparr>
      else Inl (ValidationError ''content''))"
  by (simp add: mk_message_def)

record usage =
  us_prompt_tokens :: int
  us_completion_tokens :: int
  us_total_tokens :: int

record choice =
  ch_index :: int
  ch_message :: message
  ch_finish_reason :: "string option"

record chat_request =
  rq_model :: string
  rq_messages :: "message list"
  rq_max_tokens :: int
  rq_temperature :: "rat option"
  rq_top_p :: "rat option"
  rq_stream :: bool
  rq_metadata :: "(string, string) pydict option"

record chat_response =
  rs_id :: string
  rs_model :: string
  rs_choices :: "choice list"
  rs_usage :: usage

record error_body =
  eb_type :: string
  eb_message :: string
  eb_retryable :: bool

section \<open>Validation of a chat request\<close>

datatype request_error =
    Content_too_long nat
  | No_messages
  | Too_many_messages
  | Max_tokens_range
  | Temperature_range
  | Top_p_range
  | Stream_unsupported
  | Metadata_too_many nat
  | Metadata_key_too_long string
  | Metadata_value_too_long string
  | Aggregate_too_large nat

text \<open>\<open>Message.content\<close> of every message, by index, then the length of the list.\<close>

fun content_errors :: "nat \<Rightarrow> message list \<Rightarrow> request_error list" where
  "content_errors i [] = []"
| "content_errors i (m # ms) =
     (if 200000 < length (msg_content m) then [Content_too_long i] else [])
     @ content_errors (Suc i) ms"

definition messages_errors :: "message list \<Rightarrow> request_error list" where
  "messages_errors ms =
     (if ms = [] then [No_messages]
      else if 512 < length ms then [Too_many_messages]
      else content_errors 0 ms)"

definition range_error :: "rat \<Rightarrow> rat option \<Rightarrow> request_error \<Rightarrow> request_error list" where
  "range_error hi x e =
     (case x of None \<Rightarrow> [] | Some v \<Rightarrow> if 0 \<le> v \<and> v \<le> hi then [] else [e])"

text \<open>\<open>_validate_metadata_bounds\<close>: the first offending entry raises, key before value.\<close>

fun metadata_entry_errors :: "(string, string) pydict \<Rightarrow> request_error list" where
  "metadata_entry_errors [] = []"
| "metadata_entry_errors ((k, v) # kvs) =
     (if 64 < length k then [Metadata_key_too_long k]
      else if 256 < length v then [Metadata_value_too_long k]
      else metadata_entry_errors kvs)"

definition validate_metadata_bounds ::
    "(string, string) pydict option \<Rightarrow> request_error list" where
  "validate_metadata_bounds md =
     (case md of
        None \<Rightarrow> []
      | Some kvs \<Rightarrow>
          if 16 < length kvs then [Metadata_too_many (length kvs)]
          else metadata_entry_errors kvs)"

definition no_streaming_in_v1 :: "bool \<Rightarrow> request_error list" where
  "no_streaming_in_v1 v = (if v then [Stream_unsupported] else [])"

definition content_size :: "message list \<Rightarrow> nat" where
  "content_size ms = sum_list (map (\<lambda>m. length (msg_content m)) ms)"

text \<open>
  The field validators of all fields run first and their errors are reported together; the
  model validator runs only on a request whose fields are all valid.
\<close>

definition field_errors :: "chat_request \<Rightarrow> request_error list" where
  "field_errors r =
     messages_errors (rq_messages r)
     @ (if 0 < rq_max_tokens r \<and> rq_max_tokens r \<le> 16384 then [] else [Max_tokens_range])
     @ range_error 2 (rq_temperature r) Temperature_range
     @ range_error 1 (rq_top_p r) Top_p_range
     @ no_streaming_in_v1 (rq_stream r)
     @ validate_metadata_bounds (rq_metadata r)"

definition validate_chat_request :: "chat_request \<Rightarrow> request_error list + chat_request" where
  "validate_chat_request r =
     (if field_errors r \<noteq> [] then Inl (field_errors r)
      else if 1000000 \<le> content_size (rq_messages r)
      then Inl [Aggregate_too_large (content_size (rq_messages r))]
      else Inr r)"

section \<open>Internal records\<close>

record chat_params =
  cp_max_tokens :: int
  cp_temperature :: "rat option"
  cp_top_p :: "rat option"

definition mk_chat_params :: "int \<Rightarrow> rat option \<Rightarrow> rat option \<Rightarrow> chat_params pyres" where
  "mk_chat_params n t p =
     (if 0 < n then Inr \<lparr>cp_max_tokens = n, cp_temperature = t, cp_top_p = p\<rparr>
      else Inl (ValidationError ''max_tokens''))"

record chat_result =
  cr_text :: string
  cr_finish_reason :: "string option"
  cr_input_tokens :: int
  cr_output_tokens :: int
  cr_vendor_request_id :: "string option"

definition valid_chat_result :: "chat_result \<Rightarrow> bool" where
  "valid_chat_result r \<longleftrightarrow> 0 \<le> cr_input_tokens r \<and> 0 \<le> cr_output_tokens r"

record candidate_ref =
  ca_provider :: string
  ca_model :: string

definition mk_ref :: "tier_entry \<Rightarrow> candidate_ref" where
  "mk_ref t = \<lparr>ca_provider = te_provider t, ca_model = te_model t\<rparr>"

definition candidate_ref_key :: "candidate_ref \<Rightarrow> string" where
  "candidate_ref_key c = ca_provider c @ ''/'' @ ca_model c"

record attempt_record =
  ar_request_id :: string
  ar_caller :: string
  ar_tier :: string
  ar_provider :: string
  ar_model :: string
  ar_attempt_idx :: int
  ar_input_tokens :: int
  ar_output_tokens :: int
  ar_cost_usd :: rat
  ar_latency_ms :: int
  ar_status :: string
  ar_vendor_req_id :: "string option"
  ar_client_trace_id :: "string option"

definition valid_attempt_record :: "attempt_record \<Rightarrow> bool" where
  "valid_attempt_record a \<longleftrightarrow>
     valid_caller_name (ar_caller a) \<and> 0 \<le> ar_attempt_idx a \<and>
     0 \<le> ar_input_tokens a \<and> 0 \<le> ar_output_tokens a \<and>
     0 \<le> ar_cost_usd a \<and> 0 \<le> ar_latency_ms a \<and>
     (case ar_client_trace_id a of None \<Rightarrow> True | Some s \<Rightarrow> length s \<le> 128)"

definition mk_attempt_record :: "attempt_record \<Rightarrow> attempt_record pyres" where
  "mk_attempt_record a =
     (if valid_attempt_record a then Inr a else Inl (ValidationError ''AttemptRecord''))"

record caller =
  cl_name :: string
  cl_daily_token_cap :: "int option"
  cl_enabled :: bool

definition valid_caller :: "caller \<Rightarrow> bool" where
  "valid_caller c \<longleftrightarrow> valid_caller_name (cl_name c) \<and>
     (case cl_daily_token_cap c of None \<Rightarrow> True | Some n \<Rightarrow> 0 \<le> n)"

section \<open>Lemmas\<close>

lemma content_errors_Nil:
  "content_errors i ms = [] \<longleftrightarrow> (\<forall>m \<in> set ms. length (msg_content m) \<le> 200000)"
  by (induction i ms rule: content_errors.induct) auto

lemma metadata_entry_errors_Nil:
  "metadata_entry_errors kvs = [] \<longleftrightarrow> (\<forall>(k, v) \<in> set kvs. length k \<le> 64 \<and> length v \<le> 256)"
  by (induction kvs rule: metadata_entry_errors.induct) auto

lemma length_metadata_entry_errors: "length (metadata_entry_errors kvs) \<le> 1"
  by (induction kvs rule: metadata_entry_errors.induct) auto

lemma candidate_ref_eq:
  "c = (d :: candidate_ref) \<longleftrightarrow> ca_provider c = ca_provider d \<and> ca_model c = ca_model d"
  by (cases c; cases d) auto

lemma mk_ref_inject:
  "mk_ref t = mk_ref u \<longleftrightarrow> te_provider t = te_provider u \<and> te_model t = te_model u"
  by (simp add: mk_ref_def)

lemma mk_ref_sel [simp]:
  "ca_provider (mk_ref t) = te_provider t" "ca_model (mk_ref t) = te_model t"
  by (simp_all add: mk_ref_def)

lemma valid_config_tierD:
  "valid_config c \<Longrightarrow> map_of (cfg_tiers c) n = Some t \<Longrightarrow> e \<in> set (tc_candidates t) \<Longrightarrow>
   valid_tier_entry e"
  by (auto simp: valid_config_def valid_tier_config_def list_all_iff dest!: map_of_SomeD)

lemma valid_config_routing [simp, intro]: "valid_config c \<Longrightarrow> valid_routing_config (cfg_routing c)"
  by (simp add: valid_config_def)

text \<open>a request passes validation exactly when it meets every documented bound.\<close>

theorem validate_chat_request_iff:
  "validate_chat_request r = Inr r' \<longleftrightarrow>
     r' = r \<and> 1 \<le> length (rq_messages r) \<and> length (rq_messages r) \<le> 512 \<and>
     list_all (\<lambda>m. length (msg_content m) \<le> 200000) (rq_messages r) \<and>
     content_size (rq_messages r) < 1000000 \<and>
     0 < rq_max_tokens r \<and> rq_max_tokens r \<le> 16384 \<and>
     pred_option (\<lambda>t. 0 \<le> t \<and> t \<le> 2) (rq_temperature r) \<and>
     pred_option (\<lambda>p. 0 \<le> p \<and> p \<le> 1) (rq_top_p r) \<and>
     \<not> rq_stream r \<and>
     pred_option (\<lambda>md. length md \<le> 16 \<and>
        list_all (\<lambda>(k, v). length k \<le> 64 \<and> length v \<le> 256) md) (rq_metadata r)"
  by (auto simp: validate_chat_request_def field_errors_def messages_errors_def content_errors_Nil
      range_error_def no_streaming_in_v1_def validate_metadata_bounds_def list_all_iff
      metadata_entry_errors_Nil Suc_le_eq split: option.splits if_splits)

end
