(* ===== verification/Errors.thy ===== *)
theory Errors
  imports Models
begin

text \<open>
  \<open>gateway/errors.py\<close>: the exception classes a vendor adapter may raise, and the mapping of
  the non-retryable ones to what the caller sees.
\<close>

text \<open>The classes: \<open>ProviderError\<close> and its six subclasses, none a subclass of another.\<close>

datatype error_class =
  ProviderError | RateLimited | Transient5xx | Timeout | BadRequest | AuthError | ContentFiltered

record provider_error =
  pe_class :: error_class
  pe_message :: string
  pe_vendor_detail :: "string option"

fun class_name :: "error_class \<Rightarrow> string" where
  "class_name ProviderError = ''ProviderError''"
| "class_name RateLimited = ''RateLimited''"
| "class_name Transient5xx = ''Transient5xx''"
| "class_name Timeout = ''Timeout''"
| "class_name BadRequest = ''BadRequest''"
| "class_name AuthError = ''AuthError''"
| "class_name ContentFiltered = ''ContentFiltered''"

text \<open>The class attribute \<open>kind\<close>; the base class says \<open>TRANSIENT_5XX\<close>.\<close>

fun error_kind :: "error_class \<Rightarrow> provider_error_kind" where
  "error_kind ProviderError = TRANSIENT_5XX"
| "error_kind RateLimited = RATE_LIMITED"
| "error_kind Transient5xx = TRANSIENT_5XX"
| "error_kind Timeout = TIMEOUT"
| "error_kind BadRequest = BAD_REQUEST"
| "error_kind AuthError = AUTH"
| "error_kind ContentFiltered = CONTENT_FILTERED"

text \<open>\<open>__init__\<close>: an empty message is replaced by the class name.\<close>

definition provider_error_init ::
    "error_class \<Rightarrow> string \<Rightarrow> string option \<Rightarrow> provider_error" where
  "provider_error_init c msg detail =
     \<lparr>pe_class = c, pe_message = (if msg = '''' then class_name c else msg),
      pe_vendor_detail = detail\<rparr>"

definition RETRYABLE_ERROR_TYPES :: "error_class list" where
  "RETRYABLE_ERROR_TYPES = [RateLimited, Transient5xx, Timeout]"

definition NON_RETRYABLE_ERROR_TYPES :: "error_class list" where
  "NON_RETRYABLE_ERROR_TYPES = [BadRequest, AuthError, ContentFiltered]"

definition CALLER_MESSAGES :: "(error_class, string) pydict" where
  "CALLER_MESSAGES =
     [(BadRequest, ''request rejected by upstream provider''),
      (AuthError, ''authentication failed''),
      (ContentFiltered, ''content filtered by upstream provider'')]"

definition canonical_body :: "string \<Rightarrow> error_class \<Rightarrow> error_body" where
  "canonical_body ty c =
     \<lparr>eb_type = ty, eb_message = the (map_of CALLER_MESSAGES c), eb_retryable = False\<rparr>"

definition caller_error_for :: "provider_error \<Rightarrow> int \<times> error_body" where
  "caller_error_for e =
     (if pe_class e = BadRequest then (400, canonical_body ''invalid_request'' BadRequest)
      else if pe_class e = AuthError then (401, canonical_body ''auth'' AuthError)
      else if pe_class e = ContentFiltered
      then (400, canonical_body ''content_filtered'' ContentFiltered)
      else (500, \<lparr>eb_type = ''internal'', eb_message = ''upstream error'', eb_retryable = False\<rparr>))"

lemma class_name_nonempty [simp]: "class_name c \<noteq> ''''"
  by (cases c) simp_all

lemma class_name_inject [simp]: "class_name c = class_name d \<longleftrightarrow> c = d"
  by (cases c; cases d) simp_all

lemma non_retryable_iff [simp]:
  "c \<in> set NON_RETRYABLE_ERROR_TYPES \<longleftrightarrow> c = BadRequest \<or> c = AuthError \<or> c = ContentFiltered"
  by (simp add: NON_RETRYABLE_ERROR_TYPES_def)

lemma canonical_bodies [simp]:
  "canonical_body ty BadRequest =
     \<lparr>eb_type = ty, eb_message = ''request rejected by upstream provider'', eb_retryable = False\<rparr>"
  "canonical_body ty AuthError =
     \<lparr>eb_type = ty, eb_message = ''authentication failed'', eb_retryable = False\<rparr>"
  "canonical_body ty ContentFiltered =
     \<lparr>eb_type = ty, eb_message = ''content filtered by upstream provider'', eb_retryable = False\<rparr>"
  by (simp_all add: canonical_body_def CALLER_MESSAGES_def)

text \<open>The status of a non-retryable error decides the kind the router reports.\<close>

lemma caller_error_status:
  "pe_class e \<in> set NON_RETRYABLE_ERROR_TYPES \<Longrightarrow>
   fst (caller_error_for e) = (if pe_class e = AuthError then 401 else 400)"
  by (auto simp: caller_error_for_def)

end
