(* ===== verification/Redis.thy ===== *)
theory Redis
  imports Models
begin

text \<open>
  The gateway's view of Redis. The server is not code of the repository, so its commands are
  a parameter of the model: a record of functions on a world \<open>'w\<close>, one per command the
  gateway issues. What the gateway relies on is stated as the laws of the locales below, which
  are the documented behaviour of the commands; \<open>mem_redis\<close> is an in-memory store that
  meets them, the instance every witness runs on.

  The key builders of \<open>gateway/redis_state.py\<close> and the sample key of
  \<open>gateway/breaker.py\<close> are at the end, with the theorems that different candidates and
  seconds have different keys.
\<close>

section \<open>The commands\<close>

text \<open>
  Hash fields hold numbers. \<open>expire_s\<close> takes seconds: \<open>EXPIRE key n\<close> is
  \<open>expire_s key n\<close>, \<open>PEXPIRE key n\<close> is \<open>expire_s key (n / 1000)\<close>.
\<close>

record 'w redis =
  hmget :: "string \<Rightarrow> string \<Rightarrow> 'w \<Rightarrow> rat option"
  hset :: "string \<Rightarrow> (string \<times> rat) list \<Rightarrow> 'w \<Rightarrow> 'w"
  hincrby :: "string \<Rightarrow> string \<Rightarrow> int \<Rightarrow> 'w \<Rightarrow> 'w"
  expire_s :: "string \<Rightarrow> rat \<Rightarrow> 'w \<Rightarrow> 'w"
  set_nx_ex :: "string \<Rightarrow> string \<Rightarrow> rat \<Rightarrow> 'w \<Rightarrow> bool \<times> 'w"
  scan_iter :: "string \<Rightarrow> 'w \<Rightarrow> string list"

text \<open>A clock reading may move the world on.\<close>

type_synonym 'w clock = "'w \<Rightarrow> rat \<times> 'w"

text \<open>The counter in a hash field: a missing field reads as 0 (\<open>int(row[i] or 0)\<close>).\<close>

definition field_int :: "'w redis \<Rightarrow> string \<Rightarrow> string \<Rightarrow> 'w \<Rightarrow> int" where
  "field_int R k f w = (case hmget R k f w of None \<Rightarrow> 0 | Some v \<Rightarrow> py_int v)"

text \<open>A pipeline of \<open>HINCRBY\<close> commands on one key.\<close>

fun hincrby_all :: "'w redis \<Rightarrow> string \<Rightarrow> (string \<times> int) list \<Rightarrow> 'w \<Rightarrow> 'w" where
  "hincrby_all R k [] w = w"
| "hincrby_all R k ((f, n) # fns) w = hincrby_all R k fns (hincrby R k f n w)"

text \<open>What a pipeline adds to a field.\<close>

definition amount :: "(string \<times> int) list \<Rightarrow> string \<Rightarrow> int" where
  "amount fns f = sum_list (map snd (filter (\<lambda>(g, _). g = f) fns))"

lemma amount_simps [simp]:
  "amount [] f = 0" "amount ((g, n) # fns) f = (if g = f then n + amount fns f else amount fns f)"
  by (simp_all add: amount_def)

section \<open>The laws\<close>

locale redis_hashes =
  fixes R :: "'w redis"
  assumes hmget_hset:
    "hmget R k f (hset R k' fvs w) =
       (if k = k' \<and> f \<in> fst ` set fvs then map_of (rev fvs) f else hmget R k f w)"
  and hmget_hincrby_other:
    "\<not> (k = k' \<and> f = f') \<Longrightarrow> hmget R k f (hincrby R k' f' n w) = hmget R k f w"
  and hmget_hincrby_None:
    "hmget R k f w = None \<Longrightarrow> hmget R k f (hincrby R k f n w) = Some (of_int n)"
  and hmget_hincrby_Some:
    "hmget R k f w = Some (of_int m) \<Longrightarrow> hmget R k f (hincrby R k f n w) = Some (of_int (m + n))"
  and hmget_expire: "0 < t \<Longrightarrow> hmget R k f (expire_s R k' t w) = hmget R k f w"

text \<open>
  Time: \<open>pass d\<close> lets \<open>d\<close> seconds go by, \<open>clk\<close> is the gateway's clock and
  \<open>ttl k\<close> the seconds the key still has, \<open>None\<close> for a key without expiry. A key is
  gone once its time is used up, and not before.
\<close>

locale redis_time = redis_hashes R for R :: "'w redis" +
  fixes pass :: "rat \<Rightarrow> 'w \<Rightarrow> 'w"
    and clk :: "'w \<Rightarrow> rat"
    and ttl :: "string \<Rightarrow> 'w \<Rightarrow> rat option"
  assumes clk_pass: "0 \<le> d \<Longrightarrow> clk (pass d w) = clk w + d"
    and clk_hincrby: "clk (hincrby R k f n w) = clk w"
    and clk_expire: "clk (expire_s R k t w) = clk w"
    and hmget_pass_alive:
      "0 \<le> d \<Longrightarrow> (case ttl k w of None \<Rightarrow> True | Some t \<Rightarrow> d < t) \<Longrightarrow>
       hmget R k f (pass d w) = hmget R k f w"
    and hmget_pass_None: "0 \<le> d \<Longrightarrow> hmget R k f w = None \<Longrightarrow> hmget R k f (pass d w) = None"
    and ttl_pass: "0 \<le> d \<Longrightarrow> ttl k w = Some t \<Longrightarrow> d < t \<Longrightarrow> ttl k (pass d w) = Some (t - d)"
    and ttl_hincrby_other: "k \<noteq> k' \<Longrightarrow> ttl k (hincrby R k' f n w) = ttl k w"
    and ttl_expire:
      "0 < t \<Longrightarrow> hmget R k f w \<noteq> None \<Longrightarrow> ttl k (expire_s R k t w) = Some t"
    and ttl_expire_other: "k \<noteq> k' \<Longrightarrow> ttl k (expire_s R k' t w) = ttl k w"

text \<open>\<open>SET key value NX EX ttl\<close>: taken when free, refused while the key lives.\<close>

locale redis_locks =
  fixes R :: "'w redis"
    and pass :: "rat \<Rightarrow> 'w \<Rightarrow> 'w"
    and held :: "string \<Rightarrow> 'w \<Rightarrow> rat option"
  assumes set_nx_free: "held k w = None \<Longrightarrow> fst (set_nx_ex R k v t w)"
    and set_nx_held: "held k w \<noteq> None \<Longrightarrow> set_nx_ex R k v t w = (False, w)"
    and held_set: "held k w = None \<Longrightarrow> 0 < t \<Longrightarrow> held k (snd (set_nx_ex R k v t w)) = Some t"
    and held_set_other: "k \<noteq> k' \<Longrightarrow> held k (snd (set_nx_ex R k' v t w)) = held k w"
    and held_pass: "0 \<le> d \<Longrightarrow> held k w = Some t \<Longrightarrow> d < t \<Longrightarrow> held k (pass d w) = Some (t - d)"
    and held_pass_over: "0 \<le> d \<Longrightarrow> held k w = Some t \<Longrightarrow> t \<le> d \<Longrightarrow> held k (pass d w) = None"

text \<open>
  \<open>SCAN\<close> finds every key that matches and is there throughout. Of the \<open>MATCH\<close> patterns
  the gateway uses \<open>*\<close> only.
\<close>

fun glob :: "string \<Rightarrow> string \<Rightarrow> bool" where
  "glob [] s = (s = [])"
| "glob (p # ps) [] = (p = CHR ''*'' \<and> glob ps [])"
| "glob (p # ps) (c # cs) =
     (if p = CHR ''*'' then glob ps (c # cs) \<or> glob (p # ps) cs else p = c \<and> glob ps cs)"

locale redis_scan =
  fixes R :: "'w redis"
  assumes scan_finds: "hmget R k f w \<noteq> None \<Longrightarrow> glob pat k \<Longrightarrow> k \<in> set (scan_iter R pat w)"

section \<open>Lemmas of the laws\<close>

lemma glob_star: "glob ps s \<Longrightarrow> glob (CHR ''*'' # ps) (t @ s)"
proof (induction t)
  case Nil
  then show ?case by (cases s) simp_all
qed simp

lemma glob_char [simp]: "p \<noteq> CHR ''*'' \<Longrightarrow> glob (p # ps) (p # s) = glob ps s"
  by simp

context redis_hashes
begin

lemma hincrby_all_other_key:
  "k \<noteq> k' \<Longrightarrow> hmget R k f (hincrby_all R k' fns w) = hmget R k f w"
  by (induction fns arbitrary: w) (auto simp: hmget_hincrby_other)

text \<open>The fields of a hash hold integers, and which ones they hold after a pipeline.\<close>

lemma hincrby_field_int:
  assumes "hmget R k f w = None \<or> (\<exists>m. hmget R k f w = Some (of_int m))"
  shows "field_int R k f (hincrby R k f n w) = field_int R k f w + n"
    and "\<exists>m. hmget R k f (hincrby R k f n w) = Some (of_int m)"
  using assms hmget_hincrby_None [of k f w n] hmget_hincrby_Some [of k f w _ n]
  by (auto simp: field_int_def simp del: of_int_add)

lemma hincrby_field_int_other:
  "f \<noteq> f' \<Longrightarrow> field_int R k f (hincrby R k f' n w) = field_int R k f w"
  by (simp add: field_int_def hmget_hincrby_other)

lemma hincrby_integral:
  assumes "\<And>f. hmget R k f w = None \<or> (\<exists>m. hmget R k f w = Some (of_int m))"
  shows "hmget R k f (hincrby R k f' n w) = None \<or>
         (\<exists>m. hmget R k f (hincrby R k f' n w) = Some (of_int m))"
  using assms [of f] hincrby_field_int(2) [OF assms [of f'], of n] hmget_hincrby_other
  by (cases "f = f'") auto

lemma hincrby_all_field_int:
  assumes "\<And>f. hmget R k f w = None \<or> (\<exists>m. hmget R k f w = Some (of_int m))"
  shows "field_int R k f (hincrby_all R k fns w) =
           field_int R k f w + amount fns f
         \<and> (\<forall>f. hmget R k f (hincrby_all R k fns w) = None \<or>
              (\<exists>m. hmget R k f (hincrby_all R k fns w) = Some (of_int m)))"
  using assms
proof (induction fns arbitrary: w)
  case Nil
  then show ?case by simp
next
  case (Cons fn fns)
  obtain g n where fn: "fn = (g, n)" by force
  have ints: "hmget R k f (hincrby R k g n w) = None \<or>
      (\<exists>m. hmget R k f (hincrby R k g n w) = Some (of_int m))" for f
    by (rule hincrby_integral) (rule Cons.prems)
  show ?case
    using Cons.IH [OF ints] hincrby_field_int(1) [OF Cons.prems, of g n]
      hincrby_field_int_other [of f g k n w]
    by (auto simp: fn)
qed

lemma hincrby_all_mem:
  assumes "\<And>f. hmget R k f w = None \<or> (\<exists>m. hmget R k f w = Some (of_int m))" and "fns \<noteq> []"
  shows "\<exists>f. hmget R k f (hincrby_all R k fns w) \<noteq> None"
  using assms
proof (induction fns arbitrary: w)
  case (Cons fn fns)
  obtain g n where fn: "fn = (g, n)" by force
  show ?case
  proof (cases "fns = []")
    case True
    with hincrby_field_int(2) [OF Cons.prems(1), of g n] show ?thesis by (auto simp: fn)
  next
    case False
    have "hmget R k f (hincrby R k g n w) = None \<or>
        (\<exists>m. hmget R k f (hincrby R k g n w) = Some (of_int m))" for f
      by (rule hincrby_integral) (rule Cons.prems(1))
    from Cons.IH [OF this False] show ?thesis by (simp add: fn)
  qed
qed simp

end

context redis_time
begin

lemma clk_hincrby_all [simp]: "clk (hincrby_all R k fns w) = clk w"
  by (induction fns arbitrary: w) (auto simp: clk_hincrby)

lemma ttl_hincrby_all_other: "k \<noteq> k' \<Longrightarrow> ttl k (hincrby_all R k' fns w) = ttl k w"
  by (induction fns arbitrary: w) (auto simp: ttl_hincrby_other)

end

section \<open>An in-memory store\<close>

text \<open>
  The instance of the laws: hashes and strings with an optional deadline, on a clock. An
  entry whose deadline has come is gone for every command.
\<close>

record mem_world =
  mw_now :: rat
  mw_hashes :: "(string, (string, rat) pydict \<times> rat option) pydict"
  mw_strings :: "(string, string \<times> rat option) pydict"

definition mem_empty :: mem_world where
  "mem_empty = \<lparr>mw_now = 0, mw_hashes = [], mw_strings = []\<rparr>"

definition before :: "rat \<Rightarrow> rat option \<Rightarrow> bool" where
  "before now dl \<longleftrightarrow> (case dl of None \<Rightarrow> True | Some d \<Rightarrow> now < d)"

definition mem_entry :: "string \<Rightarrow> mem_world \<Rightarrow> ((string, rat) pydict \<times> rat option) option" where
  "mem_entry k w =
     (case map_of (mw_hashes w) k of
        None \<Rightarrow> None
      | Some (h, dl) \<Rightarrow> if before (mw_now w) dl then Some (h, dl) else None)"

definition mem_or_new :: "string \<Rightarrow> mem_world \<Rightarrow> (string, rat) pydict \<times> rat option" where
  "mem_or_new k w = (case mem_entry k w of None \<Rightarrow> ([], None) | Some e \<Rightarrow> e)"

definition mem_put :: "string \<Rightarrow> (string, rat) pydict \<times> rat option \<Rightarrow> mem_world \<Rightarrow> mem_world" where
  "mem_put k e w = w\<lparr>mw_hashes := AList.update k e (mw_hashes w)\<rparr>"

definition mem_hmget :: "string \<Rightarrow> string \<Rightarrow> mem_world \<Rightarrow> rat option" where
  "mem_hmget k f w = map_of (fst (mem_or_new k w)) f"

definition mem_hset :: "string \<Rightarrow> (string \<times> rat) list \<Rightarrow> mem_world \<Rightarrow> mem_world" where
  "mem_hset k fvs w =
     (if fvs = [] then w
      else mem_put k (fold (\<lambda>(f, v). AList.update f v) fvs (fst (mem_or_new k w)),
                      snd (mem_or_new k w)) w)"

definition mem_hincrby :: "string \<Rightarrow> string \<Rightarrow> int \<Rightarrow> mem_world \<Rightarrow> mem_world" where
  "mem_hincrby k f n w =
     (let (h, dl) = mem_or_new k w;
          v = (case map_of h f of None \<Rightarrow> 0 | Some v \<Rightarrow> v)
      in mem_put k (AList.update f (v + of_int n) h, dl) w)"

definition mem_expire :: "string \<Rightarrow> rat \<Rightarrow> mem_world \<Rightarrow> mem_world" where
  "mem_expire k t w =
     (case mem_entry k w of
        None \<Rightarrow> w
      | Some (h, _) \<Rightarrow> mem_put k (h, Some (mw_now w + t)) w)"

definition mem_held :: "string \<Rightarrow> mem_world \<Rightarrow> rat option" where
  "mem_held k w =
     (case map_of (mw_strings w) k of
        Some (_, Some d) \<Rightarrow> if mw_now w < d then Some (d - mw_now w) else None
      | _ \<Rightarrow> None)"

definition mem_set_nx_ex :: "string \<Rightarrow> string \<Rightarrow> rat \<Rightarrow> mem_world \<Rightarrow> bool \<times> mem_world" where
  "mem_set_nx_ex k v t w =
     (if mem_held k w \<noteq> None then (False, w)
      else (True, w\<lparr>mw_strings := AList.update k (v, Some (mw_now w + t)) (mw_strings w)\<rparr>))"

definition mem_scan :: "string \<Rightarrow> mem_world \<Rightarrow> string list" where
  "mem_scan pat w = filter (\<lambda>k. mem_entry k w \<noteq> None \<and> glob pat k) (map fst (mw_hashes w))"

definition mem_redis :: "mem_world redis" where
  "mem_redis =
     \<lparr>hmget = mem_hmget, hset = mem_hset, hincrby = mem_hincrby, expire_s = mem_expire,
      set_nx_ex = mem_set_nx_ex, scan_iter = mem_scan\<rparr>"

definition mem_pass :: "rat \<Rightarrow> mem_world \<Rightarrow> mem_world" where
  "mem_pass d w = w\<lparr>mw_now := mw_now w + d\<rparr>"

definition mem_ttl :: "string \<Rightarrow> mem_world \<Rightarrow> rat option" where
  "mem_ttl k w =
     (case mem_entry k w of Some (_, Some d) \<Rightarrow> Some (d - mw_now w) | _ \<Rightarrow> None)"

definition mem_clock :: "mem_world clock" where
  "mem_clock w = (mw_now w, w)"

lemmas mem_defs =
  mem_entry_def mem_or_new_def mem_put_def mem_hmget_def mem_hset_def mem_hincrby_def
  mem_expire_def mem_held_def mem_set_nx_ex_def mem_scan_def mem_pass_def mem_ttl_def
  mem_clock_def before_def

lemma mem_redis_sel [simp]:
  "hmget mem_redis = mem_hmget" "hset mem_redis = mem_hset" "hincrby mem_redis = mem_hincrby"
  "expire_s mem_redis = mem_expire" "set_nx_ex mem_redis = mem_set_nx_ex"
  "scan_iter mem_redis = mem_scan"
  by (simp_all add: mem_redis_def)

lemma map_of_fold_pairs:
  "map_of (fold (\<lambda>(f, v). AList.update f v) fvs h) f =
     (if f \<in> fst ` set fvs then map_of (rev fvs) f else map_of h f)"
proof (induction fvs rule: rev_induct)
  case Nil
  then show ?case by simp
next
  case (snoc fv fvs)
  then show ?case by (cases fv) auto
qed

lemma mem_put_simps [simp]:
  "mw_now (mem_put k e w) = mw_now w" "mw_strings (mem_put k e w) = mw_strings w"
  by (simp_all add: mem_put_def)

lemma before_or_new [simp]: "before (mw_now w) (snd (mem_or_new k w))"
  by (auto simp: mem_or_new_def mem_entry_def before_def split: option.splits)

lemma mem_or_new_put:
  "before (mw_now w) (snd e) \<Longrightarrow>
   mem_or_new k (mem_put k' e w) = (if k = k' then e else mem_or_new k w)"
  by (cases e) (auto simp: mem_or_new_def mem_entry_def mem_put_def split: option.splits)

lemma mem_hset_or_new:
  "mem_or_new k (mem_hset k' fvs w) =
     (if k = k' \<and> fvs \<noteq> []
      then (fold (\<lambda>(f, v). AList.update f v) fvs (fst (mem_or_new k w)), snd (mem_or_new k w))
      else mem_or_new k w)"
  by (simp add: mem_hset_def mem_or_new_put)

lemma mem_hincrby_eq:
  "mem_hincrby k f n w =
     mem_put k (AList.update f ((case map_of (fst (mem_or_new k w)) f of None \<Rightarrow> 0 | Some v \<Rightarrow> v) + of_int n)
                  (fst (mem_or_new k w)), snd (mem_or_new k w)) w"
  by (simp add: mem_hincrby_def split_beta Let_def)

lemma mem_hincrby_or_new:
  "mem_or_new k (mem_hincrby k' f n w) =
     (if k = k'
      then (AList.update f ((case map_of (fst (mem_or_new k w)) f of None \<Rightarrow> 0 | Some v \<Rightarrow> v) + of_int n)
              (fst (mem_or_new k w)), snd (mem_or_new k w))
      else mem_or_new k w)"
  by (simp add: mem_hincrby_eq mem_or_new_put)

lemma mem_expire_or_new:
  "0 < t \<Longrightarrow> mem_or_new k (mem_expire k' t w) =
     (if k = k' \<and> mem_entry k w \<noteq> None then (fst (mem_or_new k w), Some (mw_now w + t))
      else mem_or_new k w)"
  by (auto simp: mem_expire_def mem_or_new_put before_def split: option.splits)
     (simp_all add: mem_or_new_def)

lemma mem_ttl_eq:
  "mem_ttl k w = map_option (\<lambda>d. d - mw_now w) (snd (mem_or_new k w))"
  by (auto simp: mem_ttl_def mem_or_new_def split: option.splits)

lemma mem_or_new_pass:
  "0 \<le> d \<Longrightarrow> mem_or_new k (mem_pass d w) =
     (if before (mw_now w + d) (snd (mem_or_new k w)) then mem_or_new k w else ([], None))"
  by (auto simp: mem_or_new_def mem_entry_def mem_pass_def before_def split: option.splits)

lemma mem_hmget_entry: "mem_hmget k f w \<noteq> None \<Longrightarrow> mem_entry k w \<noteq> None"
  by (auto simp: mem_hmget_def mem_or_new_def split: option.splits)

interpretation mem: redis_hashes mem_redis
proof unfold_locales
  show "hmget mem_redis k f (hset mem_redis k' fvs w) =
      (if k = k' \<and> f \<in> fst ` set fvs then map_of (rev fvs) f else hmget mem_redis k f w)"
    for k f k' fvs w
    by (auto simp: mem_hmget_def mem_hset_or_new map_of_fold_pairs)
qed (auto simp: mem_hmget_def mem_hincrby_or_new mem_expire_or_new)

lemma mem_time_clock:
  "0 \<le> d \<Longrightarrow> mw_now (mem_pass d w) = mw_now w + d"
  "mw_now (mem_hincrby k f n w) = mw_now w" "mw_now (mem_expire k t w) = mw_now w"
  by (auto simp: mem_pass_def mem_hincrby_eq mem_expire_def split: option.splits)

lemma mem_ttl_other: "k \<noteq> k' \<Longrightarrow> mem_ttl k (mem_hincrby k' f n w) = mem_ttl k w"
  by (simp add: mem_ttl_eq mem_hincrby_eq mem_or_new_put)

lemma mem_expire_other: "k \<noteq> k' \<Longrightarrow> mem_ttl k (mem_expire k' t w) = mem_ttl k w"
  by (auto simp: mem_ttl_def mem_expire_def mem_entry_def mem_put_def split: option.splits)

interpretation mem_time: redis_time mem_redis mem_pass mw_now mem_ttl
proof unfold_locales
  fix d :: rat and k f w t
  assume d: "0 \<le> d"
  show "mw_now (mem_pass d w) = mw_now w + d"
    using d by (rule mem_time_clock)
  show "hmget mem_redis k f (mem_pass d w) = hmget mem_redis k f w"
    if "case mem_ttl k w of None \<Rightarrow> True | Some t \<Rightarrow> d < t"
    using that d by (auto simp: mem_hmget_def mem_ttl_eq mem_or_new_pass before_def
        split: option.splits)
  show "hmget mem_redis k f (mem_pass d w) = None" if "hmget mem_redis k f w = None"
    using that d by (simp add: mem_hmget_def mem_or_new_pass)
  show "mem_ttl k (mem_pass d w) = Some (t - d)" if "mem_ttl k w = Some t" and "d < t"
    using that d by (auto simp: mem_ttl_eq mem_or_new_pass before_def mem_time_clock)
next
  fix k f w and t :: rat
  assume t: "0 < t" and "hmget mem_redis k f w \<noteq> None"
  then have "mem_entry k w \<noteq> None" using mem_hmget_entry by simp
  with t show "mem_ttl k (expire_s mem_redis k t w) = Some t"
    by (simp add: mem_ttl_eq mem_expire_or_new mem_time_clock)
qed (simp_all add: mem_time_clock mem_ttl_other mem_expire_other)

interpretation mem_locks: redis_locks mem_redis mem_pass mem_held
  by unfold_locales
    (auto simp: mem_held_def mem_set_nx_ex_def mem_pass_def split: option.splits if_splits)

lemma mem_scan_finds:
  "mem_hmget k f w \<noteq> None \<Longrightarrow> glob pat k \<Longrightarrow> k \<in> set (mem_scan pat w)"
  by (frule mem_hmget_entry)
    (force simp: mem_scan_def mem_entry_def split: option.splits if_splits dest: map_of_SomeD)

interpretation mem_scans: redis_scan mem_redis
  by unfold_locales (simp add: mem_scan_finds)

end
