(* ===== verification/Keys.thy ===== *)
theory Keys
  imports Redis
begin

text \<open>
  The Redis keys of the gateway: the builders of \<open>gateway/redis_state.py\<close>, the sample key
  and its parser of \<open>gateway/breaker.py\<close> and the candidate key of
  \<open>gateway/ratelimit.py\<close>. A provider name without a colon is what keeps the keys of
  different candidates apart; the model name is free.
\<close>

section \<open>Builders\<close>

definition bucket_key :: "string \<Rightarrow> string \<Rightarrow> string" where
  "bucket_key p m = ''gw:bkt:'' @ p @ '':'' @ m"

definition breaker_key :: "string \<Rightarrow> string \<Rightarrow> string" where
  "breaker_key p m = ''gw:brk:'' @ p @ '':'' @ m"

definition breaker_probe_key :: "string \<Rightarrow> string \<Rightarrow> string" where
  "breaker_probe_key p m = ''gw:brk:'' @ p @ '':'' @ m @ '':probe''"

definition observe_key :: "string \<Rightarrow> string \<Rightarrow> int \<Rightarrow> string" where
  "observe_key p m sec = ''gw:obs:'' @ p @ '':'' @ m @ '':'' @ str_int sec"

definition sample_key :: "string \<Rightarrow> string \<Rightarrow> int \<Rightarrow> string" where
  "sample_key p m sec = ''gw:brk:'' @ p @ '':'' @ m @ '':samples:'' @ str_int sec"

definition candidate_key :: "string \<Rightarrow> string \<Rightarrow> string" where
  "candidate_key p m = p @ ''/'' @ m"

section \<open>Splitting strings\<close>

text \<open>\<open>s.split(sep, 1)\<close> as the text before and after the first occurrence.\<close>

fun cut :: "string \<Rightarrow> string \<Rightarrow> (string \<times> string) option" where
  "cut sep [] = None"
| "cut sep (c # cs) =
     (if take (length sep) (c # cs) = sep then Some ([], drop (length sep) (c # cs))
      else map_option (\<lambda>(a, b). (c # a, b)) (cut sep cs))"

lemma cut_shrinks: "cut sep s = Some (a, b) \<Longrightarrow> sep \<noteq> [] \<Longrightarrow> length b < length s"
  by (induction sep s arbitrary: a b rule: cut.induct) (fastforce split: if_splits)+

text \<open>\<open>s.split(sep)\<close> for a non-empty separator.\<close>

function py_split :: "string \<Rightarrow> string \<Rightarrow> string list" where
  "py_split sep s =
     (case cut sep s of
        None \<Rightarrow> [s]
      | Some (a, b) \<Rightarrow> if sep = [] then [s] else a # py_split sep b)"
  by pat_completeness auto
termination
  by (relation "measure (\<lambda>(sep, s). length s)") (auto dest: cut_shrinks)

declare py_split.simps [simp del]

lemma py_split_None: "cut sep s = None \<Longrightarrow> py_split sep s = [s]"
  by (subst py_split.simps) simp

lemma py_split_Some:
  "cut sep s = Some (a, b) \<Longrightarrow> sep \<noteq> [] \<Longrightarrow> py_split sep s = a # py_split sep b"
  by (subst py_split.simps) simp

lemma cut_no_head:
  assumes "sep = d # ds" and "d \<notin> set s"
  shows "cut sep s = None"
  using assms by (induction sep s rule: cut.induct) auto

lemma cut_first:
  assumes "cut sep (a @ butlast sep) = None" and "sep \<noteq> []"
  shows "cut sep (a @ sep @ b) = Some (a, b)"
  using assms(1)
proof (induction a)
  case Nil
  then show ?case using assms(2) by (cases sep) auto
next
  case (Cons c a)
  have len: "length (butlast sep) = length sep - 1" by simp
  have "take (length sep) (c # a @ sep @ b) = take (length sep) (c # a @ butlast sep)"
  proof -
    have "sep = butlast sep @ [last sep]" using assms(2) by simp
    then have "c # a @ sep @ b = (c # a @ butlast sep) @ ([last sep] @ b)"
      by (metis append.assoc append_Cons)
    moreover have "length sep \<le> length (c # a @ butlast sep)" using len by simp
    ultimately show ?thesis by (metis append_Nil2 diff_is_0_eq' take0 take_append)
  qed
  with Cons show ?case by (auto split: if_splits)
qed

lemma cut_char: "c \<notin> set a \<Longrightarrow> cut [c] (a @ c # b) = Some (a, b)"
  using cut_first [of "[c]" a b] cut_no_head [of "[c]" c "[]" a] by simp

section \<open>Keys of different candidates differ\<close>

lemma colon_split:
  assumes "(c :: char) \<notin> set a" and "c \<notin> set a'" and "a @ c # x = a' @ c # x'"
  shows "a = a' \<and> x = x'"
proof -
  have "Some (a, x) = Some (a', x')"
    using cut_char [OF assms(1), of x] cut_char [OF assms(2), of x'] by (simp only: assms(3))
  then show ?thesis by simp
qed

lemma colon_split_last:
  assumes "(c :: char) \<notin> set x" and "c \<notin> set x'" and "a @ c # x = a' @ c # x'"
  shows "a = a' \<and> x = x'"
proof -
  have "rev x @ c # rev a = rev x' @ c # rev a'"
    using arg_cong [OF assms(3), of rev] by simp
  from colon_split [OF _ _ this] assms(1,2) show ?thesis by simp
qed

lemma bucket_key_inject:
  "CHR '':'' \<notin> set p \<Longrightarrow> CHR '':'' \<notin> set p' \<Longrightarrow>
   bucket_key p m = bucket_key p' m' \<longleftrightarrow> p = p' \<and> m = m'"
  by (auto simp: bucket_key_def dest: colon_split)

lemma observe_key_inject:
  assumes "CHR '':'' \<notin> set p" and "CHR '':'' \<notin> set p'"
  shows "observe_key p m s = observe_key p' m' s' \<longleftrightarrow> p = p' \<and> m = m' \<and> s = s'"
proof
  assume "observe_key p m s = observe_key p' m' s'"
  then have "(p @ CHR '':'' # m) @ CHR '':'' # str_int s =
      (p' @ CHR '':'' # m') @ CHR '':'' # str_int s'"
    by (simp add: observe_key_def)
  from colon_split_last [OF _ _ this]
  have "p @ CHR '':'' # m = p' @ CHR '':'' # m'" and "s = s'" by simp_all
  with colon_split [OF assms] show "p = p' \<and> m = m' \<and> s = s'" by blast
qed simp

lemma sample_key_inject:
  assumes "CHR '':'' \<notin> set p" and "CHR '':'' \<notin> set p'"
  shows "sample_key p m s = sample_key p' m' s' \<longleftrightarrow> p = p' \<and> m = m' \<and> s = s'"
proof
  assume "sample_key p m s = sample_key p' m' s'"
  then have "((p @ CHR '':'' # m) @ '':samples'') @ CHR '':'' # str_int s =
      ((p' @ CHR '':'' # m') @ '':samples'') @ CHR '':'' # str_int s'"
    by (simp add: sample_key_def)
  from colon_split_last [OF _ _ this]
  have "(p @ CHR '':'' # m) @ '':samples'' = (p' @ CHR '':'' # m') @ '':samples''"
    and "s = s'" by simp_all
  with colon_split [OF assms, of m m'] show "p = p' \<and> m = m' \<and> s = s'" by simp
qed simp

text \<open>The buckets, the observations and the breaker's keys never meet.\<close>

lemma key_families:
  "bucket_key p m \<noteq> observe_key p' m' s" "observe_key p' m' s \<noteq> bucket_key p m"
  "bucket_key p m \<noteq> sample_key p' m' s" "sample_key p' m' s \<noteq> bucket_key p m"
  "observe_key p m s \<noteq> sample_key p' m' s'" "sample_key p' m' s' \<noteq> observe_key p m s"
  by (simp_all add: bucket_key_def observe_key_def sample_key_def)

section \<open>Reading a candidate back from a sample key\<close>

text \<open>
  The body of the scan loop of \<open>_seed_snapshot_from_keys\<close>: the prefix is dropped, the rest
  must have exactly one \<open>:samples:\<close>, and what is before it splits at its first colon.
\<close>

definition parse_sample_key :: "string \<Rightarrow> (string \<times> string) option" where
  "parse_sample_key key =
     (let rest = drop (length ''gw:brk:'') key;
          parts = py_split '':samples:'' rest
      in if length parts \<noteq> 2 then None
         else cut '':'' (parts ! 0))"

lemma parse_sample_key:
  assumes p: "CHR '':'' \<notin> set p"
    and m: "cut '':samples:'' (p @ '':'' @ m @ '':samples'') = None"
  shows "parse_sample_key (sample_key p m sec) = Some (p, m)"
proof -
  let ?pm = "p @ '':'' @ m"
  have pm: "cut '':samples:'' (?pm @ '':samples:'' @ str_int sec) = Some (?pm, str_int sec)"
    using m by (intro cut_first) simp_all
  have sec: "cut '':samples:'' (str_int sec) = None"
    using cut_no_head [of "'':samples:''" "CHR '':''" "''samples:''" "str_int sec"] by simp
  have "py_split '':samples:'' (?pm @ '':samples:'' @ str_int sec) = [?pm, str_int sec]"
    using py_split_Some [OF pm] py_split_None [OF sec] by simp
  moreover have "cut '':'' ?pm = Some (p, m)"
    using cut_char [OF p] by simp
  ultimately show ?thesis
    by (simp add: parse_sample_key_def sample_key_def)
qed

end
