(* ===== verification/Counters.thy ===== *)
theory Counters
  imports Keys
begin

text \<open>
  Per-second counters in Redis, which the observer (\<open>gateway/routing/observe.py\<close>) and the
  breaker (\<open>gateway/breaker.py\<close>) both keep: a hash per candidate and second, bumped by a
  pipeline of \<open>HINCRBY\<close>s and an \<open>EXPIRE\<close>, and summed over the seconds of a window.

  The locale \<open>second_counters\<close> states what they share, and proves that the window sum is
  exactly what was recorded in the window: no sample is lost to the expiry before it leaves
  the window, and no sample of another candidate or second is counted.
\<close>

definition counter_bump ::
    "'w redis \<Rightarrow> string \<Rightarrow> rat \<Rightarrow> (string \<times> int) list \<Rightarrow> 'w \<Rightarrow> 'w" where
  "counter_bump R k keep fns w = expire_s R k keep (hincrby_all R k fns w)"

text \<open>The sum of one field over a list of keys.\<close>

definition field_sum :: "'w redis \<Rightarrow> string list \<Rightarrow> string \<Rightarrow> 'w \<Rightarrow> int" where
  "field_sum R ks f w = sum_list (map (\<lambda>k. field_int R k f w) ks)"

text \<open>
  The history: who was bumped, in which second, by how much; \<open>logged\<close> is what the history
  says a counter holds.
\<close>

type_synonym 'c bump_log = "('c \<times> int \<times> (string \<times> int) list) list"

definition logged :: "'c bump_log \<Rightarrow> 'c \<Rightarrow> int \<Rightarrow> string \<Rightarrow> int" where
  "logged lg c s f =
     sum_list (map (\<lambda>(c', s', fns). if c' = c \<and> s' = s then amount fns f else 0) lg)"

lemma logged_simps [simp]:
  "logged [] c s f = 0"
  "logged (lg @ [(c', s', fns)]) c s f =
     logged lg c s f + (if c' = c \<and> s' = s then amount fns f else 0)"
  by (simp_all add: logged_def)

lemma sum_list_indicator:
  "(\<Sum>s\<leftarrow>[lo..hi]. if s' = s then a else (0 :: int)) = (if lo \<le> s' \<and> s' \<le> hi then a else 0)"
proof -
  have "(\<Sum>s\<leftarrow>[lo..hi]. if s' = s then a else (0 :: int)) = (\<Sum>s\<in>{lo..hi}. if s' = s then a else 0)"
    by (subst sum_list_distinct_conv_sum_set) simp_all
  then show ?thesis by simp
qed

text \<open>Summing the seconds of a window is counting the history's entries in it.\<close>

lemma sum_logged:
  "(\<Sum>s\<leftarrow>[lo..hi]. logged lg c s f) =
     sum_list (map (\<lambda>(c', s', fns). if c' = c \<and> lo \<le> s' \<and> s' \<le> hi then amount fns f else 0) lg)"
proof (induction lg)
  case Nil
  then show ?case by simp
next
  case (Cons e lg)
  obtain c' s' fns where e: "e = (c', s', fns)" by (cases e)
  have "(\<Sum>s\<leftarrow>[lo..hi]. logged (e # lg) c s f) =
      (\<Sum>s\<leftarrow>[lo..hi]. (if s' = s then (if c' = c then amount fns f else 0) else 0) + logged lg c s f)"
    by (intro arg_cong [where f = sum_list] map_cong) (auto simp: logged_def e)
  then show ?case
    by (simp add: sum_list_addf sum_list_indicator Cons.IH e)
qed

locale second_counters = redis_time R pass clk ttl
  for R :: "'w redis" and pass clk ttl +
  fixes key :: "'c \<Rightarrow> int \<Rightarrow> string"
    and good :: "'c \<Rightarrow> bool"
    and window keep :: rat
  assumes key_inject:
      "good c \<Longrightarrow> good c' \<Longrightarrow> key c s = key c' s' \<longleftrightarrow> c = c' \<and> s = s'"
    and window_nonneg: "0 \<le> window"
    and keep_window: "window + 1 \<le> keep"
begin

definition in_window :: "'w \<Rightarrow> int \<Rightarrow> bool" where
  "in_window w s \<longleftrightarrow> clk w < of_int s + window + 1"

definition integral :: "'w \<Rightarrow> string \<Rightarrow> bool" where
  "integral w k \<longleftrightarrow> (\<forall>f. hmget R k f w = None \<or> (\<exists>m. hmget R k f w = Some (of_int m)))"

definition kept :: "'w \<Rightarrow> 'c \<Rightarrow> int \<Rightarrow> bool" where
  "kept w c s \<longleftrightarrow>
     (\<forall>f. hmget R (key c s) f w = None) \<or>
     (\<exists>t. ttl (key c s) w = Some t \<and> of_int s + window + 1 \<le> clk w + t)"

definition tracks :: "'w \<Rightarrow> 'c bump_log \<Rightarrow> bool" where
  "tracks w lg \<longleftrightarrow>
     (\<forall>c s. good c \<longrightarrow> in_window w s \<longrightarrow>
        (\<forall>f. field_int R (key c s) f w = logged lg c s f) \<and>
        integral w (key c s) \<and> kept w c s)"

lemma keep_pos: "0 < keep"
  using window_nonneg keep_window by linarith

lemma now_in_window: "in_window w \<lfloor>clk w\<rfloor>"
  unfolding in_window_def using window_nonneg by linarith

lemma clk_bump [simp]: "clk (counter_bump R k keep fns w) = clk w"
  by (simp add: counter_bump_def clk_expire)

lemma bump_other_key:
  assumes "k \<noteq> k'"
  shows "hmget R k f (counter_bump R k' keep fns w) = hmget R k f w"
    and "ttl k (counter_bump R k' keep fns w) = ttl k w"
  using assms keep_pos
  by (simp_all add: counter_bump_def hmget_expire hincrby_all_other_key ttl_expire_other
      ttl_hincrby_all_other)

lemma bump_same_key:
  assumes "integral w k"
  shows "field_int R k f (counter_bump R k keep fns w) = field_int R k f w + amount fns f"
    and "integral (counter_bump R k keep fns w) k"
    and "hmget R k g (counter_bump R k keep fns w) \<noteq> None \<Longrightarrow>
         ttl k (counter_bump R k keep fns w) = Some keep"
proof -
  have h: "hmget R k f (counter_bump R k keep fns w) = hmget R k f (hincrby_all R k fns w)" for f
    using keep_pos by (simp add: counter_bump_def hmget_expire)
  note a = hincrby_all_field_int [of k w _ fns, OF assms [unfolded integral_def, rule_format]]
  show "field_int R k f (counter_bump R k keep fns w) = field_int R k f w + amount fns f"
    using a [of f] by (simp add: field_int_def h)
  show "integral (counter_bump R k keep fns w) k"
    using a [of f] by (simp add: integral_def h)
  show "ttl k (counter_bump R k keep fns w) = Some keep"
    if "hmget R k g (counter_bump R k keep fns w) \<noteq> None"
    using that keep_pos ttl_expire [of keep k g] by (simp add: h) (simp add: counter_bump_def)
qed

text \<open>Recording: one more entry in the history, at the clock's second.\<close>

lemma tracks_bump:
  assumes tr: "tracks w lg" and c: "good c"
  shows "tracks (counter_bump R (key c \<lfloor>clk w\<rfloor>) keep fns w) (lg @ [(c, \<lfloor>clk w\<rfloor>, fns)])"
  unfolding tracks_def
proof (intro allI impI)
  let ?k = "key c \<lfloor>clk w\<rfloor>"
  let ?w = "counter_bump R ?k keep fns w"
  fix c' s assume c': "good c'" and "in_window ?w s"
  then have s: "in_window w s" by (simp add: in_window_def)
  with tr c' have old: "\<forall>f. field_int R (key c' s) f w = logged lg c' s f"
    and int: "integral w (key c' s)" and kp: "kept w c' s"
    by (auto simp: tracks_def)
  show "(\<forall>f. field_int R (key c' s) f ?w = logged (lg @ [(c, \<lfloor>clk w\<rfloor>, fns)]) c' s f) \<and>
      integral ?w (key c' s) \<and> kept ?w c' s"
  proof (cases "key c' s = ?k")
    case True
    with key_inject [OF c' c] have eq: "c' = c" "s = \<lfloor>clk w\<rfloor>" by auto
    note b = bump_same_key [OF int]
    have "of_int s + window + 1 \<le> clk ?w + keep"
      unfolding clk_bump eq(2) using keep_window of_int_floor_le [of "clk w"] by linarith
    then have "kept ?w c' s"
      unfolding kept_def using b(3) eq by blast
    with b(1,2) old show ?thesis by (simp add: eq)
  next
    case False
    then have "\<not> (c = c' \<and> \<lfloor>clk w\<rfloor> = s)" by auto
    with old int kp bump_other_key [OF False] show ?thesis
      by (auto simp: field_int_def integral_def kept_def)
  qed
qed

text \<open>A counter of a second outside the window is none of its business, whoever bumps it.\<close>

lemma tracks_outside:
  assumes "tracks w lg" and "good c" and "\<not> in_window w s"
  shows "tracks (counter_bump R (key c s) keep fns w) lg"
  unfolding tracks_def
proof (intro allI impI)
  fix c' s' assume c': "good c'" and "in_window (counter_bump R (key c s) keep fns w) s'"
  then have s': "in_window w s'" by (simp add: in_window_def)
  with assms(3) have "key c' s' \<noteq> key c s" using key_inject [OF c' assms(2)] by auto
  with assms(1) c' s' bump_other_key [OF this]
  show "(\<forall>f. field_int R (key c' s') f (counter_bump R (key c s) keep fns w) = logged lg c' s' f) \<and>
      integral (counter_bump R (key c s) keep fns w) (key c' s') \<and>
      kept (counter_bump R (key c s) keep fns w) c' s'"
    by (auto simp: tracks_def field_int_def integral_def kept_def)
qed

text \<open>Waiting: nothing that is still in the window goes.\<close>

lemma tracks_pass:
  assumes tr: "tracks w lg" and d: "0 \<le> d"
  shows "tracks (pass d w) lg"
  unfolding tracks_def
proof (intro allI impI)
  fix c s assume c: "good c" and "in_window (pass d w) s"
  then have win: "clk w + d < of_int s + window + 1"
    using d by (simp add: in_window_def clk_pass)
  with d have "in_window w s" by (simp add: in_window_def)
  with tr c have old: "\<forall>f. field_int R (key c s) f w = logged lg c s f"
    and int: "integral w (key c s)" and kp: "kept w c s"
    by (auto simp: tracks_def)
  from kp [unfolded kept_def]
  have "(\<forall>f. hmget R (key c s) f (pass d w) = hmget R (key c s) f w) \<and> kept (pass d w) c s"
  proof
    assume "\<forall>f. hmget R (key c s) f w = None"
    then show ?thesis using hmget_pass_None [OF d] by (simp add: kept_def)
  next
    assume "\<exists>t. ttl (key c s) w = Some t \<and> of_int s + window + 1 \<le> clk w + t"
    then obtain t where t: "ttl (key c s) w = Some t" "of_int s + window + 1 \<le> clk w + t"
      by blast
    with win have "d < t" by linarith
    with t d show ?thesis
      using hmget_pass_alive [OF d, of "key c s" w] ttl_pass [OF d t(1)]
      by (auto simp: kept_def clk_pass)
  qed
  with old int show "(\<forall>f. field_int R (key c s) f (pass d w) = logged lg c s f) \<and>
      integral (pass d w) (key c s) \<and> kept (pass d w) c s"
    by (simp add: field_int_def integral_def)
qed

text \<open>A store with no counter yet.\<close>

lemma tracks_init:
  "(\<And>c s f. hmget R (key c s) f w = None) \<Longrightarrow> tracks w []"
  by (simp add: tracks_def field_int_def integral_def kept_def)

text \<open>Reading a window whose first second is in it.\<close>

lemma tracks_sum:
  assumes "tracks w lg" and "good c" and "in_window w lo"
  shows "field_sum R (map (key c) [lo..hi]) f w = (\<Sum>s\<leftarrow>[lo..hi]. logged lg c s f)"
proof -
  have "field_int R (key c s) f w = logged lg c s f" if "s \<in> set [lo..hi]" for s
  proof -
    from that have "lo \<le> s" by simp
    with assms(3) have "in_window w s" by (simp add: in_window_def)
    with assms(1,2) show ?thesis by (auto simp: tracks_def)
  qed
  then show ?thesis
    unfolding field_sum_def map_map comp_def by (intro arg_cong [where f = sum_list] map_cong) auto
qed

end

end
