(* ===== verification/Observe.thy ===== *)
theory Observe
  imports Counters
begin

text \<open>
  \<open>gateway/routing/observe.py\<close>: outcomes recorded in a hash per candidate and second, and
  their sum over the window. The main theorem says that the aggregate after any history of
  outcomes and pauses counts exactly the outcomes whose second is in the window.
\<close>

section \<open>The observer\<close>

record 'w observer =
  ob_redis :: "'w redis"
  ob_window_s :: int
  ob_now_s :: "'w clock"

record window_aggregate =
  wa_successes :: int
  wa_failures :: int
  wa_total :: int
  wa_mean_latency_s :: rat
  wa_error_rate :: rat

definition obs_record_success :: "'w observer \<Rightarrow> candidate_ref \<Rightarrow> rat \<Rightarrow> 'w \<Rightarrow> 'w" where
  "obs_record_success ob cand latency_s w =
     (let (t, w) = ob_now_s ob w;
          key = observe_key (ca_provider cand) (ca_model cand) (py_int t);
          w = hincrby_all (ob_redis ob) key
                [(''successes'', 1), (''latency_sum_ms'', py_int (latency_s * 1000)),
                 (''latency_count'', 1)] w
      in expire_s (ob_redis ob) key (of_int (ob_window_s ob * 4)) w)"

definition obs_record_failure :: "'w observer \<Rightarrow> candidate_ref \<Rightarrow> string \<Rightarrow> 'w \<Rightarrow> 'w" where
  "obs_record_failure ob cand kind w =
     (let (t, w) = ob_now_s ob w;
          key = observe_key (ca_provider cand) (ca_model cand) (py_int t);
          w = hincrby_all (ob_redis ob) key [(''failures'', 1), (''fail_'' @ kind, 1)] w
      in expire_s (ob_redis ob) key (of_int (ob_window_s ob * 4)) w)"

text \<open>The totals and the two ratios of a window.\<close>

definition mk_aggregate :: "int \<Rightarrow> int \<Rightarrow> int \<Rightarrow> int \<Rightarrow> window_aggregate" where
  "mk_aggregate successes failures latency_sum_ms latency_count =
     (let total = successes + failures
      in \<lparr>wa_successes = successes, wa_failures = failures, wa_total = total,
          wa_mean_latency_s =
            (if latency_count \<noteq> 0
             then of_int latency_sum_ms / of_int latency_count / 1000 else 0),
          wa_error_rate = (if total \<noteq> 0 then of_int failures / of_int total else 0)\<rparr>)"

definition aggregate :: "'w observer \<Rightarrow> candidate_ref \<Rightarrow> 'w \<Rightarrow> window_aggregate \<times> 'w" where
  "aggregate ob cand w =
     (let (t, w) = ob_now_s ob w;
          now = py_int t;
          floor = now - ob_window_s ob;
          keys = map (observe_key (ca_provider cand) (ca_model cand)) [floor..now];
          total_of = (\<lambda>f. field_sum (ob_redis ob) keys f w)
      in (mk_aggregate (total_of ''successes'') (total_of ''failures'')
            (total_of ''latency_sum_ms'') (total_of ''latency_count''), w))"

section \<open>Histories\<close>

datatype obs_event = Succeeded candidate_ref rat | Failed candidate_ref string | Waited rat

datatype outcome = Ok_in int | Failure string

text \<open>Running a history, with a record of what happened in which second.\<close>

type_synonym obs_log = "(candidate_ref \<times> int \<times> outcome) list"

fun obs_run ::
    "'w observer \<Rightarrow> (rat \<Rightarrow> 'w \<Rightarrow> 'w) \<Rightarrow> obs_event list \<Rightarrow> 'w \<times> obs_log \<Rightarrow> 'w \<times> obs_log"
  where
  "obs_run ob pass [] st = st"
| "obs_run ob pass (Succeeded c l # es) (w, lg) =
     obs_run ob pass es
       (obs_record_success ob c l w,
        lg @ [(c, py_int (fst (ob_now_s ob w)), Ok_in (py_int (l * 1000)))])"
| "obs_run ob pass (Failed c k # es) (w, lg) =
     obs_run ob pass es
       (obs_record_failure ob c k w, lg @ [(c, py_int (fst (ob_now_s ob w)), Failure k)])"
| "obs_run ob pass (Waited d # es) (w, lg) = obs_run ob pass es (pass d w, lg)"

fun obs_event_ok :: "obs_event \<Rightarrow> bool" where
  "obs_event_ok (Succeeded c l) \<longleftrightarrow> CHR '':'' \<notin> set (ca_provider c)"
| "obs_event_ok (Failed c k) \<longleftrightarrow> CHR '':'' \<notin> set (ca_provider c)"
| "obs_event_ok (Waited d) \<longleftrightarrow> 0 \<le> d"

section \<open>What the aggregate should be\<close>

definition outcomes_in :: "candidate_ref \<Rightarrow> int \<Rightarrow> int \<Rightarrow> obs_log \<Rightarrow> outcome list" where
  "outcomes_in c lo hi lg =
     map (snd \<circ> snd) (filter (\<lambda>(c', s, _). c' = c \<and> lo \<le> s \<and> s \<le> hi) lg)"

fun is_ok :: "outcome \<Rightarrow> bool" where
  "is_ok (Ok_in _) = True"
| "is_ok (Failure _) = False"

fun latency_ms_of :: "outcome \<Rightarrow> int" where
  "latency_ms_of (Ok_in n) = n"
| "latency_ms_of (Failure _) = 0"

definition aggregate_spec :: "outcome list \<Rightarrow> window_aggregate" where
  "aggregate_spec os =
     mk_aggregate (int (length (filter is_ok os))) (int (length (filter (\<lambda>x. \<not> is_ok x) os)))
       (sum_list (map latency_ms_of os)) (int (length (filter is_ok os)))"

section \<open>Proofs\<close>

fun bumps :: "outcome \<Rightarrow> (string \<times> int) list" where
  "bumps (Ok_in n) = [(''successes'', 1), (''latency_sum_ms'', n), (''latency_count'', 1)]"
| "bumps (Failure k) = [(''failures'', 1), (''fail_'' @ k, 1)]"

definition bump_log_of :: "obs_log \<Rightarrow> candidate_ref bump_log" where
  "bump_log_of lg = map (\<lambda>(c, s, out). (c, s, bumps out)) lg"

lemma amount_bumps_successes [simp]:
  "amount (bumps out) ''successes'' = (if is_ok out then 1 else 0)"
  by (cases out, simp, simp)

lemma amount_bumps_failures [simp]:
  "amount (bumps out) ''failures'' = (if is_ok out then 0 else 1)"
  by (cases out, simp, simp)

lemma amount_bumps_latency_count [simp]:
  "amount (bumps out) ''latency_count'' = (if is_ok out then 1 else 0)"
  by (cases out, simp, simp)

lemma amount_bumps_latency [simp]: "amount (bumps out) ''latency_sum_ms'' = latency_ms_of out"
  by (cases out, simp, simp)

lemma bump_log_totals:
  fixes lg :: obs_log
  assumes "\<And>f. sum_of f = sum_list (map (\<lambda>(c', s', fns).
      if c' = c \<and> lo \<le> s' \<and> s' \<le> hi then amount fns f else 0) (bump_log_of lg))"
  shows "mk_aggregate (sum_of ''successes'') (sum_of ''failures'') (sum_of ''latency_sum_ms'')
      (sum_of ''latency_count'') = aggregate_spec (outcomes_in c lo hi lg)"
proof -
  have "sum_of ''successes'' = int (length (filter is_ok (outcomes_in c lo hi lg)))"
    unfolding assms
    by (induction lg) (auto simp: bump_log_of_def outcomes_in_def split: if_splits)
  moreover have "sum_of ''latency_count'' = int (length (filter is_ok (outcomes_in c lo hi lg)))"
    unfolding assms
    by (induction lg) (auto simp: bump_log_of_def outcomes_in_def split: if_splits)
  moreover have "sum_of ''failures'' =
      int (length (filter (\<lambda>x. \<not> is_ok x) (outcomes_in c lo hi lg)))"
    unfolding assms
    by (induction lg) (auto simp: bump_log_of_def outcomes_in_def split: if_splits)
  moreover have "sum_of ''latency_sum_ms'' = sum_list (map latency_ms_of (outcomes_in c lo hi lg))"
    unfolding assms
    by (induction lg) (auto simp: bump_log_of_def outcomes_in_def split: if_splits)
  ultimately show ?thesis by (simp add: aggregate_spec_def)
qed

lemma mk_aggregate_ratios:
  "0 \<le> s \<Longrightarrow> 0 \<le> f \<Longrightarrow> 0 \<le> wa_error_rate (mk_aggregate s f l n) \<and>
     wa_error_rate (mk_aggregate s f l n) \<le> 1"
  "0 \<le> l \<Longrightarrow> 0 \<le> n \<Longrightarrow> 0 \<le> wa_mean_latency_s (mk_aggregate s f l n)"
  by (auto simp: mk_aggregate_def Let_def divide_le_eq)

text \<open>
  The observer on a Redis that keeps the laws, with a clock that runs with it: an instance of
  the per-second counters.
\<close>

locale observation = redis_time "ob_redis ob" pass clk ttl
  for ob :: "'w observer" and pass clk ttl +
  assumes clock_reads: "ob_now_s ob w = (clk w, w)"
    and window_pos: "0 < ob_window_s ob"

sublocale observation \<subseteq> second_counters "ob_redis ob" pass clk ttl
  "\<lambda>c :: candidate_ref. observe_key (ca_provider c) (ca_model c)"
  "\<lambda>c. CHR '':'' \<notin> set (ca_provider c)"
  "of_int (ob_window_s ob)" "of_int (ob_window_s ob) * 4"
proof unfold_locales
  show "observe_key (ca_provider c) (ca_model c) s = observe_key (ca_provider c') (ca_model c') s'
      \<longleftrightarrow> c = c' \<and> s = s'"
    if "CHR '':'' \<notin> set (ca_provider c)" "CHR '':'' \<notin> set (ca_provider c')"
    for c c' :: candidate_ref and s s'
    unfolding candidate_ref_eq
    using observe_key_inject [OF that, of "ca_model c" s "ca_model c'" s'] by blast
  have "rat_of_int 1 \<le> of_int (ob_window_s ob)"
    using window_pos by (subst of_int_le_iff) simp
  then show "rat_of_int (ob_window_s ob) + 1 \<le> of_int (ob_window_s ob) * 4" by simp
qed (use window_pos in simp)

context observation
begin

lemma success_bumps:
  "0 \<le> clk w \<Longrightarrow> obs_record_success ob c l w =
     counter_bump (ob_redis ob) (observe_key (ca_provider c) (ca_model c) \<lfloor>clk w\<rfloor>)
       (of_int (ob_window_s ob) * 4) (bumps (Ok_in (py_int (l * 1000)))) w"
  by (simp add: obs_record_success_def clock_reads counter_bump_def Let_def)

lemma failure_bumps:
  "0 \<le> clk w \<Longrightarrow> obs_record_failure ob c k w =
     counter_bump (ob_redis ob) (observe_key (ca_provider c) (ca_model c) \<lfloor>clk w\<rfloor>)
       (of_int (ob_window_s ob) * 4) (bumps (Failure k)) w"
  by (simp add: obs_record_failure_def clock_reads counter_bump_def Let_def)

lemma run_tracks:
  "\<lbrakk>obs_run ob pass es (w, lg) = (w', lg'); list_all obs_event_ok es; 0 \<le> clk w;
    tracks w (bump_log_of lg)\<rbrakk> \<Longrightarrow> tracks w' (bump_log_of lg') \<and> 0 \<le> clk w'"
proof (induction es arbitrary: w lg)
  case (Cons e es)
  show ?case
  proof (cases e)
    case (Succeeded c l)
    let ?w = "obs_record_success ob c l w"
    let ?lg = "lg @ [(c, \<lfloor>clk w\<rfloor>, Ok_in (py_int (l * 1000)))]"
    have "tracks ?w (bump_log_of ?lg)" "0 \<le> clk ?w"
      using Cons.prems(2-4) tracks_bump [OF Cons.prems(4), of c]
      by (simp_all add: Succeeded success_bumps bump_log_of_def del: bumps.simps)
    moreover have "obs_run ob pass es (?w, ?lg) = (w', lg')"
      using Cons.prems(1,3) by (simp add: Succeeded clock_reads)
    ultimately show ?thesis using Cons.IH Cons.prems(2) by simp
  next
    case (Failed c k)
    let ?w = "obs_record_failure ob c k w"
    let ?lg = "lg @ [(c, \<lfloor>clk w\<rfloor>, Failure k)]"
    have "tracks ?w (bump_log_of ?lg)" "0 \<le> clk ?w"
      using Cons.prems(2-4) tracks_bump [OF Cons.prems(4), of c]
      by (simp_all add: Failed failure_bumps bump_log_of_def del: bumps.simps)
    moreover have "obs_run ob pass es (?w, ?lg) = (w', lg')"
      using Cons.prems(1,3) by (simp add: Failed clock_reads)
    ultimately show ?thesis using Cons.IH Cons.prems(2) by simp
  next
    case (Waited d)
    with Cons.prems show ?thesis
      by (intro Cons.IH [of "pass d w" lg]) (auto simp: tracks_pass clk_pass)
  qed
qed simp

lemma aggregate_tracks:
  assumes tr: "tracks w (bump_log_of lg)" and c: "CHR '':'' \<notin> set (ca_provider c)"
    and clk: "0 \<le> clk w"
  shows "aggregate ob c w =
    (aggregate_spec (outcomes_in c (\<lfloor>clk w\<rfloor> - ob_window_s ob) \<lfloor>clk w\<rfloor> lg), w)"
proof -
  have "in_window w (\<lfloor>clk w\<rfloor> - ob_window_s ob)"
    unfolding in_window_def by simp linarith
  note sums = tracks_sum [OF tr c this, of "\<lfloor>clk w\<rfloor>", unfolded sum_logged]
  show ?thesis
    using clk bump_log_totals [of "\<lambda>f. field_sum (ob_redis ob)
        (map (observe_key (ca_provider c) (ca_model c)) [\<lfloor>clk w\<rfloor> - ob_window_s ob..\<lfloor>clk w\<rfloor>]) f w",
        OF sums]
    by (simp add: aggregate_def clock_reads Let_def)
qed

lemma aggregate_run:
  assumes "obs_run ob pass es (w, []) = (w', lg)" and "list_all obs_event_ok es"
    and "0 \<le> clk w" and "\<And>k f. hmget (ob_redis ob) k f w = None"
    and "CHR '':'' \<notin> set (ca_provider c)"
  shows "aggregate ob c w' =
    (aggregate_spec (outcomes_in c (\<lfloor>clk w'\<rfloor> - ob_window_s ob) \<lfloor>clk w'\<rfloor> lg), w')"
proof -
  have "tracks w (bump_log_of [])"
    using tracks_init [of w] assms(4) by (simp add: bump_log_of_def)
  with run_tracks [OF assms(1-3)] have "tracks w' (bump_log_of lg)" "0 \<le> clk w'" by auto
  then show ?thesis using assms(5) by (intro aggregate_tracks)
qed

end

text \<open>The observer on the in-memory store, with the configured window of 60 seconds.\<close>

definition mem_observer :: "mem_world observer" where
  "mem_observer = \<lparr>ob_redis = mem_redis, ob_window_s = 60, ob_now_s = mem_clock\<rparr>"

lemma mem_observer_sel [simp]:
  "ob_redis mem_observer = mem_redis" "ob_window_s mem_observer = 60"
  "ob_now_s mem_observer = mem_clock"
  by (simp_all add: mem_observer_def)

interpretation mem_obs: observation mem_observer mem_pass mw_now mem_ttl
  using mem_time.redis_time_axioms
  by (auto intro!: observation.intro observation_axioms.intro simp: mem_clock_def)

section \<open>Properties\<close>

text \<open>C15: After any history of recorded outcomes and pauses, on a Redis that starts without
  counters, the aggregate of a candidate is computed from exactly the outcomes of that
  candidate whose second lies in the window: the expiry of four windows never loses one, and
  outcomes of other candidates or seconds never count.\<close>

theorem aggregate_counts_window:
  assumes "observation ob pass clk ttl"
    and "obs_run ob pass es (w, []) = (w', lg)" and "list_all obs_event_ok es"
    and "0 \<le> clk w" and "\<And>k f. hmget (ob_redis ob) k f w = None"
    and "CHR '':'' \<notin> set (ca_provider c)"
  shows "fst (aggregate ob c w') =
    aggregate_spec (outcomes_in c (\<lfloor>clk w'\<rfloor> - ob_window_s ob) \<lfloor>clk w'\<rfloor> lg)"
  by (simp add: observation.aggregate_run [OF assms])

definition demo_ref :: candidate_ref where
  "demo_ref = \<lparr>ca_provider = ''openai'', ca_model = ''gpt-4o''\<rparr>"

definition demo_history :: "obs_event list" where
  "demo_history =
     [Succeeded demo_ref 2, Waited 30, Failed demo_ref ''Timeout'', Waited 45,
      Succeeded demo_ref (3 / 2)]"

lemma aggregate_counts_window_witness:
  "fst (aggregate mem_observer demo_ref
      (fst (obs_run mem_observer mem_pass demo_history (mem_empty, [])))) =
     \<lparr>wa_successes = 1, wa_failures = 1, wa_total = 2, wa_mean_latency_s = 3 / 2,
      wa_error_rate = 1 / 2\<rparr>"
proof -
  let ?r = "obs_run mem_observer mem_pass demo_history (mem_empty, [])"
  have run: "?r = (fst ?r, snd ?r)" by simp
  have ok: "list_all obs_event_ok demo_history" by code_simp
  have empty: "hmget (ob_redis mem_observer) k f mem_empty = None" for k f
    by (simp add: mem_hmget_def mem_or_new_def mem_entry_def mem_empty_def)
  have c: "CHR '':'' \<notin> set (ca_provider demo_ref)" by code_simp
  have "snd ?r = [(demo_ref, 0, Ok_in 2000), (demo_ref, 30, Failure ''Timeout''),
      (demo_ref, 75, Ok_in 1500)]" and "mw_now (fst ?r) = 75" and "0 \<le> mw_now mem_empty"
    by code_simp+
  with aggregate_counts_window [OF mem_obs.observation_axioms run ok _ empty c]
  show ?thesis
    by (simp add: outcomes_in_def aggregate_spec_def mk_aggregate_def)
qed

end
