(* ===== verification/Metered.thy ===== *)
theory Metered
  imports Prelude
begin

text \<open>
  The contract of one dimension of a token bucket, as an interface: a level that never
  passes its cap, grows at most with the time that goes by and pays for every grant. The
  bound on what a run of requests can be granted is proved here once; the bucket of
  \<open>gateway/redis_state.py\<close> interprets it for requests and for tokens.
\<close>

text \<open>Running a list of requests, each at its time; the flags say which were granted.\<close>

fun metered_run ::
    "(rat \<Rightarrow> 'r \<Rightarrow> 's \<Rightarrow> bool \<times> 's) \<Rightarrow> (rat \<times> 'r) list \<Rightarrow> 's \<Rightarrow> bool list \<times> 's" where
  "metered_run step [] s = ([], s)"
| "metered_run step ((now, r) # rs) s =
     (let (ok, s1) = step now r s; (oks, s2) = metered_run step rs s1 in (ok # oks, s2))"

text \<open>What the granted requests cost together.\<close>

fun granted_cost :: "('r \<Rightarrow> rat) \<Rightarrow> (rat \<times> 'r) list \<Rightarrow> bool list \<Rightarrow> rat" where
  "granted_cost cost ((_, r) # rs) (ok # oks) =
     (if ok then cost r else 0) + granted_cost cost rs oks"
| "granted_cost cost _ _ = 0"

text \<open>The time that goes by: steps back count as no time at all.\<close>

fun time_forward :: "rat \<Rightarrow> (rat \<times> 'r) list \<Rightarrow> rat" where
  "time_forward t0 [] = 0"
| "time_forward t0 ((now, _) # rs) = max 0 (now - t0) + time_forward now rs"

lemma time_forward_nonneg: "0 \<le> time_forward t0 rs"
  by (induction t0 rs rule: time_forward.induct) auto

text \<open>On a clock that never goes back it is the time from start to end.\<close>

lemma time_forward_sorted:
  "sorted (t0 # map fst rs) \<Longrightarrow> time_forward t0 rs = (if rs = [] then t0 else fst (last rs)) - t0"
  by (induction t0 rs rule: time_forward.induct) (auto split: if_splits)

lemma length_metered_run [simp]: "length (fst (metered_run step rs s)) = length rs"
  by (induction step rs s rule: metered_run.induct) (auto split: prod.splits)

locale metered =
  fixes cap rate :: rat
    and level last_at :: "'s \<Rightarrow> rat"
    and step :: "rat \<Rightarrow> 'r \<Rightarrow> 's \<Rightarrow> bool \<times> 's"
    and cost :: "'r \<Rightarrow> rat"
    and ok_req :: "'r \<Rightarrow> bool"
    and inv :: "'s \<Rightarrow> bool"
  assumes level_step:
      "inv s \<Longrightarrow> ok_req r \<Longrightarrow> step now r s = (ok, s') \<Longrightarrow>
       level s' + (if ok then cost r else 0) \<le> level s + rate * max 0 (now - last_at s)"
    and last_step: "step now r s = (ok, s') \<Longrightarrow> last_at s' = now"
    and inv_step: "inv s \<Longrightarrow> ok_req r \<Longrightarrow> step now r s = (ok, s') \<Longrightarrow> inv s'"
    and inv_level: "inv s \<Longrightarrow> 0 \<le> level s \<and> level s \<le> cap"
begin

lemma inv_run:
  "inv s \<Longrightarrow> list_all (\<lambda>(_, r). ok_req r) rs \<Longrightarrow> metered_run step rs s = (oks, s') \<Longrightarrow> inv s'"
proof (induction rs arbitrary: s oks)
  case (Cons x rs)
  obtain now r where x: "x = (now, r)" by force
  obtain ok s1 where s1: "step now r s = (ok, s1)" by force
  with Cons show ?case by (auto simp: x split: prod.splits dest: inv_step)
qed simp

lemma run_cost_level:
  "\<lbrakk>inv s; list_all (\<lambda>(_, r). ok_req r) rs; metered_run step rs s = (oks, s')\<rbrakk> \<Longrightarrow>
   level s' + granted_cost cost rs oks \<le> level s + rate * time_forward (last_at s) rs"
proof (induction rs arbitrary: s oks)
  case (Cons x rs)
  obtain now r where x: "x = (now, r)" by force
  obtain ok s1 where s1: "step now r s = (ok, s1)" by force
  obtain oks1 where run: "metered_run step rs s1 = (oks1, s')" and oks: "oks = ok # oks1"
    using Cons.prems(3) by (auto simp: x s1 split: prod.splits)
  have r: "ok_req r" and rs: "list_all (\<lambda>(_, r). ok_req r) rs"
    using Cons.prems(2) by (simp_all add: x)
  have "level s' + granted_cost cost rs oks1 \<le> level s1 + rate * time_forward now rs"
    using Cons.IH [OF inv_step [OF Cons.prems(1) r s1] rs run] last_step [OF s1] by simp
  with level_step [OF Cons.prems(1) r s1] show ?case
    by (simp add: x oks distrib_left)
qed simp

text \<open>No run is granted more than a full bucket and the refill of the time that went by.\<close>

theorem run_cost:
  assumes "inv s" and "list_all (\<lambda>(_, r). ok_req r) rs" and "metered_run step rs s = (oks, s')"
  shows "granted_cost cost rs oks \<le> cap + rate * time_forward (last_at s) rs"
  using run_cost_level [OF assms] inv_level [OF assms(1)] inv_level [OF inv_run [OF assms]]
  by linarith

end

end
