(* ===== verification/TokenBucket.thy ===== *)
theory TokenBucket
  imports Keys Metered
begin

text \<open>
  The rate limiter: the two Lua scripts of \<open>gateway/redis_state.py\<close> as functions on the
  Redis commands they issue, and \<open>RedisTokenBucket\<close> of \<open>gateway/ratelimit.py\<close>. The
  scripts refine a bucket on plain numbers (\<open>bucket_step\<close>), which meets the contract of
  the theory \<open>Metered\<close> in both of its dimensions.
\<close>

section \<open>The scripts\<close>

definition field_or :: "'w redis \<Rightarrow> string \<Rightarrow> string \<Rightarrow> rat \<Rightarrow> 'w \<Rightarrow> rat" where
  "field_or R k f d w = (case hmget R k f w of None \<Rightarrow> d | Some v \<Rightarrow> v)"

definition ratelimit_lua ::
    "'w redis \<Rightarrow> string \<Rightarrow> rat \<Rightarrow> rat \<Rightarrow> rat \<Rightarrow> rat \<Rightarrow> rat \<Rightarrow> rat \<Rightarrow> 'w \<Rightarrow> (bool \<times> int \<times> int) \<times> 'w"
  where
  "ratelimit_lua R key now_ms rpm_cap tpm_cap refill_rpm_pm refill_tpm_pm req_tokens w =
     (let rpm_rem = field_or R key ''rpm_remaining'' rpm_cap w;
          tpm_rem = field_or R key ''tpm_remaining'' tpm_cap w;
          last_ms = field_or R key ''last_refill_ms'' now_ms w;
          elapsed = now_ms - last_ms;
          elapsed = (if elapsed < 0 then 0 else elapsed);
          rpm_rem = min rpm_cap (rpm_rem + elapsed * refill_rpm_pm);
          tpm_rem = min tpm_cap (tpm_rem + elapsed * refill_tpm_pm);
          ok = (1 \<le> rpm_rem \<and> req_tokens \<le> tpm_rem);
          rpm_rem = (if ok then rpm_rem - 1 else rpm_rem);
          tpm_rem = (if ok then tpm_rem - req_tokens else tpm_rem);
          w = hset R key [(''rpm_remaining'', rpm_rem), (''tpm_remaining'', tpm_rem),
                (''last_refill_ms'', now_ms)] w;
          w = expire_s R key 600 w
      in ((ok, \<lfloor>rpm_rem\<rfloor>, \<lfloor>tpm_rem\<rfloor>), w))"

definition clamp_lua ::
    "'w redis \<Rightarrow> string \<Rightarrow> rat \<Rightarrow> rat \<Rightarrow> 'w \<Rightarrow> (int \<times> int) \<times> 'w" where
  "clamp_lua R key rpm_observed tpm_observed w =
     (let rpm_cur = field_or R key ''rpm_remaining'' rpm_observed w;
          tpm_cur = field_or R key ''tpm_remaining'' tpm_observed w;
          rpm_cur = (if rpm_observed < rpm_cur then rpm_observed else rpm_cur);
          tpm_cur = (if tpm_observed < tpm_cur then tpm_observed else tpm_cur);
          w = hset R key [(''rpm_remaining'', rpm_cur), (''tpm_remaining'', tpm_cur)] w
      in ((\<lfloor>rpm_cur\<rfloor>, \<lfloor>tpm_cur\<rfloor>), w))"

section \<open>The facade\<close>

record 'w token_bucket =
  tb_redis :: "'w redis"
  tb_limits :: "(string, rate_limit_entry) pydict"
  tb_now_ms :: "'w \<Rightarrow> int \<times> 'w"

definition tb_entry :: "'w token_bucket \<Rightarrow> string \<Rightarrow> string \<Rightarrow> rate_limit_entry pyres" where
  "tb_entry tb p m =
     (case map_of (tb_limits tb) (candidate_key p m) of
        None \<Rightarrow> Inl (KeyError (candidate_key p m))
      | Some e \<Rightarrow> Inr e)"

definition ratelimit_acquire ::
    "'w token_bucket \<Rightarrow> string \<Rightarrow> string \<Rightarrow> rate_limit_entry \<Rightarrow> int \<Rightarrow> 'w \<Rightarrow>
     (bool \<times> int \<times> int) \<times> 'w" where
  "ratelimit_acquire tb p m entry request_tokens w =
     (let key = bucket_key p m;
          (now_ms, w) = tb_now_ms tb w
      in ratelimit_lua (tb_redis tb) key (of_int now_ms) (of_int (rl_rpm entry))
           (of_int (rl_tpm entry)) (of_int (rl_rpm entry) / 60000)
           (of_int (rl_tpm entry) / 60000) (of_int request_tokens) w)"

definition try_acquire ::
    "'w token_bucket \<Rightarrow> string \<Rightarrow> string \<Rightarrow> int \<Rightarrow> 'w \<Rightarrow> (bool \<times> int \<times> int) pyres \<times> 'w" where
  "try_acquire tb p m request_tokens w =
     (case tb_entry tb p m of
        Inl e \<Rightarrow> (Inl e, w)
      | Inr entry \<Rightarrow>
          (let (res, w) = ratelimit_acquire tb p m entry request_tokens w in (Inr res, w)))"

definition clamp ::
    "'w token_bucket \<Rightarrow> string \<Rightarrow> string \<Rightarrow> int \<Rightarrow> int \<Rightarrow> 'w \<Rightarrow> (int \<times> int) pyres \<times> 'w" where
  "clamp tb p m rpm_observed tpm_observed w =
     (case tb_entry tb p m of
        Inl e \<Rightarrow> (Inl e, w)
      | Inr _ \<Rightarrow>
          (let (res, w) = clamp_lua (tb_redis tb) (bucket_key p m) (of_int rpm_observed)
                 (of_int tpm_observed) w
           in (Inr res, w)))"

definition remaining ::
    "'w token_bucket \<Rightarrow> string \<Rightarrow> string \<Rightarrow> 'w \<Rightarrow> (int \<times> int) pyres \<times> 'w" where
  "remaining tb p m w =
     (case tb_entry tb p m of
        Inl e \<Rightarrow> (Inl e, w)
      | Inr entry \<Rightarrow>
          (let ((_, rpm, tpm), w) = ratelimit_acquire tb p m entry 0 w in (Inr (rpm, tpm), w)))"

definition estimate_tokens :: "int \<Rightarrow> int \<Rightarrow> int" where
  "estimate_tokens prompt_chars max_tokens = max 1 (prompt_chars div 4 + max_tokens)"

section \<open>The bucket on plain numbers\<close>

record bucket =
  bs_rpm :: rat
  bs_tpm :: rat
  bs_last_ms :: rat

definition bucket_refill :: "rate_limit_entry \<Rightarrow> rat \<Rightarrow> bucket \<Rightarrow> bucket" where
  "bucket_refill e now b =
     (let elapsed = max 0 (now - bs_last_ms b)
      in \<lparr>bs_rpm = min (of_int (rl_rpm e)) (bs_rpm b + elapsed * (of_int (rl_rpm e) / 60000)),
          bs_tpm = min (of_int (rl_tpm e)) (bs_tpm b + elapsed * (of_int (rl_tpm e) / 60000)),
          bs_last_ms = now\<rparr>)"

definition bucket_take :: "int \<Rightarrow> bucket \<Rightarrow> bool \<times> bucket" where
  "bucket_take req b =
     (if 1 \<le> bs_rpm b \<and> of_int req \<le> bs_tpm b
      then (True, b\<lparr>bs_rpm := bs_rpm b - 1, bs_tpm := bs_tpm b - of_int req\<rparr>)
      else (False, b))"

definition bucket_step :: "rate_limit_entry \<Rightarrow> rat \<Rightarrow> int \<Rightarrow> bucket \<Rightarrow> bool \<times> bucket" where
  "bucket_step e now req b = bucket_take req (bucket_refill e now b)"

text \<open>What the store holds for a candidate; missing fields read as the script reads them.\<close>

definition bucket_at ::
    "'w redis \<Rightarrow> string \<Rightarrow> string \<Rightarrow> rate_limit_entry \<Rightarrow> rat \<Rightarrow> 'w \<Rightarrow> bucket" where
  "bucket_at R p m e now w =
     \<lparr>bs_rpm = field_or R (bucket_key p m) ''rpm_remaining'' (of_int (rl_rpm e)) w,
      bs_tpm = field_or R (bucket_key p m) ''tpm_remaining'' (of_int (rl_tpm e)) w,
      bs_last_ms = field_or R (bucket_key p m) ''last_refill_ms'' now w\<rparr>"

definition full_bucket :: "rate_limit_entry \<Rightarrow> rat \<Rightarrow> bucket" where
  "full_bucket e now =
     \<lparr>bs_rpm = of_int (rl_rpm e), bs_tpm = of_int (rl_tpm e), bs_last_ms = now\<rparr>"

definition bucket_inv :: "rate_limit_entry \<Rightarrow> bucket \<Rightarrow> bool" where
  "bucket_inv e b \<longleftrightarrow>
     0 \<le> bs_rpm b \<and> bs_rpm b \<le> of_int (rl_rpm e) \<and>
     0 \<le> bs_tpm b \<and> bs_tpm b \<le> of_int (rl_tpm e)"

lemma bucket_eq:
  "b = (c :: bucket) \<longleftrightarrow>
     bs_rpm b = bs_rpm c \<and> bs_tpm b = bs_tpm c \<and> bs_last_ms b = bs_last_ms c"
  by (cases b; cases c) auto

lemma bucket_inv_full: "valid_rate_limit e \<Longrightarrow> bucket_inv e (full_bucket e now)"
  by (simp add: bucket_inv_def full_bucket_def valid_rate_limit_def)

lemma bucket_inv_refill:
  "valid_rate_limit e \<Longrightarrow> bucket_inv e b \<Longrightarrow> bucket_inv e (bucket_refill e now b)"
  by (simp add: bucket_inv_def bucket_refill_def valid_rate_limit_def Let_def)

lemma bucket_inv_take: "bucket_inv e b \<Longrightarrow> 0 \<le> req \<Longrightarrow> bucket_inv e (snd (bucket_take req b))"
  by (auto simp: bucket_inv_def bucket_take_def)

lemma bucket_inv_step:
  "valid_rate_limit e \<Longrightarrow> bucket_inv e b \<Longrightarrow> 0 \<le> req \<Longrightarrow>
   bucket_inv e (snd (bucket_step e now req b))"
  by (simp add: bucket_step_def bucket_inv_refill bucket_inv_take)

lemma bucket_step_last: "bs_last_ms (snd (bucket_step e now req b)) = now"
  by (simp add: bucket_step_def bucket_take_def bucket_refill_def Let_def)

lemma bucket_refill_refill: "bucket_refill e now (bucket_refill e now b) = bucket_refill e now b"
  by (simp add: bucket_refill_def Let_def)

lemma bucket_step_refill: "bucket_step e now req (bucket_refill e now b) = bucket_step e now req b"
  by (simp add: bucket_step_def bucket_refill_refill)

lemma bucket_step_levels:
  assumes "valid_rate_limit e" and "bucket_step e now req b = (ok, b')"
  shows "bs_rpm b' + (if ok then 1 else 0)
           \<le> bs_rpm b + of_int (rl_rpm e) / 60000 * max 0 (now - bs_last_ms b)"
    and "bs_tpm b' + (if ok then of_int req else 0)
           \<le> bs_tpm b + of_int (rl_tpm e) / 60000 * max 0 (now - bs_last_ms b)"
  using assms(2) by (auto simp: bucket_step_def bucket_take_def bucket_refill_def Let_def
      mult.commute split: if_splits)

text \<open>Both dimensions meet the contract of \<open>Metered\<close>.\<close>

interpretation rpm_meter: metered "of_int (rl_rpm e)" "of_int (rl_rpm e) / 60000" bs_rpm bs_last_ms
  "bucket_step e" "\<lambda>_. 1" "\<lambda>req. 0 \<le> req" "\<lambda>b. valid_rate_limit e \<and> bucket_inv e b"
  for e
proof unfold_locales
  show "bs_rpm b' + (if ok then 1 else 0)
      \<le> bs_rpm b + of_int (rl_rpm e) / 60000 * max 0 (now - bs_last_ms b)"
    if "valid_rate_limit e \<and> bucket_inv e b" "bucket_step e now req b = (ok, b')"
    for b b' req now ok
    using bucket_step_levels(1) that by blast
  show "bs_last_ms b' = now" if "bucket_step e now req b = (ok, b')" for b b' req now ok
    using bucket_step_last [of e now req b] that by simp
  show "valid_rate_limit e \<and> bucket_inv e b'"
    if "valid_rate_limit e \<and> bucket_inv e b" "0 \<le> req" "bucket_step e now req b = (ok, b')"
    for b b' req now ok
    using bucket_inv_step [of e b req now] that by simp
qed (simp_all add: bucket_inv_def)

interpretation tpm_meter: metered "of_int (rl_tpm e)" "of_int (rl_tpm e) / 60000" bs_tpm bs_last_ms
  "bucket_step e" of_int "\<lambda>req. 0 \<le> req" "\<lambda>b. valid_rate_limit e \<and> bucket_inv e b"
  for e
proof unfold_locales
  show "bs_tpm b' + (if ok then of_int req else 0)
      \<le> bs_tpm b + of_int (rl_tpm e) / 60000 * max 0 (now - bs_last_ms b)"
    if "valid_rate_limit e \<and> bucket_inv e b" "bucket_step e now req b = (ok, b')"
    for b b' req now ok
    using bucket_step_levels(2) that by blast
  show "bs_last_ms b' = now" if "bucket_step e now req b = (ok, b')" for b b' req now ok
    using that by (rule rpm_meter.last_step)
  show "valid_rate_limit e \<and> bucket_inv e b'"
    if "valid_rate_limit e \<and> bucket_inv e b" "0 \<le> req" "bucket_step e now req b = (ok, b')"
    for b b' req now ok
    using that by (rule rpm_meter.inv_step)
qed (simp_all add: bucket_inv_def)

section \<open>The scripts refine the bucket\<close>

context redis_hashes
begin

lemma field_or_hset:
  "field_or R k f d (expire_s R k' 600 (hset R k' fvs w)) =
     (if k = k' \<and> f \<in> fst ` set fvs then the (map_of (rev fvs) f) else field_or R k f d w)"
proof (cases "k = k' \<and> f \<in> fst ` set fvs")
  case True
  then have "map_of (rev fvs) f \<noteq> None"
    by (simp add: map_of_eq_None_iff)
  with True show ?thesis by (auto simp: field_or_def hmget_expire hmget_hset)
next
  case False
  then show ?thesis by (auto simp: field_or_def hmget_expire hmget_hset)
qed

text \<open>The script computes one step of the bucket it finds and writes the result.\<close>

definition store_bucket :: "string \<Rightarrow> bucket \<Rightarrow> 'w \<Rightarrow> 'w" where
  "store_bucket k b w = expire_s R k 600
     (hset R k [(''rpm_remaining'', bs_rpm b), (''tpm_remaining'', bs_tpm b),
        (''last_refill_ms'', bs_last_ms b)] w)"

lemma bucket_at_store:
  "bucket_at R p m e now (store_bucket (bucket_key p m) b w) = b"
  by (simp add: bucket_eq bucket_at_def store_bucket_def field_or_hset)

lemma bucket_at_store_other:
  "bucket_key p' m' \<noteq> bucket_key p m \<Longrightarrow>
   bucket_at R p' m' e now (store_bucket (bucket_key p m) b w) = bucket_at R p' m' e now w"
  by (simp add: bucket_eq bucket_at_def store_bucket_def field_or_hset)

lemma clamp_elapsed: "(if x < 0 then 0 else x) = max 0 (x :: rat)"
  by simp

lemma ratelimit_lua_step:
  "ratelimit_lua R (bucket_key p m) now (of_int (rl_rpm e)) (of_int (rl_tpm e))
      (of_int (rl_rpm e) / 60000) (of_int (rl_tpm e) / 60000) (of_int req) w =
   (let (ok, b) = bucket_step e now req (bucket_at R p m e now w)
    in ((ok, \<lfloor>bs_rpm b\<rfloor>, \<lfloor>bs_tpm b\<rfloor>), store_bucket (bucket_key p m) b w))"
proof -
  let ?b = "bucket_refill e now (bucket_at R p m e now w)"
  have b: "bs_rpm ?b = min (of_int (rl_rpm e))
        (field_or R (bucket_key p m) ''rpm_remaining'' (of_int (rl_rpm e)) w
         + max 0 (now - field_or R (bucket_key p m) ''last_refill_ms'' now w)
           * (of_int (rl_rpm e) / 60000))"
    "bs_tpm ?b = min (of_int (rl_tpm e))
        (field_or R (bucket_key p m) ''tpm_remaining'' (of_int (rl_tpm e)) w
         + max 0 (now - field_or R (bucket_key p m) ''last_refill_ms'' now w)
           * (of_int (rl_tpm e) / 60000))"
    "bs_last_ms ?b = now"
    by (simp_all add: bucket_refill_def bucket_at_def Let_def)
  show ?thesis
    unfolding ratelimit_lua_def Let_def clamp_elapsed b(1,2) [symmetric] bucket_step_def
      bucket_take_def
    by (auto simp add: store_bucket_def b(3))
qed

lemma clamp_lua_refines:
  assumes "clamp_lua R (bucket_key p m) rpm_obs tpm_obs w = ((rpm, tpm), w')"
  shows "field_or R (bucket_key p m) ''rpm_remaining'' d w' =
           min rpm_obs (field_or R (bucket_key p m) ''rpm_remaining'' rpm_obs w)"
    and "field_or R (bucket_key p m) ''tpm_remaining'' d w' =
           min tpm_obs (field_or R (bucket_key p m) ''tpm_remaining'' tpm_obs w)"
    and "field_or R (bucket_key p m) ''last_refill_ms'' d w' =
           field_or R (bucket_key p m) ''last_refill_ms'' d w"
    and "rpm = \<lfloor>min rpm_obs (field_or R (bucket_key p m) ''rpm_remaining'' rpm_obs w)\<rfloor>"
    and "tpm = \<lfloor>min tpm_obs (field_or R (bucket_key p m) ''tpm_remaining'' tpm_obs w)\<rfloor>"
  using assms
  by (auto simp: clamp_lua_def Let_def field_or_def hmget_hset min_def split: if_splits)

end

section \<open>Traces of acquires\<close>

text \<open>
  A sequence of \<open>try_acquire\<close> calls on any candidates, from any replica, each with the
  clock reading its caller passes to Redis.
\<close>

type_synonym acquire_event = "int \<times> string \<times> string \<times> int"

definition acquired :: "(bool \<times> int \<times> int) pyres \<Rightarrow> bool" where
  "acquired res = (case res of Inl _ \<Rightarrow> False | Inr (ok, _, _) \<Rightarrow> ok)"

fun acquire_trace ::
    "'w token_bucket \<Rightarrow> acquire_event list \<Rightarrow> 'w \<Rightarrow> bool list \<times> 'w" where
  "acquire_trace tb [] w = ([], w)"
| "acquire_trace tb ((now, p, m, req) # rs) w =
     (case try_acquire (tb\<lparr>tb_now_ms := (\<lambda>w. (now, w))\<rparr>) p m req w of (res, w1) \<Rightarrow>
        (case acquire_trace tb rs w1 of (oks, w2) \<Rightarrow> (acquired res # oks, w2)))"

lemma acquire_trace_Cons:
  "acquire_trace tb ((now, p, m, req) # rs) w =
     (let r = try_acquire (tb\<lparr>tb_now_ms := (\<lambda>w. (now, w))\<rparr>) p m req w
      in (acquired (fst r) # fst (acquire_trace tb rs (snd r)), snd (acquire_trace tb rs (snd r))))"
  by (simp add: split_beta Let_def)

declare acquire_trace.simps(2) [simp del]

text \<open>What one candidate was granted: requests and tokens.\<close>

fun granted_requests :: "string \<Rightarrow> string \<Rightarrow> acquire_event list \<Rightarrow> bool list \<Rightarrow> rat" where
  "granted_requests p m ((_, p', m', _) # rs) (ok # oks) =
     (if ok \<and> p' = p \<and> m' = m then 1 else 0) + granted_requests p m rs oks"
| "granted_requests p m _ _ = 0"

fun granted_tokens :: "string \<Rightarrow> string \<Rightarrow> acquire_event list \<Rightarrow> bool list \<Rightarrow> rat" where
  "granted_tokens p m ((_, p', m', req) # rs) (ok # oks) =
     (if ok \<and> p' = p \<and> m' = m then of_int req else 0) + granted_tokens p m rs oks"
| "granted_tokens p m _ _ = 0"

definition events_of :: "string \<Rightarrow> string \<Rightarrow> acquire_event list \<Rightarrow> (rat \<times> int) list" where
  "events_of p m rs =
     map (\<lambda>(now, _, _, req). (of_int now, req)) (filter (\<lambda>(_, p', m', _). p' = p \<and> m' = m) rs)"

lemma events_of_simps [simp]:
  "events_of p m [] = []"
  "events_of p m ((now, p', m', req) # rs) =
     (if p' = p \<and> m' = m then (of_int now, req) # events_of p m rs else events_of p m rs)"
  by (simp_all add: events_of_def)

lemma events_of_requests:
  "list_all (\<lambda>(_, _, _, req). P req) rs \<Longrightarrow> list_all (\<lambda>(_, req). P req) (events_of p m rs)"
  by (induction rs) auto

lemma events_of_sorted: "sorted (map fst rs) \<Longrightarrow> sorted (map fst (events_of p m rs))"
  by (auto simp: events_of_def sorted_map split_beta intro!: sorted_wrt_filter
      elim: sorted_wrt_mono_rel [rotated])

lemma events_of_mem: "e \<in> set (events_of p m rs) \<Longrightarrow> \<exists>r \<in> set rs. fst e = of_int (fst r)"
  by (force simp: events_of_def)

locale bucket_store = redis_hashes "tb_redis tb" for tb :: "'w token_bucket"
begin

lemma try_acquire_step:
  assumes "tb_entry tb p m = Inr e"
  shows "try_acquire (tb\<lparr>tb_now_ms := (\<lambda>w. (now, w))\<rparr>) p m req w =
    (let (ok, b) = bucket_step e (of_int now) req (bucket_at (tb_redis tb) p m e (of_int now) w)
     in (Inr (ok, \<lfloor>bs_rpm b\<rfloor>, \<lfloor>bs_tpm b\<rfloor>), store_bucket (bucket_key p m) b w))"
  using assms by (simp add: try_acquire_def ratelimit_acquire_def tb_entry_def ratelimit_lua_step
      split_beta Let_def)

lemma try_acquire_other:
  assumes "bucket_key p' m' \<noteq> bucket_key p m"
  shows "bucket_at (tb_redis tb) p' m' e t
      (snd (try_acquire (tb\<lparr>tb_now_ms := (\<lambda>w. (now, w))\<rparr>) p m req w))
    = bucket_at (tb_redis tb) p' m' e t w"
proof (cases "tb_entry tb p m")
  case (Inl x)
  then show ?thesis by (simp add: try_acquire_def tb_entry_def)
next
  case (Inr e')
  then show ?thesis
    using assms by (simp add: try_acquire_step bucket_at_store_other split_beta Let_def)
qed

text \<open>One candidate's part of a trace is a run of its bucket.\<close>

lemma trace_projects:
  assumes e: "tb_entry tb p m = Inr e" and p: "CHR '':'' \<notin> set p"
  shows "\<lbrakk>acquire_trace tb rs w = (oks, w'); list_all (\<lambda>(_, p', _, _). CHR '':'' \<notin> set p') rs\<rbrakk> \<Longrightarrow>
    (let es = events_of p m rs;
         flags = fst (metered_run (bucket_step e) es
                   (bucket_at (tb_redis tb) p m e (fst (hd es)) w))
     in granted_requests p m rs oks = granted_cost (\<lambda>_. 1) es flags \<and>
        granted_tokens p m rs oks = granted_cost of_int es flags)"
proof (induction rs arbitrary: w oks)
  case Nil
  then show ?case by simp
next
  case (Cons r rs)
  obtain now p' m' req where r: "r = (now, p', m', req)" by (cases r)
  let ?res = "try_acquire (tb\<lparr>tb_now_ms := (\<lambda>w. (now, w))\<rparr>) p' m' req w"
  define oks1 where "oks1 = fst (acquire_trace tb rs (snd ?res))"
  have run: "acquire_trace tb rs (snd ?res) = (oks1, w')"
    and oks: "oks = acquired (fst ?res) # oks1"
    using Cons.prems(1) unfolding r acquire_trace_Cons Let_def oks1_def
    by (metis prod.collapse prod.inject)+
  note IH = Cons.IH [OF run]
  show ?case
  proof (cases "p' = p \<and> m' = m")
    case True
    obtain ok b where st: "bucket_step e (of_int now) req
        (bucket_at (tb_redis tb) p m e (of_int now) w) = (ok, b)" by force
    have "?res = (Inr (ok, \<lfloor>bs_rpm b\<rfloor>, \<lfloor>bs_tpm b\<rfloor>), store_bucket (bucket_key p m) b w)"
      using True by (simp add: try_acquire_step [OF e] st)
    with IH Cons.prems(2) True st show ?thesis
      by (simp add: r oks acquired_def bucket_at_store Let_def split_beta)
  next
    case False
    with p Cons.prems(2) have "bucket_key p m \<noteq> bucket_key p' m'"
      by (auto simp: r bucket_key_inject)
    moreover have "events_of p m (r # rs) = events_of p m rs"
      "granted_requests p m (r # rs) oks = granted_requests p m rs oks1"
      "granted_tokens p m (r # rs) oks = granted_tokens p m rs oks1"
      using False by (auto simp: r oks)
    ultimately show ?thesis
      using IH Cons.prems(2) by (simp add: r try_acquire_other Let_def)
  qed
qed

end

lemma metered_run_refill:
  "metered_run (bucket_step e) es (bucket_refill e (fst (hd es)) b) =
     (if es = [] then ([], bucket_refill e (fst (hd es)) b) else metered_run (bucket_step e) es b)"
  by (cases es) (auto simp: bucket_step_refill)

text \<open>The bound on one candidate's part of a trace on clocks that do not go back.\<close>

lemma events_span:
  assumes "sorted (map fst rs)" and "events_of p m rs \<noteq> []"
  shows "time_forward (fst (hd (events_of p m rs))) (events_of p m rs)
    \<le> of_int (fst (last rs)) - of_int (fst (hd rs))"
proof -
  let ?es = "events_of p m rs"
  have "sorted (map fst ?es)" by (rule events_of_sorted) (rule assms(1))
  then have "sorted (fst (hd ?es) # map fst ?es)"
    using assms(2) by (cases ?es) auto
  then have "time_forward (fst (hd ?es)) ?es = fst (last ?es) - fst (hd ?es)"
    using assms(2) by (simp add: time_forward_sorted)
  moreover obtain r where "r \<in> set rs" "fst (last ?es) = of_int (fst r)"
    using events_of_mem [OF last_in_set [OF assms(2)]] by blast
  moreover obtain r' where "r' \<in> set rs" "fst (hd ?es) = of_int (fst r')"
    using events_of_mem [OF hd_in_set [OF assms(2)]] by blast
  moreover have "fst (hd rs) \<le> fst x \<and> fst x \<le> fst (last rs)" if "x \<in> set rs" for x
    using sorted_between [OF assms(1)] that by simp
  ultimately show ?thesis by (simp add: diff_mono)
qed

section \<open>The facade refines the bucket\<close>

context bucket_store
begin

lemma try_acquire_eq:
  assumes "tb_entry tb p m = Inr e" and "tb_now_ms tb w = (now, w1)"
  shows "try_acquire tb p m req w =
    (let (ok, b) = bucket_step e (of_int now) req (bucket_at (tb_redis tb) p m e (of_int now) w1)
     in (Inr (ok, \<lfloor>bs_rpm b\<rfloor>, \<lfloor>bs_tpm b\<rfloor>), store_bucket (bucket_key p m) b w1))"
  using assms by (simp add: try_acquire_def ratelimit_acquire_def ratelimit_lua_step
      split_beta Let_def)

lemma remaining_eq:
  assumes "tb_entry tb p m = Inr e" and "tb_now_ms tb w = (now, w1)"
  shows "remaining tb p m w =
    (let b = snd (bucket_step e (of_int now) 0 (bucket_at (tb_redis tb) p m e (of_int now) w1))
     in (Inr (\<lfloor>bs_rpm b\<rfloor>, \<lfloor>bs_tpm b\<rfloor>), store_bucket (bucket_key p m) b w1))"
  using assms ratelimit_lua_step [of p m "of_int now" e 0 w1]
  by (simp add: remaining_def ratelimit_acquire_def split_beta Let_def)

end

lemma bucket_at_inv_time:
  "bucket_inv e (bucket_at R p m e t w) \<longleftrightarrow> bucket_inv e (bucket_at R p m e t' w)"
  by (simp add: bucket_inv_def bucket_at_def)

lemma idle_refills:
  assumes "valid_rate_limit e" and "bucket_inv e b" and "bs_last_ms b + 60000 \<le> now"
  shows "bucket_refill e now b = full_bucket e now"
proof -
  have grow: "min c (x + max 0 (now - bs_last_ms b) * c / 60000) = c"
    if "0 < c" and "0 \<le> x" for c x :: rat
  proof -
    have "60000 * (c / 60000) \<le> max 0 (now - bs_last_ms b) * (c / 60000)"
      using that(1) assms(3) by (intro mult_right_mono) auto
    with that(2) show ?thesis by (simp add: min_def)
  qed
  show ?thesis
    using assms(1,2) by (simp add: bucket_eq bucket_refill_def full_bucket_def Let_def grow
        bucket_inv_def valid_rate_limit_def)
qed

lemma full_refills: "bucket_refill e now (full_bucket e now) = full_bucket e now"
  by (simp add: bucket_eq bucket_refill_def full_bucket_def Let_def)

lemma full_grants:
  "valid_rate_limit e \<Longrightarrow> req \<le> rl_tpm e \<Longrightarrow> fst (bucket_step e now req (full_bucket e now))"
  unfolding bucket_step_def full_refills
  by (simp add: bucket_take_def full_bucket_def valid_rate_limit_def)

lemma over_limit_denied: "rl_tpm e < req \<Longrightarrow> \<not> fst (bucket_step e now req b)"
  by (auto simp: bucket_step_def bucket_take_def bucket_refill_def Let_def)

section \<open>A store to run the bucket on\<close>

definition mem_now_ms :: "mem_world \<Rightarrow> int \<times> mem_world" where
  "mem_now_ms w = (\<lfloor>mw_now w * 1000\<rfloor>, w)"

definition mem_bucket :: "mem_world token_bucket" where
  "mem_bucket =
     \<lparr>tb_redis = mem_redis,
      tb_limits = [(''openai/gpt-4o'', \<lparr>rl_rpm = 60, rl_tpm = 6000\<rparr>),
                   (''google/gemini-2.5-pro'', \<lparr>rl_rpm = 1, rl_tpm = 100\<rparr>)],
      tb_now_ms = mem_now_ms\<rparr>"

lemma mem_bucket_sel [simp]:
  "tb_redis mem_bucket = mem_redis" "tb_now_ms mem_bucket = mem_now_ms"
  by (simp_all add: mem_bucket_def)

interpretation mem_buckets: bucket_store mem_bucket
  by (rule bucket_store.intro) (simp add: mem.redis_hashes_axioms)

section \<open>Properties\<close>


text \<open>C19: The script behind \<open>try_acquire\<close> is one atomic step of the bucket: it refills both
  levels for the time since the last call, grants exactly when one request and all the tokens
  are there, takes both or neither, reports the floors of what is left, and leaves the bucket
  of every other candidate alone.\<close>

theorem try_acquire_refines:
  assumes "bucket_store tb" and "tb_entry tb p m = Inr e" and "tb_now_ms tb w = (now, w1)"
    and "CHR '':'' \<notin> set p" and "CHR '':'' \<notin> set p'" and "(p', m') \<noteq> (p, m)"
    and "try_acquire tb p m req w = (res, w')"
  shows "\<exists>ok b. bucket_step e (of_int now) req (bucket_at (tb_redis tb) p m e (of_int now) w1) = (ok, b)
      \<and> res = Inr (ok, \<lfloor>bs_rpm b\<rfloor>, \<lfloor>bs_tpm b\<rfloor>)
      \<and> bucket_at (tb_redis tb) p m e t w' = b
      \<and> bucket_at (tb_redis tb) p' m' e' t w' = bucket_at (tb_redis tb) p' m' e' t w1"
proof -
  note R = bucket_store.axioms [OF assms(1)]
  have "bucket_key p' m' \<noteq> bucket_key p m"
    using assms(4-6) by (simp add: bucket_key_inject)
  then show ?thesis
    using assms(7) redis_hashes.bucket_at_store [OF R] redis_hashes.bucket_at_store_other [OF R]
    by (auto simp: bucket_store.try_acquire_eq [OF assms(1-3)] split_beta Let_def
        intro!: exI [of _ "fst (bucket_step e (of_int now) req _)"]
        exI [of _ "snd (bucket_step e (of_int now) req _)"])
qed

text \<open>A candidate whose bucket has been idle for a minute or more can spend its whole
  per-minute allowance in one call: the call is granted exactly when the request fits the
  configured tokens per minute, and it leaves the full bucket less what it took. A larger
  request is never granted, however long it waits.\<close>

theorem idle_bucket_grants:
  assumes "bucket_store tb" and "tb_entry tb p m = Inr e" and "tb_now_ms tb w = (now, w1)"
    and "valid_rate_limit e" and inv: "bucket_inv e (bucket_at (tb_redis tb) p m e (of_int now) w1)"
    and idle: "bs_last_ms (bucket_at (tb_redis tb) p m e (of_int now) w1) + 60000 \<le> of_int now"
  shows "fst (try_acquire tb p m req w) =
    (if req \<le> rl_tpm e then Inr (True, rl_rpm e - 1, rl_tpm e - req)
     else Inr (False, rl_rpm e, rl_tpm e))"
proof -
  have "rat_of_int (rl_rpm e) - 1 = of_int (rl_rpm e - 1)"
    "rat_of_int (rl_tpm e) - of_int req = of_int (rl_tpm e - req)" by simp_all
  then show ?thesis
    using assms(4)
    by (simp add: bucket_store.try_acquire_eq [OF assms(1-3)] bucket_step_def
        idle_refills [OF assms(4) inv idle] bucket_take_def full_bucket_def valid_rate_limit_def
        del: of_int_diff)
qed

text \<open>The ten-minute expiry of a bucket's key is invisible: a call on a store where the
  key is gone returns what it returns where an untouched bucket of ten minutes ago is still
  there, and both leave the same bucket behind.\<close>

theorem expiry_is_invisible:
  assumes "bucket_store tb" and "tb_entry tb p m = Inr e"
    and "tb_now_ms tb w = (now, w1)" and "tb_now_ms tb v = (now, v1)"
    and "valid_rate_limit e" and "bucket_inv e (bucket_at (tb_redis tb) p m e (of_int now) w1)"
    and "bs_last_ms (bucket_at (tb_redis tb) p m e (of_int now) w1) + 600000 \<le> of_int now"
    and gone: "\<And>f. hmget (tb_redis tb) (bucket_key p m) f v1 = None"
  shows "fst (try_acquire tb p m req v) = fst (try_acquire tb p m req w) \<and>
    bucket_at (tb_redis tb) p m e t (snd (try_acquire tb p m req v)) =
    bucket_at (tb_redis tb) p m e t (snd (try_acquire tb p m req w))"
proof -
  note R = bucket_store.axioms [OF assms(1)]
  have "bucket_at (tb_redis tb) p m e (of_int now) v1 = full_bucket e (of_int now)"
    by (simp add: bucket_at_def full_bucket_def field_or_def gone)
  moreover have "bucket_refill e (of_int now) (bucket_at (tb_redis tb) p m e (of_int now) w1) =
      full_bucket e (of_int now)"
    using assms(5-7) by (intro idle_refills) auto
  ultimately have "bucket_step e (of_int now) req (bucket_at (tb_redis tb) p m e (of_int now) v1) =
      bucket_step e (of_int now) req (bucket_at (tb_redis tb) p m e (of_int now) w1)"
    by (simp add: bucket_step_def full_refills)
  then show ?thesis
    by (simp add: bucket_store.try_acquire_eq [OF assms(1,2,3)]
        bucket_store.try_acquire_eq [OF assms(1,2,4)] redis_hashes.bucket_at_store [OF R]
        split_beta Let_def)
qed

text \<open>Clamping to what a vendor reports can only take away: the levels become the smaller
  of what is stored and what was observed (a missing field counts as observed), the refill
  clock is untouched, the result is the floors of the new levels, and no candidate with
  limits makes it raise.\<close>

theorem clamp_takes_minimum:
  assumes "bucket_store tb" and "tb_entry tb p m = Inr e"
    and run: "clamp tb p m rpm_obs tpm_obs w = (res, w')"
  shows "res = Inr (\<lfloor>min (of_int rpm_obs) (field_or (tb_redis tb) (bucket_key p m) ''rpm_remaining'' (of_int rpm_obs) w)\<rfloor>,
                    \<lfloor>min (of_int tpm_obs) (field_or (tb_redis tb) (bucket_key p m) ''tpm_remaining'' (of_int tpm_obs) w)\<rfloor>)
    \<and> bs_rpm (bucket_at (tb_redis tb) p m e t w') \<le> of_int rpm_obs
    \<and> bs_tpm (bucket_at (tb_redis tb) p m e t w') \<le> of_int tpm_obs
    \<and> bs_last_ms (bucket_at (tb_redis tb) p m e t w') = bs_last_ms (bucket_at (tb_redis tb) p m e t w)"
proof -
  note R = bucket_store.axioms [OF assms(1)]
  obtain rpm tpm where lua: "clamp_lua (tb_redis tb) (bucket_key p m) (of_int rpm_obs)
      (of_int tpm_obs) w = ((rpm, tpm), w')" and res: "res = Inr (rpm, tpm)"
    using run assms(2) by (auto simp: clamp_def split: prod.splits)
  show ?thesis
    using redis_hashes.clamp_lua_refines [OF R lua] by (simp add: res bucket_at_def)
qed

text \<open>Reading what is left takes a request: on a bucket whose level is one request or
  more, \<open>remaining\<close> leaves the candidate with one request less than it found, exactly as
  a granted call would, so that the next call may be denied because of it.\<close>

theorem remaining_takes_a_request:
  assumes "bucket_store tb" and "tb_entry tb p m = Inr e" and "tb_now_ms tb w = (now, w1)"
    and "b = bucket_refill e (of_int now) (bucket_at (tb_redis tb) p m e (of_int now) w1)"
    and "1 \<le> bs_rpm b" and "0 \<le> bs_tpm b"
  shows "bs_rpm (bucket_at (tb_redis tb) p m e t (snd (remaining tb p m w))) = bs_rpm b - 1 \<and>
    fst (remaining tb p m w) = Inr (\<lfloor>bs_rpm b\<rfloor> - 1, \<lfloor>bs_tpm b\<rfloor>)"
  using assms(5,6)
  by (simp add: bucket_store.remaining_eq [OF assms(1-3)] bucket_step_def bucket_take_def
      assms(4) [symmetric] redis_hashes.bucket_at_store [OF bucket_store.axioms [OF assms(1)]])

text \<open>The script trusts its callers' clocks: a call that reads an earlier time than the
  last one sets the refill clock back, and the next call on time is paid for that stretch
  again. One caller a minute behind refills a bucket completely, at once and whatever had
  been taken from it.\<close>

theorem clock_behind_refills:
  assumes "valid_rate_limit e" and "bucket_inv e b" and "req \<le> rl_tpm e"
    and "0 \<le> req'" and "bs_last_ms b = of_int now"
  shows "fst (bucket_step e (of_int now) req
      (snd (bucket_step e (of_int now - 60000) req' b)))"
proof -
  let ?b = "snd (bucket_step e (of_int now - 60000) req' b)"
  have "bucket_refill e (of_int now) ?b = full_bucket e (of_int now)"
    using assms(1,2,4) by (intro idle_refills) (simp_all add: bucket_inv_step bucket_step_last)
  with assms(1,3) show ?thesis
    using full_grants [of e req "of_int now"] by (simp add: bucket_step_def full_refills)
qed

text \<open>The token estimate of a request is the prompt's characters at four a token plus
  the tokens it may generate, rounded down and never below one: it is within one token of
  the exact quotient.\<close>

theorem estimate_tokens_bounds:
  "1 \<le> estimate_tokens chars max_tokens \<and>
   chars + 4 * max_tokens \<le> 4 * estimate_tokens chars max_tokens + 3 \<and>
   4 * estimate_tokens chars max_tokens \<le> max 4 (chars + 4 * max_tokens)"
  unfolding estimate_tokens_def by (simp add: max_def) linarith

section \<open>The properties on the in-memory store\<close>

definition openai_limits :: rate_limit_entry where
  "openai_limits = \<lparr>rl_rpm = 60, rl_tpm = 6000\<rparr>"

definition gemini_limits :: rate_limit_entry where
  "gemini_limits = \<lparr>rl_rpm = 1, rl_tpm = 100\<rparr>"

lemma mem_bucket_entries:
  "tb_entry mem_bucket ''openai'' ''gpt-4o'' = Inr openai_limits"
  "tb_entry mem_bucket ''google'' ''gemini-2.5-pro'' = Inr gemini_limits"
  by (simp_all add: tb_entry_def mem_bucket_def candidate_key_def openai_limits_def
      gemini_limits_def)

text \<open>
  A run of three requests of 4000 tokens: granted, too early, granted again. The store holds
  the candidate's bucket and a request of the other candidate comes in between.
\<close>

definition demo_trace :: "acquire_event list" where
  "demo_trace =
     [(1000, ''openai'', ''gpt-4o'', 4000), (2000, ''openai'', ''gpt-4o'', 4000),
      (2500, ''google'', ''gemini-2.5-pro'', 101), (31000, ''openai'', ''gpt-4o'', 4000)]"

definition bucket_entry :: "rat \<Rightarrow> rat \<Rightarrow> rat \<Rightarrow> (string, rat) pydict \<times> rat option" where
  "bucket_entry rpm tpm ms =
     ([(''rpm_remaining'', rpm), (''tpm_remaining'', tpm), (''last_refill_ms'', ms)], Some 600)"

definition openai_world :: "rat \<Rightarrow> rat \<Rightarrow> rat \<Rightarrow> mem_world" where
  "openai_world rpm tpm ms =
     \<lparr>mw_now = 0, mw_hashes = [(''gw:bkt:openai:gpt-4o'', bucket_entry rpm tpm ms)],
      mw_strings = []\<rparr>"

definition both_world :: "rat \<Rightarrow> rat \<Rightarrow> rat \<Rightarrow> mem_world" where
  "both_world rpm tpm ms =
     \<lparr>mw_now = 0,
      mw_hashes = [(''gw:bkt:openai:gpt-4o'', bucket_entry rpm tpm ms),
        (''gw:bkt:google:gemini-2.5-pro'', bucket_entry 1 100 2500)],
      mw_strings = []\<rparr>"

lemma demo_steps:
  "try_acquire (mem_bucket\<lparr>tb_now_ms := (\<lambda>w. (1000, w))\<rparr>) ''openai'' ''gpt-4o'' 4000 mem_empty =
     (Inr (True, 59, 2000), openai_world 59 2000 1000)"
  "try_acquire (mem_bucket\<lparr>tb_now_ms := (\<lambda>w. (2000, w))\<rparr>) ''openai'' ''gpt-4o'' 4000
     (openai_world 59 2000 1000) = (Inr (False, 60, 2100), openai_world 60 2100 2000)"
  "try_acquire (mem_bucket\<lparr>tb_now_ms := (\<lambda>w. (2500, w))\<rparr>) ''google'' ''gemini-2.5-pro'' 101
     (openai_world 60 2100 2000) = (Inr (False, 1, 100), both_world 60 2100 2000)"
  "try_acquire (mem_bucket\<lparr>tb_now_ms := (\<lambda>w. (31000, w))\<rparr>) ''openai'' ''gpt-4o'' 4000
     (both_world 60 2100 2000) = (Inr (True, 59, 1000), both_world 59 1000 31000)"
  by code_simp+

lemma demo_run:
  "acquire_trace mem_bucket demo_trace mem_empty =
     ([True, False, False, True], both_world 59 1000 31000)"
  by (simp add: demo_trace_def demo_steps acquired_def acquire_trace_Cons Let_def)

lemma mem_bucket_ready:
  "valid_rate_limit openai_limits" "valid_rate_limit gemini_limits"
  "bucket_inv openai_limits (bucket_at mem_redis ''openai'' ''gpt-4o'' openai_limits t mem_empty)"
  "bucket_inv gemini_limits
     (bucket_at mem_redis ''google'' ''gemini-2.5-pro'' gemini_limits t mem_empty)"
  "CHR '':'' \<notin> set ''openai''" "CHR '':'' \<notin> set ''google''"
  by (simp_all add: valid_rate_limit_def openai_limits_def gemini_limits_def bucket_inv_def
      bucket_at_def field_or_def mem_hmget_def mem_or_new_def mem_entry_def mem_empty_def)


lemma try_acquire_refines_witness:
  "\<exists>b. bucket_at mem_redis ''openai'' ''gpt-4o'' openai_limits 0 (openai_world 59 5990 0) = b \<and>
     bs_rpm b = 59 \<and>
     bucket_at mem_redis ''google'' ''gemini-2.5-pro'' gemini_limits 0 (openai_world 59 5990 0) =
     bucket_at mem_redis ''google'' ''gemini-2.5-pro'' gemini_limits 0 mem_empty"
proof -
  have run: "try_acquire mem_bucket ''openai'' ''gpt-4o'' 10 mem_empty =
      (Inr (True, 59, 5990), openai_world 59 5990 0)"
    and clk: "tb_now_ms mem_bucket mem_empty = (0, mem_empty)"
    and differ: "(''google'', ''gemini-2.5-pro'') \<noteq> (''openai'', ''gpt-4o'')"
    by code_simp+
  have "bs_rpm (bucket_at mem_redis ''openai'' ''gpt-4o'' openai_limits 0
      (openai_world 59 5990 0)) = 59"
    by code_simp
  with try_acquire_refines [OF mem_buckets.bucket_store_axioms mem_bucket_entries(1) clk
      mem_bucket_ready(5,6) differ run, of 0 gemini_limits]
  show ?thesis by auto
qed

lemma idle_bucket_grants_witness:
  "fst (try_acquire mem_bucket ''openai'' ''gpt-4o'' 6000
      (openai_world 2 1 (- 60000))) = Inr (True, 59, 0)"
proof -
  let ?w = "openai_world 2 1 (- 60000)"
  have "tb_now_ms mem_bucket ?w = (0, ?w)"
    "bucket_inv openai_limits
       (bucket_at (tb_redis mem_bucket) ''openai'' ''gpt-4o'' openai_limits (of_int 0) ?w)"
    "bs_last_ms (bucket_at (tb_redis mem_bucket) ''openai'' ''gpt-4o'' openai_limits (of_int 0) ?w)
       + 60000 \<le> of_int 0"
    by code_simp+
  from idle_bucket_grants [OF mem_buckets.bucket_store_axioms mem_bucket_entries(1) this(1)
      mem_bucket_ready(1) this(2,3), of 6000]
  show ?thesis by (simp add: openai_limits_def)
qed

lemma expiry_is_invisible_witness:
  "fst (try_acquire mem_bucket ''openai'' ''gpt-4o'' 6000 mem_empty) =
   fst (try_acquire mem_bucket ''openai'' ''gpt-4o'' 6000 (openai_world 2 1 (- 600000)))"
proof -
  let ?w = "openai_world 2 1 (- 600000)"
  have clk: "tb_now_ms mem_bucket ?w = (0, ?w)" "tb_now_ms mem_bucket mem_empty = (0, mem_empty)"
    and st: "bucket_inv openai_limits
       (bucket_at (tb_redis mem_bucket) ''openai'' ''gpt-4o'' openai_limits (of_int 0) ?w)"
    "bs_last_ms (bucket_at (tb_redis mem_bucket) ''openai'' ''gpt-4o'' openai_limits (of_int 0) ?w)
       + 600000 \<le> of_int 0"
    by code_simp+
  have gone: "hmget (tb_redis mem_bucket) (bucket_key ''openai'' ''gpt-4o'') f mem_empty = None" for f
    by (simp add: mem_hmget_def mem_or_new_def mem_entry_def mem_empty_def)
  from expiry_is_invisible [OF mem_buckets.bucket_store_axioms mem_bucket_entries(1) clk
      mem_bucket_ready(1) st gone, of 6000]
  show ?thesis by simp
qed

lemma clamp_takes_minimum_witness:
  "fst (clamp mem_bucket ''openai'' ''gpt-4o'' 10 9000 (openai_world 59 (2995 / 2) 0)) =
   Inr (10, 1497)"
proof -
  let ?w = "openai_world 59 (2995 / 2) 0"
  have run: "clamp mem_bucket ''openai'' ''gpt-4o'' 10 9000 ?w =
      (fst (clamp mem_bucket ''openai'' ''gpt-4o'' 10 9000 ?w),
       snd (clamp mem_bucket ''openai'' ''gpt-4o'' 10 9000 ?w))" by simp
  have fields: "field_or mem_redis (bucket_key ''openai'' ''gpt-4o'') ''rpm_remaining'' 10 ?w = 59"
    "field_or mem_redis (bucket_key ''openai'' ''gpt-4o'') ''tpm_remaining'' 9000 ?w = 2995 / 2"
    by code_simp+
  from clamp_takes_minimum [OF mem_buckets.bucket_store_axioms mem_bucket_entries(1) run]
  show ?thesis by (simp add: fields)
qed

lemma remaining_takes_a_request_witness:
  "fst (remaining mem_bucket ''google'' ''gemini-2.5-pro'' mem_empty) = Inr (0, 100) \<and>
   bs_rpm (bucket_at mem_redis ''google'' ''gemini-2.5-pro'' gemini_limits 0
     (snd (remaining mem_bucket ''google'' ''gemini-2.5-pro'' mem_empty))) = 0"
proof -
  have clk: "tb_now_ms mem_bucket mem_empty = (0, mem_empty)"
    and b: "bucket_refill gemini_limits (of_int 0) (bucket_at (tb_redis mem_bucket) ''google''
      ''gemini-2.5-pro'' gemini_limits (of_int 0) mem_empty) = \<lparr>bs_rpm = 1, bs_tpm = 100, bs_last_ms = 0\<rparr>"
    by code_simp+
  from remaining_takes_a_request [OF mem_buckets.bucket_store_axioms mem_bucket_entries(2) clk
      b [symmetric], of 0]
  show ?thesis by simp
qed

lemma clock_behind_refills_witness:
  "fst (bucket_step gemini_limits (of_int 60000) 100
      (snd (bucket_step gemini_limits (of_int 60000 - 60000) 0
        \<lparr>bs_rpm = 0, bs_tpm = 0, bs_last_ms = 60000\<rparr>)))"
  by (rule clock_behind_refills [OF mem_bucket_ready(2)])
    (simp_all add: bucket_inv_def gemini_limits_def)

end
