(* ===== verification/Breaker.thy ===== *)
theory Breaker
  imports Counters "HOL-Library.Multiset" "HOL-Library.Char_ord" "HOL-Library.List_Lexorder"
begin

text \<open>
  \<open>gateway/breaker.py\<close>: the sliding-window circuit breaker. Outcomes are counted in Redis per
  candidate and second (the contract of the theory \<open>Counters\<close>); each replica keeps a
  snapshot of the states, rebuilt by \<open>refresh_snapshot\<close>. The refresh simulates the state
  machine \<open>breaker_step\<close>.
\<close>

section \<open>State\<close>

datatype breaker_state = CLOSED | HALF_OPEN | OPEN

text \<open>The states in the order of how much they let through.\<close>

fun severity :: "breaker_state \<Rightarrow> int" where
  "severity CLOSED = 0"
| "severity HALF_OPEN = 1"
| "severity OPEN = 2"

lemma severity_inject [simp]: "severity s = severity t \<longleftrightarrow> s = t"
  by (cases s; cases t) simp_all

instantiation breaker_state :: linorder
begin

definition less_eq_breaker_state :: "breaker_state \<Rightarrow> breaker_state \<Rightarrow> bool" where
  "s \<le> t \<longleftrightarrow> severity s \<le> severity t"

definition less_breaker_state :: "breaker_state \<Rightarrow> breaker_state \<Rightarrow> bool" where
  "s < t \<longleftrightarrow> severity s < severity t"

instance
  by standard (auto simp: less_eq_breaker_state_def less_breaker_state_def)

end

record snapshot_entry =
  se_state :: breaker_state
  se_opened_at_s :: rat
  se_samples :: int
  se_failures :: int
  se_half_opened_at_s :: rat

type_synonym cand = "string \<times> string"
type_synonym snapshot = "(cand, snapshot_entry) pydict"

text \<open>The constructor's arguments; the snapshot is the object's one mutable field.\<close>

record 'w breaker_set =
  bk_redis :: "'w redis"
  bk_window_s :: rat
  bk_min_samples :: int
  bk_open_duration_s :: rat
  bk_failure_threshold :: rat
  bk_now_s :: "'w clock"

definition mk_entry :: "breaker_state \<Rightarrow> rat \<Rightarrow> int \<Rightarrow> int \<Rightarrow> rat \<Rightarrow> snapshot_entry" where
  "mk_entry st opened samples failures half =
     \<lparr>se_state = st, se_opened_at_s = opened, se_samples = samples, se_failures = failures,
      se_half_opened_at_s = half\<rparr>"

lemma mk_entry_sel [simp]:
  "se_state (mk_entry st t n k h) = st" "se_opened_at_s (mk_entry st t n k h) = t"
  "se_samples (mk_entry st t n k h) = n" "se_failures (mk_entry st t n k h) = k"
  "se_half_opened_at_s (mk_entry st t n k h) = h"
  by (simp_all add: mk_entry_def)

section \<open>Recording\<close>

definition brk_increment ::
    "'w breaker_set \<Rightarrow> string \<Rightarrow> string \<Rightarrow> string \<Rightarrow> 'w \<Rightarrow> 'w" where
  "brk_increment bs p m field w =
     (let (t, w) = bk_now_s bs w;
          epoch_sec = py_int t;
          key = sample_key p m epoch_sec;
          w = hincrby (bk_redis bs) key field 1 w
      in expire_s (bk_redis bs) key (of_int (py_int (bk_window_s bs) * 4)) w)"

definition brk_record_success :: "'w breaker_set \<Rightarrow> string \<Rightarrow> string \<Rightarrow> 'w \<Rightarrow> 'w" where
  "brk_record_success bs p m w = brk_increment bs p m ''successes'' w"

definition brk_record_failure :: "'w breaker_set \<Rightarrow> string \<Rightarrow> string \<Rightarrow> 'w \<Rightarrow> 'w" where
  "brk_record_failure bs p m w = brk_increment bs p m ''failures'' w"

section \<open>The next state of one candidate\<close>

definition compute_next_state ::
    "'w breaker_set \<Rightarrow> snapshot_entry option \<Rightarrow> int \<Rightarrow> int \<Rightarrow> rat \<Rightarrow> (int \<times> int) option \<Rightarrow>
     snapshot_entry pyres" where
  "compute_next_state bs prev n_samples failures now post_half_open =
     (let cur_state = (case prev of None \<Rightarrow> CLOSED | Some e \<Rightarrow> se_state e);
          opened_at = (case prev of None \<Rightarrow> 0 | Some e \<Rightarrow> se_opened_at_s e);
          half_opened_at = (case prev of None \<Rightarrow> 0 | Some e \<Rightarrow> se_half_opened_at_s e)
      in case cur_state of
           OPEN \<Rightarrow> Inr (mk_entry OPEN opened_at n_samples failures half_opened_at)
         | HALF_OPEN \<Rightarrow>
             (case post_half_open of
                Some (ho_succ, ho_fail) \<Rightarrow>
                  if 0 < ho_fail then Inr (mk_entry OPEN now n_samples failures 0)
                  else if 0 < ho_succ then Inr (mk_entry CLOSED 0 n_samples failures 0)
                  else Inr (mk_entry HALF_OPEN opened_at n_samples failures half_opened_at)
              | None \<Rightarrow> Inr (mk_entry HALF_OPEN opened_at n_samples failures half_opened_at))
         | CLOSED \<Rightarrow>
             if bk_min_samples bs \<le> n_samples
             then rbind (py_div (of_int failures) (of_int n_samples)) (\<lambda>ratio.
                    if bk_failure_threshold bs \<le> ratio
                    then Inr (mk_entry OPEN now n_samples failures 0)
                    else Inr (mk_entry CLOSED 0 n_samples failures 0))
             else Inr (mk_entry CLOSED 0 n_samples failures 0))"

text \<open>\<open>_transition_after_window_into\<close>: entries are replaced in place.\<close>

definition half_open_after :: "'w breaker_set \<Rightarrow> rat \<Rightarrow> snapshot_entry \<Rightarrow> snapshot_entry" where
  "half_open_after bs now e =
     (if se_state e = OPEN \<and> bk_open_duration_s bs \<le> now - se_opened_at_s e
      then mk_entry HALF_OPEN (se_opened_at_s e) (se_samples e) (se_failures e) now
      else e)"

definition transition_after_window :: "'w breaker_set \<Rightarrow> rat \<Rightarrow> snapshot \<Rightarrow> snapshot" where
  "transition_after_window bs now snap = map (\<lambda>(c, e). (c, half_open_after bs now e)) snap"

section \<open>The snapshot\<close>

definition new_entry :: snapshot_entry where
  "new_entry = mk_entry CLOSED 0 0 0 0"

definition seed_snapshot :: "'w breaker_set \<Rightarrow> snapshot \<Rightarrow> 'w \<Rightarrow> snapshot" where
  "seed_snapshot bs snap w =
     fold (\<lambda>key snap.
         case parse_sample_key key of
           None \<Rightarrow> snap
         | Some cand \<Rightarrow> dict_setdefault cand new_entry snap)
       (scan_iter (bk_redis bs) ''gw:brk:*:samples:*'' w) snap"

definition enumerate_sample_keys :: "'w breaker_set \<Rightarrow> snapshot \<Rightarrow> rat \<Rightarrow> (cand \<times> string) list" where
  "enumerate_sample_keys bs snap now =
     concat (map (\<lambda>(c, _).
         map (\<lambda>s. (c, sample_key (fst c) (snd c) s)) [py_int (now - bk_window_s bs)..py_int now])
       snap)"

text \<open>\<open>per_cand.setdefault(cand, []).append(sample_key)\<close> for each pair.\<close>

definition dict_append :: "'k \<Rightarrow> 'v \<Rightarrow> ('k, 'v list) pydict \<Rightarrow> ('k, 'v list) pydict" where
  "dict_append k v d =
     AList.update k ((case map_of d k of None \<Rightarrow> [] | Some vs \<Rightarrow> vs) @ [v]) d"

definition group_keys :: "(cand \<times> string) list \<Rightarrow> (cand, string list) pydict" where
  "group_keys kvs = fold (\<lambda>(c, k). dict_append c k) kvs []"

definition half_open_counts ::
    "'w breaker_set \<Rightarrow> cand \<Rightarrow> snapshot_entry \<Rightarrow> rat \<Rightarrow> 'w \<Rightarrow> int \<times> int" where
  "half_open_counts bs c e now w =
     (let ho_sec = py_int (se_half_opened_at_s e);
          ho_keys = map (sample_key (fst c) (snd c)) [ho_sec..py_int now]
      in (field_sum (bk_redis bs) ho_keys ''successes'' w,
          field_sum (bk_redis bs) ho_keys ''failures'' w))"

definition refresh_candidate ::
    "'w breaker_set \<Rightarrow> snapshot \<Rightarrow> rat \<Rightarrow> 'w \<Rightarrow> cand \<Rightarrow> string list \<Rightarrow> snapshot_entry pyres" where
  "refresh_candidate bs snap now w c sample_keys =
     (let sks = sort sample_keys;
          successes = field_sum (bk_redis bs) sks ''successes'' w;
          failures = field_sum (bk_redis bs) sks ''failures'' w;
          entry = map_of snap c;
          post_half_open =
            (case entry of
               Some e \<Rightarrow> if se_state e = HALF_OPEN then Some (half_open_counts bs c e now w) else None
             | None \<Rightarrow> None)
      in compute_next_state bs entry (successes + failures) failures now post_half_open)"

fun refresh_loop ::
    "'w breaker_set \<Rightarrow> snapshot \<Rightarrow> rat \<Rightarrow> 'w \<Rightarrow> (cand, string list) pydict \<Rightarrow> snapshot \<Rightarrow>
     snapshot pyres" where
  "refresh_loop bs snap now w [] new = Inr new"
| "refresh_loop bs snap now w ((c, ks) # rest) new =
     rbind (refresh_candidate bs snap now w c ks)
       (\<lambda>e. refresh_loop bs snap now w rest (AList.update c e new))"

text \<open>
  \<open>refresh_snapshot\<close>: seeding writes into the live snapshot, everything else into a copy that
  replaces it at the end, so an exception leaves the seeded snapshot.
\<close>

definition refresh_snapshot ::
    "'w breaker_set \<Rightarrow> snapshot \<Rightarrow> 'w \<Rightarrow> unit pyres \<times> snapshot \<times> 'w" where
  "refresh_snapshot bs snap w =
     (let (now, w) = bk_now_s bs w;
          snap = seed_snapshot bs snap w;
          keys_in_window = enumerate_sample_keys bs snap now
      in if keys_in_window = [] then (Inr (), transition_after_window bs now snap, w)
         else (case refresh_loop bs snap now w (group_keys keys_in_window) snap of
                 Inl e \<Rightarrow> (Inl e, snap, w)
               | Inr new \<Rightarrow> (Inr (), transition_after_window bs now new, w)))"

definition breaker_state_of :: "'w breaker_set \<Rightarrow> string \<Rightarrow> string \<Rightarrow> snapshot \<Rightarrow> 'w \<Rightarrow> breaker_state \<times> snapshot"
  where
  "breaker_state_of bs p m snap w =
     (let snap = seed_snapshot bs snap w
      in case map_of snap (p, m) of
           None \<Rightarrow> (CLOSED, snap)
         | Some e \<Rightarrow> (se_state e, snap))"

section \<open>Probes\<close>

definition acquire_probe_lock :: "'w redis \<Rightarrow> string \<Rightarrow> string \<Rightarrow> int \<Rightarrow> 'w \<Rightarrow> bool \<times> 'w" where
  "acquire_probe_lock R probe_key holder ttl_s w = set_nx_ex R probe_key holder (of_int ttl_s) w"

definition try_probe :: "'w breaker_set \<Rightarrow> string \<Rightarrow> string \<Rightarrow> 'w \<Rightarrow> bool \<times> 'w" where
  "try_probe bs p m w =
     (let key = breaker_probe_key p m;
          (t, w) = bk_now_s bs w
      in acquire_probe_lock (bk_redis bs) key (''probe:'' @ str_int (py_int t)) 10 w)"

section \<open>The state machine\<close>

text \<open>
  One refresh of one candidate at time \<open>now\<close>, on \<open>ok\<close> successes and \<open>bad\<close> failures in
  the window and \<open>(hok, hbad)\<close> since the half-open transition.
\<close>

inductive breaker_step ::
    "'w breaker_set \<Rightarrow> rat \<Rightarrow> int \<Rightarrow> int \<Rightarrow> int \<times> int \<Rightarrow> snapshot_entry \<Rightarrow> snapshot_entry \<Rightarrow> bool"
  for bs now ok bad half where
  stay_closed: "se_state e = CLOSED \<Longrightarrow>
      ok + bad < bk_min_samples bs \<or> of_int bad < bk_failure_threshold bs * of_int (ok + bad) \<Longrightarrow>
      breaker_step bs now ok bad half e (mk_entry CLOSED 0 (ok + bad) bad 0)"
| trip: "se_state e = CLOSED \<Longrightarrow> bk_min_samples bs \<le> ok + bad \<Longrightarrow>
      bk_failure_threshold bs * of_int (ok + bad) \<le> of_int bad \<Longrightarrow>
      breaker_step bs now ok bad half e (mk_entry OPEN now (ok + bad) bad 0)"
| hold_open: "se_state e = OPEN \<Longrightarrow> now < se_opened_at_s e + bk_open_duration_s bs \<Longrightarrow>
      breaker_step bs now ok bad half e
        (mk_entry OPEN (se_opened_at_s e) (ok + bad) bad (se_half_opened_at_s e))"
| half_open: "se_state e = OPEN \<Longrightarrow> se_opened_at_s e + bk_open_duration_s bs \<le> now \<Longrightarrow>
      breaker_step bs now ok bad half e
        (mk_entry HALF_OPEN (se_opened_at_s e) (ok + bad) bad now)"
| probe_failed: "se_state e = HALF_OPEN \<Longrightarrow> 0 < snd half \<Longrightarrow>
      breaker_step bs now ok bad half e (mk_entry OPEN now (ok + bad) bad 0)"
| probe_passed: "se_state e = HALF_OPEN \<Longrightarrow> snd half \<le> 0 \<Longrightarrow> 0 < fst half \<Longrightarrow>
      breaker_step bs now ok bad half e (mk_entry CLOSED 0 (ok + bad) bad 0)"
| await_probe: "se_state e = HALF_OPEN \<Longrightarrow> snd half \<le> 0 \<Longrightarrow> fst half \<le> 0 \<Longrightarrow>
      breaker_step bs now ok bad half e
        (mk_entry HALF_OPEN (se_opened_at_s e) (ok + bad) bad (se_half_opened_at_s e))"

inductive_cases breaker_stepE: "breaker_step bs now ok bad half e e'"

definition breaker_ok :: "'w breaker_set \<Rightarrow> bool" where
  "breaker_ok bs \<longleftrightarrow> 1 \<le> bk_window_s bs \<and> 0 < bk_min_samples bs \<and> 0 < bk_open_duration_s bs"

text \<open>A candidate that is not in the snapshot yet is seeded as a closed breaker.\<close>

definition entry_or_new :: "snapshot \<Rightarrow> cand \<Rightarrow> snapshot_entry" where
  "entry_or_new snap c = (case map_of snap c of None \<Rightarrow> new_entry | Some e \<Rightarrow> e)"

text \<open>The next state and the window's end, together, are one step.\<close>

lemma next_state_step:
  assumes "breaker_ok bs"
    and "post = (if se_state e = HALF_OPEN then Some half else None)"
  shows "\<exists>e'. compute_next_state bs (Some e) (ok + bad) bad now post = Inr e' \<and>
    breaker_step bs now ok bad half e (half_open_after bs now e')"
proof (cases "se_state e")
  case CLOSED
  show ?thesis
  proof (cases "bk_min_samples bs \<le> ok + bad")
    case True
    with assms(1) have pos: "0 < rat_of_int (ok + bad)"
      unfolding of_int_0_less_iff breaker_ok_def by linarith
    have "bk_failure_threshold bs \<le> of_int bad / of_int (ok + bad) \<longleftrightarrow>
        bk_failure_threshold bs * of_int (ok + bad) \<le> of_int bad"
      using pos by (simp add: pos_le_divide_eq)
    with CLOSED True pos assms show ?thesis
      using breaker_step.trip [of e bs ok bad now half]
        breaker_step.stay_closed [of e ok bad bs now half]
      by (auto simp: compute_next_state_def half_open_after_def breaker_ok_def
          simp del: of_int_add)
  next
    case False
    with CLOSED assms(2) breaker_step.stay_closed [OF CLOSED, of ok bad bs now half]
    show ?thesis by (auto simp: compute_next_state_def half_open_after_def)
  qed
next
  case OPEN
  show ?thesis
  proof (cases "now < se_opened_at_s e + bk_open_duration_s bs")
    case True
    then have "\<not> bk_open_duration_s bs \<le> now - se_opened_at_s e" by linarith
    with OPEN breaker_step.hold_open [OF OPEN True, of ok bad half] show ?thesis
      by (simp add: compute_next_state_def half_open_after_def)
  next
    case False
    then have "se_opened_at_s e + bk_open_duration_s bs \<le> now"
      "bk_open_duration_s bs \<le> now - se_opened_at_s e" by linarith+
    with OPEN breaker_step.half_open [OF OPEN, of bs now ok bad half] show ?thesis
      by (simp add: compute_next_state_def half_open_after_def)
  qed
next
  case HALF_OPEN
  obtain hok hbad where half: "half = (hok, hbad)" by (cases half)
  with HALF_OPEN assms breaker_step.probe_failed [OF HALF_OPEN, of half bs now ok bad]
    breaker_step.probe_passed [OF HALF_OPEN, of half bs now ok bad]
    breaker_step.await_probe [OF HALF_OPEN, of half bs now ok bad]
  show ?thesis
    by (auto simp: compute_next_state_def half_open_after_def breaker_ok_def)
qed

section \<open>Grouping the sample keys\<close>

lemma update_at_end: "k \<notin> fst ` set d \<Longrightarrow> AList.update k v (d @ [(k, u)]) = d @ [(k, v)]"
  by (induction d) auto

lemma map_of_at_end: "k \<notin> fst ` set d \<Longrightarrow> map_of (d @ [(k, u)]) k = Some u"
  by (induction d) auto

lemma fold_append_block:
  "c \<notin> fst ` set d \<Longrightarrow>
   fold (\<lambda>(c, k). dict_append c k) (map (\<lambda>s. (c, f s)) rng) (d @ [(c, ks)]) =
   d @ [(c, ks @ map f rng)]"
  by (induction rng arbitrary: ks)
    (simp_all add: dict_append_def map_of_at_end update_at_end del: map_of_append)

lemma fold_new_block:
  assumes "c \<notin> fst ` set d" and "rng \<noteq> []"
  shows "fold (\<lambda>(c, k). dict_append c k) (map (\<lambda>s. (c, f s)) rng) d = d @ [(c, map f rng)]"
proof -
  obtain s rng' where rng: "rng = s # rng'" using assms(2) by (cases rng) auto
  have "dict_append c (f s) d = d @ [(c, [f s])]"
    using assms(1) by (simp add: dict_append_def update_new map_of_eq_None_iff [THEN iffD2])
  then show ?thesis using fold_append_block [OF assms(1), of f rng' "[f s]"] by (simp add: rng)
qed

lemma group_blocks:
  "\<lbrakk>distinct (map fst snap); fst ` set snap \<inter> fst ` set d = {}; rng \<noteq> []\<rbrakk> \<Longrightarrow>
   fold (\<lambda>(c, k). dict_append c k)
     (concat (map (\<lambda>(c, _). map (\<lambda>s. (c, f c s)) rng) snap)) d =
   d @ map (\<lambda>(c, _). (c, map (f c) rng)) snap"
proof (induction snap arbitrary: d)
  case Nil
  then show ?case by simp
next
  case (Cons ce snap)
  obtain c e where ce: "ce = (c, e)" by (cases ce)
  from Cons.prems have c: "c \<notin> fst ` set d" by (auto simp: ce)
  have "fst ` set snap \<inter> fst ` set (d @ [(c, map (f c) rng)]) = {}"
    using Cons.prems by (auto simp: ce)
  with Cons c show ?case by (simp add: ce fold_new_block)
qed

lemma group_keys_enumerate:
  assumes "distinct (map fst snap)" and "py_int (now - bk_window_s bs) \<le> py_int now"
  shows "group_keys (enumerate_sample_keys bs snap now) =
    map (\<lambda>(c, _). (c, map (sample_key (fst c) (snd c))
      [py_int (now - bk_window_s bs)..py_int now])) snap"
  using group_blocks [OF assms(1), of "[]" "[py_int (now - bk_window_s bs)..py_int now]"
      "\<lambda>c. sample_key (fst c) (snd c)"] assms(2)
  by (simp add: group_keys_def enumerate_sample_keys_def)

lemma field_sum_sort: "field_sum R (sort ks) f w = field_sum R ks f w"
  unfolding field_sum_def
  by (metis mset_map mset_sort sum_mset_sum_list)

section \<open>The refresh loop\<close>

lemma refresh_loop_all:
  "\<lbrakk>distinct (map fst kss); \<And>c ks. (c, ks) \<in> set kss \<Longrightarrow> refresh_candidate bs snap now w c ks = Inr (nx c)\<rbrakk>
   \<Longrightarrow> \<exists>new'. refresh_loop bs snap now w kss new = Inr new' \<and>
     map_of new' = (\<lambda>c. if c \<in> fst ` set kss then Some (nx c) else map_of new c) \<and>
     (distinct (map fst new) \<longrightarrow> distinct (map fst new'))"
proof (induction kss arbitrary: new)
  case Nil
  then show ?case by simp
next
  case (Cons ck kss)
  obtain c ks where ck: "ck = (c, ks)" by (cases ck)
  from Cons.IH [of "AList.update c (nx c) new"] Cons.prems
  obtain new' where new': "refresh_loop bs snap now w kss (AList.update c (nx c) new) = Inr new'"
    "map_of new' = (\<lambda>c'. if c' \<in> fst ` set kss then Some (nx c')
      else map_of (AList.update c (nx c) new) c')"
    "distinct (map fst (AList.update c (nx c) new)) \<longrightarrow> distinct (map fst new')"
    by (auto simp: ck)
  have "map_of new' = (\<lambda>c'. if c' \<in> fst ` set (ck # kss) then Some (nx c') else map_of new c')"
    using Cons.prems(1) by (auto simp: new'(2) ck fun_eq_iff)
  with new' Cons.prems(2) show ?case by (simp add: ck distinct_update)
qed

text \<open>Seeding keeps what is there and never makes a key twice.\<close>

definition seed_key :: "string \<Rightarrow> snapshot \<Rightarrow> snapshot" where
  "seed_key key snap =
     (case parse_sample_key key of None \<Rightarrow> snap | Some c \<Rightarrow> dict_setdefault c new_entry snap)"

lemma seed_snapshot_fold:
  "seed_snapshot bs snap w = fold seed_key (scan_iter (bk_redis bs) ''gw:brk:*:samples:*'' w) snap"
  unfolding seed_snapshot_def seed_key_def ..

lemma map_of_seed_key:
  "map_of (seed_key key snap) c =
     (if parse_sample_key key = Some c \<and> map_of snap c = None then Some new_entry else map_of snap c)"
  by (auto simp: seed_key_def split: option.split)

lemma map_of_seed:
  "map_of (fold seed_key ks snap) c =
     (if map_of snap c = None \<and> (\<exists>k \<in> set ks. parse_sample_key k = Some c)
      then Some new_entry else map_of snap c)"
  by (induction ks arbitrary: snap) (auto simp: map_of_seed_key)

lemma distinct_seed_snapshot:
  "distinct (map fst snap) \<Longrightarrow> distinct (map fst (seed_snapshot bs snap w))"
proof -
  have step: "distinct (map fst (seed_key k snap)) = distinct (map fst snap)" for k snap
    by (simp add: seed_key_def split: option.split)
  have "distinct (map fst (fold seed_key ks snap)) = distinct (map fst snap)" for ks
    by (induction ks arbitrary: snap) (simp_all add: step)
  then show "distinct (map fst snap) \<Longrightarrow> ?thesis" by (simp add: seed_snapshot_fold)
qed

lemma seeded_entry: "map_of (seed_snapshot bs snap w) c = Some e \<Longrightarrow> e = entry_or_new snap c"
  by (auto simp: seed_snapshot_fold map_of_seed entry_or_new_def split: if_splits option.splits)

lemma seed_keeps: "map_of snap c = Some e \<Longrightarrow> map_of (seed_snapshot bs snap w) c = Some e"
  by (simp add: seed_snapshot_fold map_of_seed)

section \<open>A refresh is one step of every breaker\<close>

definition window_counts :: "'w breaker_set \<Rightarrow> rat \<Rightarrow> cand \<Rightarrow> 'w \<Rightarrow> int \<times> int" where
  "window_counts bs now c w =
     (let ks = map (sample_key (fst c) (snd c)) [py_int (now - bk_window_s bs)..py_int now]
      in (field_sum (bk_redis bs) ks ''successes'' w, field_sum (bk_redis bs) ks ''failures'' w))"

lemma py_int_mono': "x \<le> y \<Longrightarrow> py_int x \<le> py_int y"
proof -
  assume le: "x \<le> y"
  have "\<lceil>x\<rceil> \<le> \<lfloor>y\<rfloor>" if "\<not> 0 \<le> x" "0 \<le> y"
  proof -
    from that have "\<lceil>x\<rceil> \<le> 0" "0 \<le> \<lfloor>y\<rfloor>" by simp_all
    then show ?thesis by linarith
  qed
  with le show ?thesis by (simp add: py_int_def floor_mono ceiling_mono)
qed

lemma refresh_candidate_step:
  assumes "breaker_ok bs" and "map_of snap c = Some e"
    and "ks = map (sample_key (fst c) (snd c)) [py_int (now - bk_window_s bs)..py_int now]"
  shows "\<exists>e'. refresh_candidate bs snap now w c ks = Inr e' \<and>
    breaker_step bs now (fst (window_counts bs now c w)) (snd (window_counts bs now c w))
      (half_open_counts bs c e now w) e (half_open_after bs now e')"
  using next_state_step [where e = e and half = "half_open_counts bs c e now w"
      and ok = "fst (window_counts bs now c w)" and bad = "snd (window_counts bs now c w)"
      and now = now, OF assms(1) refl]
  by (simp add: refresh_candidate_def assms(2,3) field_sum_sort window_counts_def Let_def)

lemma refresh_snapshot_steps:
  assumes ok: "breaker_ok bs" and dist: "distinct (map fst snap)"
    and clk: "bk_now_s bs w = (now, w1)"
  shows "\<exists>snap'. refresh_snapshot bs snap w = (Inr (), snap', w1) \<and> distinct (map fst snap') \<and>
    dom (map_of snap') = dom (map_of (seed_snapshot bs snap w1)) \<and>
    (\<forall>c e'. map_of snap' c = Some e' \<longrightarrow>
      breaker_step bs now (fst (window_counts bs now c w1)) (snd (window_counts bs now c w1))
        (half_open_counts bs c (entry_or_new snap c) now w1) (entry_or_new snap c) e')"
proof -
  let ?s = "seed_snapshot bs snap w1"
  let ?rng = "[py_int (now - bk_window_s bs)..py_int now]"
  let ?kss = "map (\<lambda>(c, _). (c, map (sample_key (fst c) (snd c)) ?rng)) ?s"
  have rng: "py_int (now - bk_window_s bs) \<le> py_int now"
    using ok by (intro py_int_mono') (simp add: breaker_ok_def)
  have dist': "distinct (map fst ?s)" using dist by (rule distinct_seed_snapshot)
  have group: "group_keys (enumerate_sample_keys bs ?s now) = ?kss"
    using dist' rng by (rule group_keys_enumerate)
  have kss_keys: "map fst ?kss = map fst ?s" by (induction ?s) auto
  define nx where "nx = (\<lambda>c. case refresh_candidate bs ?s now w1 c
      (map (sample_key (fst c) (snd c)) ?rng) of Inr e' \<Rightarrow> e' | Inl _ \<Rightarrow> new_entry)"
  have step: "refresh_candidate bs ?s now w1 c (map (sample_key (fst c) (snd c)) ?rng) = Inr (nx c) \<and>
      breaker_step bs now (fst (window_counts bs now c w1)) (snd (window_counts bs now c w1))
        (half_open_counts bs c (entry_or_new snap c) now w1) (entry_or_new snap c)
        (half_open_after bs now (nx c))"
    if "c \<in> dom (map_of ?s)" for c
  proof -
    from that have "map_of ?s c = Some (entry_or_new snap c)"
      using seeded_entry by fastforce
    from refresh_candidate_step [OF ok this refl, of now w1] show ?thesis
      unfolding nx_def by force
  qed
  obtain new' where new': "refresh_loop bs ?s now w1 ?kss ?s = Inr new'"
    "map_of new' = (\<lambda>c. if c \<in> fst ` set ?kss then Some (nx c) else map_of ?s c)"
    "distinct (map fst new')"
  proof -
    have "refresh_candidate bs ?s now w1 c ks = Inr (nx c)" if "(c, ks) \<in> set ?kss" for c ks
    proof -
      from that have "c \<in> fst ` set ?s" and ks: "ks = map (sample_key (fst c) (snd c)) ?rng"
        by force+
      then have "c \<in> dom (map_of ?s)" by (simp add: dom_map_of_conv_image_fst)
      with step ks show ?thesis by blast
    qed
    moreover have "distinct (map fst ?kss)" unfolding kss_keys by (rule dist')
    ultimately obtain new' where "refresh_loop bs ?s now w1 ?kss ?s = Inr new' \<and>
        map_of new' = (\<lambda>c. if c \<in> fst ` set ?kss then Some (nx c) else map_of ?s c) \<and>
        (distinct (map fst ?s) \<longrightarrow> distinct (map fst new'))"
      using refresh_loop_all [where new = ?s and kss = ?kss and bs = bs and snap = ?s
          and now = now and w = w1 and nx = nx] by presburger
    with dist' that [of new'] show thesis by blast
  qed
  have keys: "fst ` set ?kss = dom (map_of ?s)"
    using arg_cong [OF kss_keys, of set]
    unfolding list.set_map [symmetric] dom_map_of_conv_image_fst .
  have map: "map_of (transition_after_window bs now new') =
      (\<lambda>c. if c \<in> dom (map_of ?s) then Some (half_open_after bs now (nx c)) else None)"
    unfolding transition_after_window_def map_of_map new'(2) keys
    by (auto simp: fun_eq_iff domIff)
  have refr: "refresh_snapshot bs snap w = (Inr (), transition_after_window bs now new', w1)"
  proof (cases "enumerate_sample_keys bs ?s now = []")
    case True
    then have "?s = []"
      using rng by (cases ?s) (auto simp: enumerate_sample_keys_def split_beta)
    with new'(1) True show ?thesis by (simp add: refresh_snapshot_def clk Let_def)
  next
    case False
    then show ?thesis by (simp add: refresh_snapshot_def clk Let_def group new'(1))
  qed
  have "map fst (transition_after_window bs now new') = map fst new'"
    by (simp add: transition_after_window_def split_beta)
  with new'(3) have "distinct (map fst (transition_after_window bs now new'))" by simp
  moreover have "dom (map_of (transition_after_window bs now new')) = dom (map_of ?s)"
    unfolding map by (auto simp: domIff split: if_splits)
  moreover have "breaker_step bs now (fst (window_counts bs now c w1)) (snd (window_counts bs now c w1))
      (half_open_counts bs c (entry_or_new snap c) now w1) (entry_or_new snap c) e'"
    if "map_of (transition_after_window bs now new') c = Some e'" for c e'
    using that step [of c] unfolding map by (simp split: if_splits)
  ultimately show ?thesis using refr by blast
qed

section \<open>Histories\<close>

datatype brk_event = Brk_ok string string | Brk_bad string string | Brk_wait rat | Brk_refresh

type_synonym brk_log = "(cand \<times> int \<times> bool) list"

text \<open>
  Outcomes, pauses and refreshes of one replica in any order, with a record of the outcomes
  and their seconds.
\<close>

fun brk_run ::
    "'w breaker_set \<Rightarrow> (rat \<Rightarrow> 'w \<Rightarrow> 'w) \<Rightarrow> brk_event list \<Rightarrow> snapshot \<times> 'w \<times> brk_log \<Rightarrow>
     snapshot \<times> 'w \<times> brk_log" where
  "brk_run bs pass [] st = st"
| "brk_run bs pass (Brk_ok p m # es) (snap, w, lg) =
     brk_run bs pass es
       (snap, brk_record_success bs p m w, lg @ [((p, m), py_int (fst (bk_now_s bs w)), True)])"
| "brk_run bs pass (Brk_bad p m # es) (snap, w, lg) =
     brk_run bs pass es
       (snap, brk_record_failure bs p m w, lg @ [((p, m), py_int (fst (bk_now_s bs w)), False)])"
| "brk_run bs pass (Brk_wait d # es) (snap, w, lg) = brk_run bs pass es (snap, pass d w, lg)"
| "brk_run bs pass (Brk_refresh # es) (snap, w, lg) =
     brk_run bs pass es (fst (snd (refresh_snapshot bs snap w)), snd (snd (refresh_snapshot bs snap w)), lg)"

lemma brk_run_append: "brk_run bs pass (es @ es') st = brk_run bs pass es' (brk_run bs pass es st)"
  by (induction bs pass es st rule: brk_run.induct) simp_all

fun brk_event_ok :: "brk_event \<Rightarrow> bool" where
  "brk_event_ok (Brk_ok p m) \<longleftrightarrow> CHR '':'' \<notin> set p"
| "brk_event_ok (Brk_bad p m) \<longleftrightarrow> CHR '':'' \<notin> set p"
| "brk_event_ok (Brk_wait d) \<longleftrightarrow> 0 \<le> d"
| "brk_event_ok Brk_refresh \<longleftrightarrow> True"

definition brk_count :: "bool \<Rightarrow> cand \<Rightarrow> int \<Rightarrow> int \<Rightarrow> brk_log \<Rightarrow> int" where
  "brk_count ok c lo hi lg =
     int (length (filter (\<lambda>(c', s, ok'). c' = c \<and> lo \<le> s \<and> s \<le> hi \<and> ok' = ok) lg))"

definition brk_bumps :: "brk_log \<Rightarrow> cand bump_log" where
  "brk_bumps lg = map (\<lambda>(c, s, ok). (c, s, [(if ok then ''successes'' else ''failures'', 1)])) lg"

lemma brk_bumps_simps [simp]:
  "brk_bumps [] = []"
  "brk_bumps (lg @ [(c, s, ok)]) =
     brk_bumps lg @ [(c, s, [(if ok then ''successes'' else ''failures'', 1)])]"
  by (simp_all add: brk_bumps_def)

lemma brk_bumps_count:
  "sum_list (map (\<lambda>(c', s', fns). if c' = c \<and> lo \<le> s' \<and> s' \<le> hi then amount fns ''successes'' else 0)
     (brk_bumps lg)) = brk_count True c lo hi lg"
  "sum_list (map (\<lambda>(c', s', fns). if c' = c \<and> lo \<le> s' \<and> s' \<le> hi then amount fns ''failures'' else 0)
     (brk_bumps lg)) = brk_count False c lo hi lg"
  by (induction lg) (auto simp: brk_bumps_def brk_count_def split: if_splits)

lemma py_int_lower: "x - 1 < of_int (py_int x)"
  unfolding py_int_def by (simp split: if_split) linarith

locale breaker_store = redis_time "bk_redis bs" pass clk ttl
  for bs :: "'w breaker_set" and pass clk ttl +
  assumes clock_reads: "bk_now_s bs w = (clk w, w)"
    and settings: "breaker_ok bs"

lemma window_second: "1 \<le> (W :: rat) \<Longrightarrow> W + 1 \<le> of_int (\<lfloor>W\<rfloor> * 4)"
proof -
  assume "1 \<le> W"
  then have "1 \<le> rat_of_int \<lfloor>W\<rfloor>" by (metis le_floor_iff of_int_1 of_int_1_le_iff)
  moreover have "W < of_int \<lfloor>W\<rfloor> + 1" by linarith
  ultimately have "W + 1 \<le> rat_of_int \<lfloor>W\<rfloor> * 4" by linarith
  then show ?thesis by simp
qed

sublocale breaker_store \<subseteq> second_counters "bk_redis bs" pass clk ttl
  "\<lambda>c :: cand. sample_key (fst c) (snd c)"
  "\<lambda>c. CHR '':'' \<notin> set (fst c)"
  "bk_window_s bs" "of_int (\<lfloor>bk_window_s bs\<rfloor> * 4)"
proof unfold_locales
  show "sample_key (fst c) (snd c) s = sample_key (fst c') (snd c') s' \<longleftrightarrow> c = c' \<and> s = s'"
    if "CHR '':'' \<notin> set (fst c)" "CHR '':'' \<notin> set (fst c')" for c c' :: cand and s s'
    using sample_key_inject [OF that, of "snd c" s "snd c'" s'] by (cases c; cases c') auto
qed (use settings window_second in \<open>auto simp: breaker_ok_def\<close>)

context breaker_store
begin

lemma increment_bumps:
  "0 \<le> clk w \<Longrightarrow> brk_increment bs p m f w =
     counter_bump (bk_redis bs) (sample_key p m \<lfloor>clk w\<rfloor>) (of_int (\<lfloor>bk_window_s bs\<rfloor> * 4)) [(f, 1)] w"
  using settings
  by (simp add: brk_increment_def clock_reads counter_bump_def breaker_ok_def Let_def)

lemma refresh_steps:
  assumes "distinct (map fst snap)"
  obtains snap' where "refresh_snapshot bs snap w = (Inr (), snap', w)" "distinct (map fst snap')"
    "dom (map_of snap') = dom (map_of (seed_snapshot bs snap w))"
    "\<And>c e'. map_of snap' c = Some e' \<Longrightarrow>
      breaker_step bs (clk w) (fst (window_counts bs (clk w) c w)) (snd (window_counts bs (clk w) c w))
        (half_open_counts bs c (entry_or_new snap c) (clk w) w) (entry_or_new snap c) e'"
  using refresh_snapshot_steps [OF settings assms clock_reads] by blast

lemma run_tracks:
  "\<lbrakk>brk_run bs pass es (snap, w, lg) = (snap', w', lg'); list_all brk_event_ok es; 0 \<le> clk w;
    distinct (map fst snap); tracks w (brk_bumps lg)\<rbrakk> \<Longrightarrow>
   tracks w' (brk_bumps lg') \<and> clk w \<le> clk w' \<and> distinct (map fst snap')"
proof (induction es arbitrary: snap w lg)
  case (Cons e es)
  show ?case
  proof (cases e)
    case (Brk_ok p m)
    let ?w = "brk_record_success bs p m w"
    have "tracks ?w (brk_bumps (lg @ [((p, m), \<lfloor>clk w\<rfloor>, True)]))" "clk ?w = clk w"
      using Cons.prems(2,3) tracks_bump [OF Cons.prems(5), of "(p, m)"]
      by (simp_all add: Brk_ok brk_record_success_def increment_bumps del: of_int_mult)
    then show ?thesis
      using Cons.IH [of snap ?w] Cons.prems by (simp add: Brk_ok clock_reads)
  next
    case (Brk_bad p m)
    let ?w = "brk_record_failure bs p m w"
    have "tracks ?w (brk_bumps (lg @ [((p, m), \<lfloor>clk w\<rfloor>, False)]))" "clk ?w = clk w"
      using Cons.prems(2,3) tracks_bump [OF Cons.prems(5), of "(p, m)"]
      by (simp_all add: Brk_bad brk_record_failure_def increment_bumps del: of_int_mult)
    then show ?thesis
      using Cons.IH [of snap ?w] Cons.prems by (simp add: Brk_bad clock_reads)
  next
    case (Brk_wait d)
    with Cons.prems Cons.IH [of snap "pass d w" lg] show ?thesis
      by (simp add: tracks_pass clk_pass)
  next
    case Brk_refresh
    obtain s1 where "refresh_snapshot bs snap w = (Inr (), s1, w)" "distinct (map fst s1)"
      using refresh_steps [OF Cons.prems(4), of w] by metis
    with Cons.prems Cons.IH [of s1 w lg] show ?thesis by (simp add: Brk_refresh)
  qed
qed simp

text \<open>What the refresh reads is what the history says.\<close>

lemma window_counts_log:
  assumes "tracks w (brk_bumps lg)" and "CHR '':'' \<notin> set (fst c)" and "0 \<le> clk w"
  shows "window_counts bs (clk w) c w =
    (brk_count True c (py_int (clk w - bk_window_s bs)) \<lfloor>clk w\<rfloor> lg,
     brk_count False c (py_int (clk w - bk_window_s bs)) \<lfloor>clk w\<rfloor> lg)"
proof -
  have "in_window w (py_int (clk w - bk_window_s bs))"
    using py_int_lower [of "clk w - bk_window_s bs"] unfolding in_window_def by linarith
  note sums = tracks_sum [OF assms(1,2) this, of "\<lfloor>clk w\<rfloor>", unfolded sum_logged]
  show ?thesis using assms(3) by (simp add: window_counts_def sums brk_bumps_count Let_def)
qed

lemma half_open_counts_log:
  assumes "tracks w (brk_bumps lg)" and "CHR '':'' \<notin> set (fst c)" and "0 \<le> clk w"
    and "0 \<le> se_half_opened_at_s e" and "clk w \<le> se_half_opened_at_s e + bk_window_s bs"
  shows "half_open_counts bs c e (clk w) w =
    (brk_count True c \<lfloor>se_half_opened_at_s e\<rfloor> \<lfloor>clk w\<rfloor> lg,
     brk_count False c \<lfloor>se_half_opened_at_s e\<rfloor> \<lfloor>clk w\<rfloor> lg)"
proof -
  have "in_window w \<lfloor>se_half_opened_at_s e\<rfloor>"
    using assms(5) unfolding in_window_def by linarith
  note sums = tracks_sum [OF assms(1,2) this, of "\<lfloor>clk w\<rfloor>", unfolded sum_logged]
  show ?thesis using assms(3,4) by (simp add: half_open_counts_def sums brk_bumps_count Let_def)
qed

text \<open>An open breaker stays open, with its opening time, until its time is over.\<close>

lemma open_held:
  "\<lbrakk>brk_run bs pass es (snap, w, lg) = (snap', w', lg'); list_all brk_event_ok es; 0 \<le> clk w;
    distinct (map fst snap); tracks w (brk_bumps lg); map_of snap c = Some e; se_state e = OPEN;
    clk w' < se_opened_at_s e + bk_open_duration_s bs\<rbrakk> \<Longrightarrow>
   \<exists>e'. map_of snap' c = Some e' \<and> se_state e' = OPEN \<and> se_opened_at_s e' = se_opened_at_s e"
proof (induction es arbitrary: snap w lg e)
  case (Cons ev es)
  show ?case
  proof (cases "ev = Brk_refresh")
    case True
    obtain s1 where s1: "refresh_snapshot bs snap w = (Inr (), s1, w)" "distinct (map fst s1)"
      "dom (map_of s1) = dom (map_of (seed_snapshot bs snap w))"
      "\<And>c e'. map_of s1 c = Some e' \<Longrightarrow>
        breaker_step bs (clk w) (fst (window_counts bs (clk w) c w)) (snd (window_counts bs (clk w) c w))
          (half_open_counts bs c (entry_or_new snap c) (clk w) w) (entry_or_new snap c) e'"
      using refresh_steps [OF Cons.prems(4), of w] by metis
    have run: "brk_run bs pass es (s1, w, lg) = (snap', w', lg')"
      using Cons.prems(1) by (simp add: True s1(1))
    have "c \<in> dom (map_of s1)"
      unfolding s1(3) using seed_keeps [OF Cons.prems(6), of bs w] by (simp add: domIff)
    then obtain e1 where e1: "map_of s1 c = Some e1" by blast
    have "clk w \<le> clk w'"
      using run_tracks [OF run _ Cons.prems(3) s1(2) Cons.prems(5)] Cons.prems(2) by simp
    with s1(4) [OF e1] Cons.prems(6-8)
    have "se_state e1 = OPEN \<and> se_opened_at_s e1 = se_opened_at_s e"
      by (auto simp: entry_or_new_def elim!: breaker_stepE)
    with Cons.IH [OF run _ Cons.prems(3) s1(2) Cons.prems(5) e1] Cons.prems(2,8)
    show ?thesis by simp
  next
    case False
    obtain w1 lg1 where step: "brk_run bs pass [ev] (snap, w, lg) = (snap, w1, lg1)"
      using False by (cases ev) auto
    have ok: "list_all brk_event_ok [ev]" "list_all brk_event_ok es"
      using Cons.prems(2) by simp_all
    have "brk_run bs pass es (snap, w1, lg1) = (snap', w', lg')"
      using Cons.prems(1) step False by (cases ev) auto
    with Cons.IH [OF this ok(2)] run_tracks [OF step ok(1) Cons.prems(3-5)] Cons.prems(3,4,6-8)
    show ?thesis by simp
  qed
qed simp

end

lemma breaker_step_half_irrelevant:
  "breaker_step bs now ok bad half e e' \<Longrightarrow> se_state e \<noteq> HALF_OPEN \<Longrightarrow>
   breaker_step bs now ok bad half' e e'"
  by (erule breaker_stepE) (auto intro: breaker_step.intros)

text \<open>The times in a snapshot are times of the clock.\<close>

definition snapshot_times :: "snapshot \<Rightarrow> bool" where
  "snapshot_times snap \<longleftrightarrow> (\<forall>c e. map_of snap c = Some e \<longrightarrow> 0 \<le> se_half_opened_at_s e)"

lemma snapshot_times_new: "snapshot_times snap \<Longrightarrow> 0 \<le> se_half_opened_at_s (entry_or_new snap c)"
  unfolding snapshot_times_def entry_or_new_def
  by (cases "map_of snap c") (simp_all add: new_entry_def del: split_paired_All)

lemma breaker_step_times:
  "breaker_step bs now ok bad half e e' \<Longrightarrow> 0 \<le> now \<Longrightarrow> 0 \<le> se_half_opened_at_s e \<Longrightarrow>
   0 \<le> se_half_opened_at_s e'"
  by (erule breaker_stepE) auto

context breaker_store
begin

lemma refresh_times:
  assumes "distinct (map fst snap)" and "snapshot_times snap" and "0 \<le> clk w"
    and "refresh_snapshot bs snap w = (res, snap', w')"
  shows "snapshot_times snap'"
proof -
  obtain s1 where "refresh_snapshot bs snap w = (Inr (), s1, w)"
    "\<And>c e'. map_of s1 c = Some e' \<Longrightarrow>
      breaker_step bs (clk w) (fst (window_counts bs (clk w) c w)) (snd (window_counts bs (clk w) c w))
        (half_open_counts bs c (entry_or_new snap c) (clk w) w) (entry_or_new snap c) e'"
    using refresh_steps [OF assms(1), of w] by metis
  with assms show ?thesis
    using breaker_step_times snapshot_times_new [OF assms(2)]
    by (simp add: snapshot_times_def) blast
qed

lemma run_times:
  "\<lbrakk>brk_run bs pass es (snap, w, lg) = (snap', w', lg'); list_all brk_event_ok es; 0 \<le> clk w;
    distinct (map fst snap); tracks w (brk_bumps lg); snapshot_times snap\<rbrakk> \<Longrightarrow>
   snapshot_times snap'"
proof (induction es arbitrary: snap w lg)
  case (Cons ev es)
  obtain s1 w1 lg1 where step: "brk_run bs pass [ev] (snap, w, lg) = (s1, w1, lg1)"
    by (metis prod_cases3)
  have ok: "list_all brk_event_ok [ev]" "list_all brk_event_ok es"
    using Cons.prems(2) by simp_all
  have "brk_run bs pass es (s1, w1, lg1) = (snap', w', lg')"
    using Cons.prems(1) step by (cases ev) auto
  moreover have "snapshot_times s1"
  proof (cases "ev = Brk_refresh")
    case True
    then show ?thesis
      using step refresh_times [OF Cons.prems(4,6,3), of "fst (refresh_snapshot bs snap w)" s1 w1]
      by (metis brk_run.simps(1,5) prod.collapse prod.inject)
  next
    case False
    then have "s1 = snap" using step by (cases ev) auto
    with Cons.prems(6) show ?thesis by simp
  qed
  ultimately show ?case
    using Cons.IH ok(2) run_tracks [OF step ok(1) Cons.prems(3-5)] Cons.prems(3) by fastforce
qed simp

lemma empty_tracks: "(\<And>k f. hmget (bk_redis bs) k f w = None) \<Longrightarrow> tracks w (brk_bumps [])"
  using tracks_init [of w] by simp

text \<open>A refresh of a snapshot with a history, in terms of the history.\<close>

lemma refresh_tracked:
  assumes tr: "tracks w' (brk_bumps lg)" "0 \<le> clk w'" "distinct (map fst snap)" "snapshot_times snap"
    and c: "CHR '':'' \<notin> set (fst c)"
    and refr: "refresh_snapshot bs snap w' = (res, snap', w'')"
    and half: "se_state (entry_or_new snap c) = HALF_OPEN \<Longrightarrow>
      clk w' \<le> se_half_opened_at_s (entry_or_new snap c) + bk_window_s bs"
  shows "res = Inr () \<and> w'' = w' \<and>
    dom (map_of snap') = dom (map_of (seed_snapshot bs snap w')) \<and>
    (\<forall>e'. map_of snap' c = Some e' \<longrightarrow>
      breaker_step bs (clk w')
        (brk_count True c (py_int (clk w' - bk_window_s bs)) \<lfloor>clk w'\<rfloor> lg)
        (brk_count False c (py_int (clk w' - bk_window_s bs)) \<lfloor>clk w'\<rfloor> lg)
        (brk_count True c \<lfloor>se_half_opened_at_s (entry_or_new snap c)\<rfloor> \<lfloor>clk w'\<rfloor> lg,
         brk_count False c \<lfloor>se_half_opened_at_s (entry_or_new snap c)\<rfloor> \<lfloor>clk w'\<rfloor> lg)
        (entry_or_new snap c) e')"
proof -
  note times = snapshot_times_new [OF tr(4), of c]
  obtain s1 where s1: "refresh_snapshot bs snap w' = (Inr (), s1, w')"
    "dom (map_of s1) = dom (map_of (seed_snapshot bs snap w'))"
    "\<And>c e'. map_of s1 c = Some e' \<Longrightarrow>
      breaker_step bs (clk w') (fst (window_counts bs (clk w') c w')) (snd (window_counts bs (clk w') c w'))
        (half_open_counts bs c (entry_or_new snap c) (clk w') w') (entry_or_new snap c) e'"
    using refresh_steps [OF tr(3), of w'] by metis
  note wc = window_counts_log [OF tr(1) c tr(2)]
  have "breaker_step bs (clk w') (fst (window_counts bs (clk w') c w')) (snd (window_counts bs (clk w') c w'))
      (brk_count True c \<lfloor>se_half_opened_at_s (entry_or_new snap c)\<rfloor> \<lfloor>clk w'\<rfloor> lg,
       brk_count False c \<lfloor>se_half_opened_at_s (entry_or_new snap c)\<rfloor> \<lfloor>clk w'\<rfloor> lg)
      (entry_or_new snap c) e'" if "map_of s1 c = Some e'" for e'
  proof (cases "se_state (entry_or_new snap c) = HALF_OPEN")
    case True
    from s1(3) [OF that] half_open_counts_log [OF tr(1) c tr(2) times half [OF True]]
    show ?thesis by simp
  next
    case False
    with s1(3) [OF that] show ?thesis by (rule breaker_step_half_irrelevant)
  qed
  with s1(1,2) refr show ?thesis by (auto simp: wc)
qed

text \<open>A refresh after any history, in terms of the history.\<close>

lemma refresh_log:
  assumes run: "brk_run bs pass es ([], w, []) = (snap, w', lg)" and es: "list_all brk_event_ok es"
    and clk: "0 \<le> clk w" and empty: "\<And>k f. hmget (bk_redis bs) k f w = None"
    and c: "CHR '':'' \<notin> set (fst c)"
    and refr: "refresh_snapshot bs snap w' = (res, snap', w'')"
    and half: "se_state (entry_or_new snap c) = HALF_OPEN \<Longrightarrow>
      clk w' \<le> se_half_opened_at_s (entry_or_new snap c) + bk_window_s bs"
  shows "res = Inr () \<and> w'' = w' \<and> tracks w' (brk_bumps lg) \<and> 0 \<le> clk w' \<and>
    dom (map_of snap') = dom (map_of (seed_snapshot bs snap w')) \<and>
    (\<forall>e'. map_of snap' c = Some e' \<longrightarrow>
      breaker_step bs (clk w')
        (brk_count True c (py_int (clk w' - bk_window_s bs)) \<lfloor>clk w'\<rfloor> lg)
        (brk_count False c (py_int (clk w' - bk_window_s bs)) \<lfloor>clk w'\<rfloor> lg)
        (brk_count True c \<lfloor>se_half_opened_at_s (entry_or_new snap c)\<rfloor> \<lfloor>clk w'\<rfloor> lg,
         brk_count False c \<lfloor>se_half_opened_at_s (entry_or_new snap c)\<rfloor> \<lfloor>clk w'\<rfloor> lg)
        (entry_or_new snap c) e')"
proof -
  have init: "tracks w (brk_bumps [])" "distinct (map fst [])" "snapshot_times []"
    using tracks_init [of w] empty by (simp_all add: snapshot_times_def)
  have tr: "tracks w' (brk_bumps lg)" "0 \<le> clk w'" "distinct (map fst snap)"
    using run_tracks [OF run es clk init(2,1)] clk by auto
  from refresh_tracked [OF tr run_times [OF run es clk init(2,1,3)] c refr half] tr(1,2)
  show ?thesis by blast
qed

end

section \<open>Sample keys are found\<close>

lemma glob_sample_key: "glob ''gw:brk:*:samples:*'' (sample_key p m sec)"
proof -
  have "glob ''*'' (str_int sec)" using glob_star [of "[]" "[]" "str_int sec"] by simp
  then have "glob ''*:samples:*'' ((p @ '':'' @ m) @ '':samples:'' @ str_int sec)"
    by (intro glob_star) simp
  then show ?thesis by (simp add: sample_key_def)
qed

lemma brk_count_in_window:
  assumes "0 < brk_count ok c lo hi lg"
  shows "\<exists>s. lo \<le> s \<and> s \<le> hi \<and>
    0 < logged (brk_bumps lg) c s (if ok then ''successes'' else ''failures'')"
proof -
  let ?f = "if ok then ''successes'' else ''failures''"
  have nonneg: "0 \<le> logged (brk_bumps lg) c s ?f" for s
    unfolding logged_def brk_bumps_def by (rule sum_list_nonneg) (auto split: if_splits)
  have "(\<Sum>s\<leftarrow>[lo..hi]. logged (brk_bumps lg) c s ?f) = brk_count ok c lo hi lg"
    using brk_bumps_count by (simp add: sum_logged)
  with assms have "\<not> (\<forall>s \<in> set [lo..hi]. logged (brk_bumps lg) c s ?f = 0)"
    by (metis (mono_tags, lifting) less_irrefl map_eq_conv sum_list_0)
  with nonneg show ?thesis by (force simp: order_less_le)
qed

context breaker_store
begin

lemma sampled_is_seeded:
  assumes "redis_scan (bk_redis bs)" and "tracks w (brk_bumps lg)" and p: "CHR '':'' \<notin> set p"
    and m: "cut '':samples:'' (p @ '':'' @ m @ '':samples'') = None"
    and "0 < brk_count ok (p, m) (py_int (clk w - bk_window_s bs)) hi lg"
  shows "(p, m) \<in> dom (map_of (seed_snapshot bs snap w))"
proof -
  let ?f = "if ok then ''successes'' else ''failures''"
  obtain s where s: "py_int (clk w - bk_window_s bs) \<le> s" "0 < logged (brk_bumps lg) (p, m) s ?f"
    using brk_count_in_window [OF assms(5)] by blast
  have "rat_of_int (py_int (clk w - bk_window_s bs)) \<le> of_int s" using s(1) by simp
  then have "in_window w s"
    using py_int_lower [of "clk w - bk_window_s bs"] unfolding in_window_def by linarith
  with assms(2) p s(2) have "0 < field_int (bk_redis bs) (sample_key p m s) ?f w"
    unfolding tracks_def by fastforce
  then have "hmget (bk_redis bs) (sample_key p m s) ?f w \<noteq> None"
    unfolding field_int_def by (metis less_irrefl option.simps(4))
  from redis_scan.scan_finds [OF assms(1) this glob_sample_key] parse_sample_key [OF p m]
  show ?thesis by (auto simp: seed_snapshot_fold map_of_seed domIff)
qed

end

section \<open>A store to run the breaker on\<close>

definition mem_breaker :: "mem_world breaker_set" where
  "mem_breaker =
     \<lparr>bk_redis = mem_redis, bk_window_s = 2, bk_min_samples = 2, bk_open_duration_s = 5,
      bk_failure_threshold = 3 / 10, bk_now_s = mem_clock\<rparr>"

lemma mem_breaker_sel [simp]:
  "bk_redis mem_breaker = mem_redis" "bk_now_s mem_breaker = mem_clock"
  "bk_window_s mem_breaker = 2" "bk_open_duration_s mem_breaker = 5"
  by (simp_all add: mem_breaker_def)

interpretation mem_breakers: breaker_store mem_breaker mem_pass mw_now mem_ttl
  using mem_time.redis_time_axioms
  by (auto intro!: breaker_store.intro breaker_store_axioms.intro
      simp: mem_clock_def breaker_ok_def mem_breaker_def)

section \<open>Properties\<close>

text \<open>C7: After any history of outcomes, pauses and refreshes of a replica, a refresh never
  raises and moves every breaker of its snapshot by one step of the state machine, on exactly
  the successes and failures of that candidate that the window holds and, for a half-open
  breaker, those since the second of its transition. Candidates it sees for the first time
  start closed.\<close>

theorem refresh_simulates_machine:
  assumes "breaker_store bs pass clk ttl"
    and "brk_run bs pass es ([], w, []) = (snap, w', lg)" and "list_all brk_event_ok es"
    and "0 \<le> clk w" and "\<And>k f. hmget (bk_redis bs) k f w = None"
    and "CHR '':'' \<notin> set (fst c)"
    and "refresh_snapshot bs snap w' = (res, snap', w'')"
    and "se_state (entry_or_new snap c) = HALF_OPEN \<Longrightarrow>
      clk w' \<le> se_half_opened_at_s (entry_or_new snap c) + bk_window_s bs"
    and "map_of snap' c = Some e'"
  shows "res = Inr () \<and>
    breaker_step bs (clk w')
      (brk_count True c (py_int (clk w' - bk_window_s bs)) \<lfloor>clk w'\<rfloor> lg)
      (brk_count False c (py_int (clk w' - bk_window_s bs)) \<lfloor>clk w'\<rfloor> lg)
      (brk_count True c \<lfloor>se_half_opened_at_s (entry_or_new snap c)\<rfloor> \<lfloor>clk w'\<rfloor> lg,
       brk_count False c \<lfloor>se_half_opened_at_s (entry_or_new snap c)\<rfloor> \<lfloor>clk w'\<rfloor> lg)
      (entry_or_new snap c) e'"
  using breaker_store.refresh_log [OF assms(1-8)] assms(9) by blast

text \<open>What a replica says of a breaker that was closed, or that it had never heard of:
  right after a refresh it is open exactly when the window holds enough outcomes and at least
  the configured share of them are failures. The scan finds every candidate it needs to.\<close>

theorem closed_breaker_verdict:
  assumes store: "breaker_store bs pass clk ttl" and scan: "redis_scan (bk_redis bs)"
    and run: "brk_run bs pass es ([], w, []) = (snap, w', lg)" and es: "list_all brk_event_ok es"
    and clk: "0 \<le> clk w" and empty: "\<And>k f. hmget (bk_redis bs) k f w = None"
    and p: "CHR '':'' \<notin> set p" and m: "cut '':samples:'' (p @ '':'' @ m @ '':samples'') = None"
    and closed: "se_state (entry_or_new snap (p, m)) = CLOSED"
    and refr: "refresh_snapshot bs snap w' = (res, snap', w'')"
    and bad: "bad = brk_count False (p, m) (py_int (clk w' - bk_window_s bs)) \<lfloor>clk w'\<rfloor> lg"
    and n: "n = brk_count True (p, m) (py_int (clk w' - bk_window_s bs)) \<lfloor>clk w'\<rfloor> lg + bad"
  shows "fst (breaker_state_of bs p m snap' w'') =
    (if bk_min_samples bs \<le> n \<and> bk_failure_threshold bs * of_int n \<le> of_int bad
     then OPEN else CLOSED)"
proof -
  let ?c = "(p, m)"
  have colon: "CHR '':'' \<notin> set (fst ?c)" using p by simp
  have "se_state (entry_or_new snap ?c) = HALF_OPEN \<Longrightarrow>
      clk w' \<le> se_half_opened_at_s (entry_or_new snap ?c) + bk_window_s bs"
    using closed by simp
  note log = breaker_store.refresh_log [OF store run es clk empty colon refr this]
  have step: "res = Inr () \<and> w'' = w' \<and> 0 \<le> clk w' \<and>
      dom (map_of snap') = dom (map_of (seed_snapshot bs snap w')) \<and>
      (\<forall>e'. map_of snap' ?c = Some e' \<longrightarrow> breaker_step bs (clk w') (n - bad) bad
        (brk_count True ?c \<lfloor>se_half_opened_at_s (entry_or_new snap ?c)\<rfloor> \<lfloor>clk w'\<rfloor> lg,
         brk_count False ?c \<lfloor>se_half_opened_at_s (entry_or_new snap ?c)\<rfloor> \<lfloor>clk w'\<rfloor> lg)
        (entry_or_new snap ?c) e')"
    using log closed by (simp add: bad n)
  have seeded: "?c \<in> dom (map_of snap')" if "bk_min_samples bs \<le> n"
  proof -
    have "0 < n" using that breaker_store.settings [OF store] by (simp add: breaker_ok_def)
    then obtain ok where "0 < brk_count ok ?c (py_int (clk w' - bk_window_s bs)) \<lfloor>clk w'\<rfloor> lg"
    proof -
      have "0 \<le> brk_count ok ?c lo hi lg" for ok lo hi by (simp add: brk_count_def)
      with \<open>0 < n\<close> that show thesis unfolding n bad by (metis add_0 add.right_neutral order_less_le)
    qed
    with breaker_store.sampled_is_seeded [OF store scan _ p m] log closed
    have "?c \<in> dom (map_of (seed_snapshot bs snap w'))" by blast
    with step show ?thesis by blast
  qed
  show ?thesis
  proof (cases "map_of snap' ?c")
    case None
    with seeded have "\<not> bk_min_samples bs \<le> n" by (auto simp: domIff)
    moreover have "map_of (seed_snapshot bs snap' w') ?c = None \<or>
        map_of (seed_snapshot bs snap' w') ?c = Some new_entry"
      using seeded_entry [of bs snap' w' ?c] None by (cases "map_of (seed_snapshot bs snap' w') ?c")
        (auto simp: entry_or_new_def)
    ultimately show ?thesis
      using step by (auto simp: breaker_state_of_def new_entry_def Let_def)
  next
    case (Some e')
    have "fst (breaker_state_of bs p m snap' w'') = se_state e'"
      using seed_keeps [OF Some, of bs w''] by (simp add: breaker_state_of_def Let_def)
    moreover have "breaker_step bs (clk w') (n - bad) bad
        (brk_count True ?c \<lfloor>se_half_opened_at_s (entry_or_new snap ?c)\<rfloor> \<lfloor>clk w'\<rfloor> lg,
         brk_count False ?c \<lfloor>se_half_opened_at_s (entry_or_new snap ?c)\<rfloor> \<lfloor>clk w'\<rfloor> lg)
        (entry_or_new snap ?c) e'"
      using step Some by blast
    ultimately show ?thesis using closed by (auto elim!: breaker_stepE)
  qed
qed

text \<open>An open breaker is open for its whole duration: whatever outcomes, pauses and
  refreshes come, as long as the clock has not reached the end of the open window the entry
  stays open, with the time it opened at.\<close>

theorem open_is_held:
  assumes "breaker_store bs pass clk ttl"
    and "brk_run bs pass es ([], w, []) = (snap, w1, lg1)"
    and "brk_run bs pass es' (snap, w1, lg1) = (snap', w', lg')"
    and "list_all brk_event_ok es" and "list_all brk_event_ok es'"
    and "0 \<le> clk w" and "\<And>k f. hmget (bk_redis bs) k f w = None"
    and "map_of snap c = Some e" and "se_state e = OPEN"
    and "clk w' < se_opened_at_s e + bk_open_duration_s bs"
  shows "\<exists>e'. map_of snap' c = Some e' \<and> se_state e' = OPEN \<and>
    se_opened_at_s e' = se_opened_at_s e"
proof -
  note S = assms(1)
  have "second_counters.tracks (bk_redis bs) clk ttl (\<lambda>c :: cand. sample_key (fst c) (snd c))
      (\<lambda>c. CHR '':'' \<notin> set (fst c)) (bk_window_s bs) w (brk_bumps [])"
    using breaker_store.empty_tracks [OF S assms(7)] by simp
  from breaker_store.run_tracks [OF S assms(2,4,6) _ this]
  show ?thesis
    using breaker_store.open_held [OF S assms(3,5) _ _ _ assms(8-10)] assms(6) by auto
qed

text \<open>A half-open breaker believes the whole second of its transition: a failure that was
  recorded in that second before the breaker became half-open counts as the probe's result,
  so a second refresh in the same instant opens the breaker again without any probe.\<close>

theorem half_open_counts_earlier_samples:
  assumes store: "breaker_store bs pass clk ttl"
    and run: "brk_run bs pass es ([], w, []) = (snap, w1, lg)" and es: "list_all brk_event_ok es"
    and clk: "0 \<le> clk w" and empty: "\<And>k f. hmget (bk_redis bs) k f w = None"
    and c: "CHR '':'' \<notin> set (fst c)"
    and opn: "map_of snap c = Some e" "se_state e = OPEN"
    and over: "se_opened_at_s e + bk_open_duration_s bs \<le> clk w1"
    and bad: "0 < brk_count False c \<lfloor>clk w1\<rfloor> \<lfloor>clk w1\<rfloor> lg"
    and refr: "refresh_snapshot bs snap w1 = (res2, snap2, w2)"
    and again: "refresh_snapshot bs snap2 w2 = (res3, snap3, w3)"
  shows "(\<exists>e2. map_of snap2 c = Some e2 \<and> se_state e2 = HALF_OPEN) \<and>
    (\<exists>e3. map_of snap3 c = Some e3 \<and> se_state e3 = OPEN \<and> se_opened_at_s e3 = clk w1)"
proof -
  have entry: "entry_or_new snap c = e" by (simp add: entry_or_new_def opn(1))
  have half: "se_state (entry_or_new snap c) = HALF_OPEN \<Longrightarrow>
      clk w1 \<le> se_half_opened_at_s (entry_or_new snap c) + bk_window_s bs"
    by (simp add: entry opn(2))
  note log = breaker_store.refresh_log [OF store run es clk empty c refr half]
  have "c \<in> dom (map_of snap2)" using log seed_keeps [OF opn(1), of bs w1] by (auto simp: domIff)
  with log obtain e2 where e2: "map_of snap2 c = Some e2" and w2: "w2 = w1"
    and step: "se_state e2 = HALF_OPEN \<and> se_half_opened_at_s e2 = clk w1"
    using opn(2) over by (fastforce simp: entry elim!: breaker_stepE)
  have entry2: "entry_or_new snap2 c = e2" by (simp add: entry_or_new_def e2)
  have run2: "brk_run bs pass (es @ [Brk_refresh]) ([], w, []) = (snap2, w1, lg)"
    using brk_run_append [of bs pass es "[Brk_refresh]"] by (simp add: run refr w2)
  have es2: "list_all brk_event_ok (es @ [Brk_refresh])" using es by simp
  have half2: "se_state (entry_or_new snap2 c) = HALF_OPEN \<Longrightarrow>
      clk w1 \<le> se_half_opened_at_s (entry_or_new snap2 c) + bk_window_s bs"
    using breaker_store.settings [OF store] by (simp add: entry2 step breaker_ok_def)
  note log2 = breaker_store.refresh_log [OF store run2 es2 clk empty c again [unfolded w2] half2]
  have "c \<in> dom (map_of snap3)" using log2 seed_keeps [OF e2, of bs w1] by (auto simp: domIff)
  with log2 obtain e3 where "map_of snap3 c = Some e3" "se_state e3 = OPEN \<and> se_opened_at_s e3 = clk w1"
    using step bad by (fastforce simp: entry2 elim!: breaker_stepE)
  with e2 step show ?thesis by blast
qed

text \<open>
  Probes: the calls of \<open>try_probe\<close> of any replicas for one candidate, with pauses in
  between.
\<close>

fun probe_run ::
    "'w breaker_set \<Rightarrow> (rat \<Rightarrow> 'w \<Rightarrow> 'w) \<Rightarrow> string \<Rightarrow> string \<Rightarrow> rat option list \<Rightarrow> 'w \<Rightarrow>
     bool list \<times> 'w" where
  "probe_run bs pass p m [] w = ([], w)"
| "probe_run bs pass p m (None # es) w =
     (let (ok, w) = try_probe bs p m w; (oks, w) = probe_run bs pass p m es w in (ok # oks, w))"
| "probe_run bs pass p m (Some d # es) w = probe_run bs pass p m es (pass d w)"

fun waited :: "rat option list \<Rightarrow> rat" where
  "waited [] = 0"
| "waited (None # es) = waited es"
| "waited (Some d # es) = d + waited es"

lemma waited_nonneg: "list_all (pred_option (\<lambda>d. 0 \<le> d)) es \<Longrightarrow> 0 \<le> waited es"
  by (induction es rule: waited.induct) auto

locale probing = redis_locks "bk_redis bs" pass held
  for bs :: "'w breaker_set" and pass held +
  fixes clk :: "'w \<Rightarrow> rat"
  assumes clock_reads: "bk_now_s bs w = (clk w, w)"
begin

lemma probe_step:
  "try_probe bs p m w =
     set_nx_ex (bk_redis bs) (breaker_probe_key p m) (''probe:'' @ str_int (py_int (clk w))) 10 w"
  by (simp add: try_probe_def acquire_probe_lock_def clock_reads)

text \<open>While the lock is held no probe is let through.\<close>

lemma probe_run_held:
  "\<lbrakk>probe_run bs pass p m es w = (oks, w'); list_all (pred_option (\<lambda>d. 0 \<le> d)) es;
    held (breaker_probe_key p m) w = Some t; waited es < t\<rbrakk> \<Longrightarrow> \<not> list_ex (\<lambda>ok. ok) oks"
proof (induction es arbitrary: w oks t rule: list.induct)
  case Nil
  then show ?case by simp
next
  case (Cons e es)
  show ?case
  proof (cases e)
    case None
    have "try_probe bs p m w = (False, w)"
      unfolding probe_step using set_nx_held Cons.prems(3) by simp
    with None Cons.prems Cons.IH [of w _ t] show ?thesis by (auto split: prod.splits)
  next
    case (Some d)
    with Cons.prems(2,4) waited_nonneg [of es] have "0 \<le> d" "d < t" by auto
    with Some Cons.prems Cons.IH [of "pass d w" oks "t - d"] held_pass [of d _ w t]
    show ?thesis by simp
  qed
qed

lemma probe_run_once:
  "\<lbrakk>probe_run bs pass p m es w = (oks, w'); list_all (pred_option (\<lambda>d. 0 \<le> d)) es; waited es < 10\<rbrakk>
   \<Longrightarrow> length (filter (\<lambda>ok. ok) oks) \<le> 1"
proof (induction es arbitrary: w oks rule: list.induct)
  case Nil
  then show ?case by simp
next
  case (Cons e es)
  show ?case
  proof (cases e)
    case None
    obtain ok w1 where slot: "try_probe bs p m w = (ok, w1)" by force
    obtain oks1 where run: "probe_run bs pass p m es w1 = (oks1, w')" and oks: "oks = ok # oks1"
      using Cons.prems(1) by (auto simp: None slot split: prod.splits)
    have rest: "list_all (pred_option (\<lambda>d. 0 \<le> d)) es" "waited es < 10"
      using Cons.prems(2,3) by (simp_all add: None)
    show ?thesis
    proof (cases ok)
      case True
      then have "held (breaker_probe_key p m) w = None"
        using slot set_nx_held unfolding probe_step by (metis prod.inject)
      then have "held (breaker_probe_key p m) w1 = Some 10"
        using slot held_set [of _ w 10] unfolding probe_step by (metis snd_conv zero_less_numeral)
      from probe_run_held [OF run rest(1) this rest(2)] show ?thesis
        by (simp add: oks list_ex_iff filter_empty_conv)
    next
      case False
      with Cons.IH [OF run rest] show ?thesis by (simp add: oks)
    qed
  next
    case (Some d)
    with Cons.prems Cons.IH [of "pass d w" oks] show ?thesis by auto
  qed
qed

end

interpretation mem_probing: probing mem_breaker mem_pass mem_held mw_now
  using mem_locks.redis_locks_axioms
  by (auto intro!: probing.intro probing_axioms.intro simp: mem_clock_def)

text \<open>C32: The probe slot is exclusive: of all calls of \<open>try_probe\<close> for a candidate, by any
  replica and in any interleaving with pauses, at most one in ten seconds is let through.\<close>

theorem probes_are_exclusive:
  assumes "probing bs pass held clk" and "probe_run bs pass p m es w = (oks, w')"
    and "list_all (pred_option (\<lambda>d. 0 \<le> d)) es" and "waited es < 10"
  shows "length (filter (\<lambda>ok. ok) oks) \<le> 1"
  by (rule probing.probe_run_once [OF assms])

section \<open>The properties on the in-memory store\<close>

abbreviation gpt4o :: cand where
  "gpt4o \<equiv> (''openai'', ''gpt-4o'')"

text \<open>One success and two failures, which trip the breaker; five seconds later one more failure.\<close>

definition demo_failures :: "brk_event list" where
  "demo_failures =
     [Brk_ok ''openai'' ''gpt-4o'', Brk_wait 1, Brk_bad ''openai'' ''gpt-4o'',
      Brk_bad ''openai'' ''gpt-4o'']"

definition demo_log :: brk_log where
  "demo_log = [(gpt4o, 0, True), (gpt4o, 1, False), (gpt4o, 1, False)]"

definition demo_samples :: "rat \<Rightarrow> mem_world" where
  "demo_samples now =
     \<lparr>mw_now = now,
      mw_hashes = [(''gw:brk:openai:gpt-4o:samples:0'', [(''successes'', 1)], Some 8),
        (''gw:brk:openai:gpt-4o:samples:1'', [(''failures'', 2)], Some 9)],
      mw_strings = []\<rparr>"

definition tripped :: snapshot where
  "tripped = [(gpt4o, mk_entry OPEN 1 3 2 0)]"

lemma demo_runs:
  "brk_run mem_breaker mem_pass demo_failures ([], mem_empty, []) = ([], demo_samples 1, demo_log)"
  "refresh_snapshot mem_breaker [] (demo_samples 1) = (Inr (), tripped, demo_samples 1)"
  "brk_run mem_breaker mem_pass [Brk_wait 4, Brk_refresh] (tripped, demo_samples 1, demo_log) =
     ([(gpt4o, mk_entry OPEN 1 0 0 0)], demo_samples 5, demo_log)"
  by code_simp+

lemma demo_events: "list_all brk_event_ok demo_failures" "list_all brk_event_ok [Brk_wait 4, Brk_refresh]"
  by (simp_all add: demo_failures_def)

lemma mem_empty_start: "0 \<le> mw_now mem_empty" "hmget (bk_redis mem_breaker) k f mem_empty = None"
  by (simp_all add: mem_hmget_def mem_or_new_def mem_entry_def mem_empty_def)

lemma demo_tripped_run:
  "brk_run mem_breaker mem_pass (demo_failures @ [Brk_refresh]) ([], mem_empty, []) =
     (tripped, demo_samples 1, demo_log)"
  by (simp add: brk_run_append demo_runs)

lemma refresh_simulates_machine_witness:
  "breaker_step mem_breaker 1 1 2 (1, 2) new_entry (mk_entry OPEN 1 3 2 0)"
proof -
  have half: "se_state (entry_or_new [] gpt4o) = HALF_OPEN \<Longrightarrow>
      mw_now (demo_samples 1) \<le> se_half_opened_at_s (entry_or_new [] gpt4o) + bk_window_s mem_breaker"
    by (simp add: entry_or_new_def new_entry_def)
  have c: "CHR '':'' \<notin> set (fst gpt4o)" and e: "map_of tripped gpt4o = Some (mk_entry OPEN 1 3 2 0)"
    by (simp_all add: tripped_def)
  from refresh_simulates_machine [OF mem_breakers.breaker_store_axioms demo_runs(1) demo_events(1)
      mem_empty_start c demo_runs(2) half e]
  show ?thesis
    by (simp add: demo_samples_def entry_or_new_def new_entry_def brk_count_def demo_log_def
        py_int_def)
qed

lemma closed_breaker_verdict_witness:
  "fst (breaker_state_of mem_breaker ''openai'' ''gpt-4o'' tripped (demo_samples 1)) = OPEN"
proof -
  have m: "cut '':samples:'' (''openai'' @ '':'' @ ''gpt-4o'' @ '':samples'') = None"
    and p: "CHR '':'' \<notin> set ''openai''"
    and st: "se_state (entry_or_new [] gpt4o) = CLOSED"
    by (simp_all add: entry_or_new_def new_entry_def)
  from closed_breaker_verdict [OF mem_breakers.breaker_store_axioms _ demo_runs(1) demo_events(1)
      mem_empty_start p m st demo_runs(2) refl refl]
  show ?thesis
    using mem_scans.redis_scan_axioms
    by (simp add: demo_samples_def brk_count_def demo_log_def py_int_def mem_breaker_def)
qed

lemma open_is_held_witness:
  "\<exists>e'. map_of [(gpt4o, mk_entry OPEN 1 0 0 0)] gpt4o = Some e' \<and> se_state e' = OPEN \<and>
     se_opened_at_s e' = se_opened_at_s (mk_entry OPEN 1 3 2 0)"
  by (rule open_is_held [OF mem_breakers.breaker_store_axioms demo_tripped_run demo_runs(3)])
    (simp_all add: demo_failures_def mem_empty_start [simplified] tripped_def demo_samples_def)

lemma probes_are_exclusive_witness:
  "fst (probe_run mem_breaker mem_pass ''openai'' ''gpt-4o'' [None, Some 9, None] mem_empty) =
     [True, False] \<and>
   length (filter (\<lambda>ok. ok) (fst (probe_run mem_breaker mem_pass ''openai'' ''gpt-4o''
     [None, Some 9, None] mem_empty))) \<le> 1"
proof
  show "fst (probe_run mem_breaker mem_pass ''openai'' ''gpt-4o'' [None, Some 9, None] mem_empty) =
      [True, False]" by code_simp
  show "length (filter (\<lambda>ok. ok) (fst (probe_run mem_breaker mem_pass ''openai'' ''gpt-4o''
      [None, Some 9, None] mem_empty))) \<le> 1"
    by (rule probes_are_exclusive [OF mem_probing.probing_axioms prod.collapse [symmetric]]) simp_all
qed

text \<open>The failure at second 6 was recorded while the breaker was still open.\<close>

definition late_samples :: mem_world where
  "late_samples =
     \<lparr>mw_now = 13 / 2,
      mw_hashes = mw_hashes (demo_samples 1) @
        [(''gw:brk:openai:gpt-4o:samples:6'', [(''failures'', 1)], Some 14)],
      mw_strings = []\<rparr>"

lemma late_runs:
  "brk_run mem_breaker mem_pass [Brk_wait 5, Brk_bad ''openai'' ''gpt-4o'', Brk_wait (1 / 2)]
     (tripped, demo_samples 1, demo_log) = (tripped, late_samples, demo_log @ [(gpt4o, 6, False)])"
  "refresh_snapshot mem_breaker tripped late_samples =
     (Inr (), [(gpt4o, mk_entry HALF_OPEN 1 1 1 (13 / 2))], late_samples)"
  "refresh_snapshot mem_breaker [(gpt4o, mk_entry HALF_OPEN 1 1 1 (13 / 2))] late_samples =
     (Inr (), [(gpt4o, mk_entry OPEN (13 / 2) 1 1 0)], late_samples)"
  by code_simp+

lemma half_open_counts_earlier_samples_witness:
  "\<exists>e3. map_of [(gpt4o, mk_entry OPEN (13 / 2) 1 1 0)] gpt4o = Some e3 \<and> se_state e3 = OPEN \<and>
     se_opened_at_s e3 = mw_now late_samples"
proof -
  let ?es = "(demo_failures @ [Brk_refresh]) @
    [Brk_wait 5, Brk_bad ''openai'' ''gpt-4o'', Brk_wait (1 / 2)]"
  have run: "brk_run mem_breaker mem_pass ?es ([], mem_empty, []) =
      (tripped, late_samples, demo_log @ [(gpt4o, 6, False)])"
    unfolding brk_run_append [of _ _ "demo_failures @ _"] demo_tripped_run by (rule late_runs(1))
  have es: "list_all brk_event_ok ?es" and c: "CHR '':'' \<notin> set (fst gpt4o)"
    and e: "map_of tripped gpt4o = Some (mk_entry OPEN 1 3 2 0)" "se_state (mk_entry OPEN 1 3 2 0) = OPEN"
    by (simp_all add: demo_failures_def tripped_def)
  show ?thesis
    using half_open_counts_earlier_samples [OF mem_breakers.breaker_store_axioms run es
        mem_empty_start c e _ _ late_runs(2,3)]
    by (simp add: late_samples_def brk_count_def demo_log_def)
qed

end
