(* ===== verification/Weights.thy ===== *)
theory Weights
  imports Breaker
begin

text \<open>
  \<open>gateway/routing/weights.py\<close>: the scores, the effective weight and the weighted random
  pick. The random draw is a parameter, a reading of the world as a clock is; what the code
  relies on is that \<open>random()\<close> is in \<open>[0, 1)\<close>.
\<close>

section \<open>Scores\<close>

record candidate_signals =
  cs_base_weight :: rat
  cs_error_rate :: rat
  cs_mean_latency_s :: rat
  cs_rpm_remaining :: int
  cs_rpm_cap :: int
  cs_tpm_remaining :: int
  cs_tpm_cap :: int
  cs_breaker :: breaker_state

definition health_score :: "rat \<Rightarrow> rat \<Rightarrow> rat \<Rightarrow> rat pyres" where
  "health_score error_rate mean_latency_s target =
     (let error_factor = max 0 (1 - error_rate)
      in rbind (py_div target (target + max 0 mean_latency_s))
           (\<lambda>latency_factor. Inr (error_factor * latency_factor)))"

definition budget_score :: "int \<Rightarrow> int \<Rightarrow> int \<Rightarrow> int \<Rightarrow> rat" where
  "budget_score rpm_remaining rpm_cap tpm_remaining tpm_cap =
     (if rpm_cap \<le> 0 \<or> tpm_cap \<le> 0 then 0
      else let rpm = max 0 (of_int rpm_remaining / of_int rpm_cap);
               tpm = max 0 (of_int tpm_remaining / of_int tpm_cap)
           in min rpm tpm)"

definition effective_weight :: "rat \<Rightarrow> rat \<Rightarrow> rat \<Rightarrow> breaker_state \<Rightarrow> rat \<Rightarrow> rat" where
  "effective_weight base health budget breaker fl =
     (if breaker = OPEN then 0
      else let w = base * health * budget in if fl \<le> w then w else 0)"

section \<open>The engine\<close>

type_synonym signal_cache = "(candidate_ref, candidate_signals) pydict"

definition update_cache :: "signal_cache \<Rightarrow> signal_cache \<Rightarrow> signal_cache" where
  "update_cache signals cache = signals"

definition signals_for :: "signal_cache \<Rightarrow> candidate_ref \<Rightarrow> candidate_signals option" where
  "signals_for cache cand = map_of cache cand"

definition weight :: "routing_config \<Rightarrow> signal_cache \<Rightarrow> candidate_ref \<Rightarrow> rat pyres" where
  "weight routing cache cand =
     (case map_of cache cand of
        None \<Rightarrow> Inr 0
      | Some s \<Rightarrow>
          rbind (health_score (cs_error_rate s) (cs_mean_latency_s s) (target_latency_s routing))
            (\<lambda>h. let b = budget_score (cs_rpm_remaining s) (cs_rpm_cap s) (cs_tpm_remaining s)
                           (cs_tpm_cap s)
                 in Inr (effective_weight (cs_base_weight s) h b (cs_breaker s)
                           (min_weight_floor routing))))"

text \<open>The two parallel lists of \<open>pick\<close>, as pairs; \<open>exclude\<close> is a set.\<close>

fun collect ::
    "routing_config \<Rightarrow> signal_cache \<Rightarrow> candidate_ref set \<Rightarrow> tier_entry list \<Rightarrow>
     (candidate_ref \<times> rat) list pyres" where
  "collect routing cache exclude [] = Inr []"
| "collect routing cache exclude (t # ts) =
     (let ref = mk_ref t
      in if ref \<in> exclude then collect routing cache exclude ts
         else rbind (weight routing cache ref)
                (\<lambda>w. if w \<le> 0 then collect routing cache exclude ts
                     else rbind (collect routing cache exclude ts) (\<lambda>cws. Inr ((ref, w) # cws))))"

text \<open>The walk along the running sum; the last candidate when the sum falls short.\<close>

fun walk :: "rat \<Rightarrow> rat \<Rightarrow> candidate_ref \<Rightarrow> (candidate_ref \<times> rat) list \<Rightarrow> candidate_ref" where
  "walk r acc fallback [] = fallback"
| "walk r acc fallback ((c, w) # cws) =
     (let acc = acc + w in if r \<le> acc then c else walk r acc fallback cws)"

definition pick ::
    "routing_config \<Rightarrow> signal_cache \<Rightarrow> tier_entry list \<Rightarrow> candidate_ref set \<Rightarrow> 'w clock \<Rightarrow> 'w \<Rightarrow>
     candidate_ref option pyres \<times> 'w" where
  "pick routing cache tier_candidates exclude rng w =
     (case collect routing cache exclude tier_candidates of
        Inl e \<Rightarrow> (Inl e, w)
      | Inr cws \<Rightarrow>
          if cws = [] then (Inr None, w)
          else let n = sum_list (map snd cws);
                   (u, w) = rng w;
                   r = u * n
               in (Inr (Some (walk r 0 (fst (last cws)) cws)), w))"

section \<open>Lemmas of the scores\<close>

text \<open>The signals \<open>build_signals\<close> makes: limits as configured, ratios and means as aggregated.\<close>

definition signals_ok :: "candidate_signals \<Rightarrow> bool" where
  "signals_ok s \<longleftrightarrow> 0 \<le> cs_base_weight s \<and> 0 \<le> cs_error_rate s \<and> cs_error_rate s \<le> 1 \<and>
     0 \<le> cs_mean_latency_s s \<and> 0 < cs_rpm_cap s \<and> 0 < cs_tpm_cap s"

lemma health_score_pos:
  assumes "0 < target"
  shows "health_score err lat target =
    Inr (max 0 (1 - err) * (target / (target + max 0 lat)))"
  using assms by (simp add: health_score_def max_def)

lemma latency_factor:
  assumes "0 < (target :: rat)"
  shows "0 < target / (target + max 0 lat)" "target / (target + max 0 lat) \<le> 1"
  using assms by (simp_all add: max_def)

lemma latency_factor_antimono:
  assumes "0 < (target :: rat)" and "lat \<le> lat'"
  shows "target / (target + max 0 lat') \<le> target / (target + max 0 lat)"
  using assms by (intro divide_left_mono) (auto simp: max_def)

lemma budget_score_nonneg: "0 \<le> budget_score r rc t tc"
  by (simp add: budget_score_def Let_def)

lemma effective_weight_nonneg:
  "0 \<le> fl \<Longrightarrow> 0 \<le> effective_weight base h b brk fl"
  by (simp add: effective_weight_def Let_def)

lemma weight_total:
  "0 < target_latency_s routing \<Longrightarrow> \<exists>w. weight routing cache c = Inr w"
  by (auto simp: weight_def health_score_pos split: option.split)

section \<open>Lemmas of the pick\<close>

definition eligible ::
    "routing_config \<Rightarrow> signal_cache \<Rightarrow> candidate_ref set \<Rightarrow> tier_entry list \<Rightarrow> candidate_ref \<Rightarrow> bool"
  where
  "eligible routing cache exclude ts c \<longleftrightarrow>
     c \<in> mk_ref ` set ts \<and> c \<notin> exclude \<and> (\<exists>w > 0. weight routing cache c = Inr w)"

lemma collect_total:
  "0 < target_latency_s routing \<Longrightarrow> \<exists>cws. collect routing cache exclude ts = Inr cws"
proof (induction ts)
  case (Cons t ts)
  obtain w where "weight routing cache (mk_ref t) = Inr w"
    using weight_total [OF Cons.prems] by blast
  moreover obtain cws where "collect routing cache exclude ts = Inr cws"
    using Cons by blast
  ultimately show ?case by (simp add: Let_def)
qed simp

lemma collect_elements:
  "collect routing cache exclude ts = Inr cws \<Longrightarrow>
   set cws = {(c, w). c \<in> mk_ref ` set ts \<and> c \<notin> exclude \<and> 0 < w \<and> weight routing cache c = Inr w}"
proof (induction ts arbitrary: cws)
  case (Cons t ts)
  show ?case
  proof (cases "mk_ref t \<in> exclude")
    case True
    with Cons show ?thesis by (auto simp: Let_def)
  next
    case False
    then obtain w where w: "weight routing cache (mk_ref t) = Inr w"
      using Cons.prems by (auto simp: Let_def)
    show ?thesis
    proof (cases "w \<le> 0")
      case True
      with Cons False w show ?thesis by (auto simp: Let_def)
    next
      case pos: False
      with Cons.prems False w obtain cws' where "collect routing cache exclude ts = Inr cws'"
        and cws: "cws = (mk_ref t, w) # cws'"
        by (auto simp: Let_def)
      note IH = Cons.IH [OF this(1)]
      show ?thesis using w pos False by (auto simp: cws IH)
    qed
  qed
qed simp

definition weights_pos :: "(candidate_ref \<times> rat) list \<Rightarrow> bool" where
  "weights_pos cws \<longleftrightarrow> (\<forall>cw \<in> set cws. 0 < snd cw)"

text \<open>The running sums up to a position.\<close>

definition cum :: "(candidate_ref \<times> rat) list \<Rightarrow> nat \<Rightarrow> rat" where
  "cum cws i = sum_list (map snd (take i cws))"

lemma walk_position:
  assumes "weights_pos cws" and "cws \<noteq> []" and "r - acc \<le> sum_list (map snd cws)"
  shows "\<exists>i < length cws. walk r acc fb cws = fst (cws ! i) \<and>
    (i = 0 \<or> acc + cum cws i < r) \<and> r \<le> acc + cum cws (Suc i)"
  using assms
proof (induction cws arbitrary: acc)
  case (Cons cw cws)
  obtain c w where cw: "cw = (c, w)" by force
  show ?case
  proof (cases "r \<le> acc + w")
    case True
    then show ?thesis by (intro exI [of _ 0]) (simp add: cw cum_def)
  next
    case False
    with Cons.prems(3) have ne: "cws \<noteq> []" by (auto simp: cw)
    have "r - (acc + w) \<le> sum_list (map snd cws)" using Cons.prems(3) by (simp add: cw)
    from Cons.IH [OF _ ne this] Cons.prems(1)[unfolded weights_pos_def]
    obtain i where i: "i < length cws" "walk r (acc + w) fb cws = fst (cws ! i)"
      "i = 0 \<or> acc + w + cum cws i < r" "r \<le> acc + w + cum cws (Suc i)"
      by (auto simp: weights_pos_def)
    with False show ?thesis
      by (intro exI [of _ "Suc i"]) (auto simp: cw cum_def Let_def)
  qed
qed simp

lemma cum_Suc: "i < length cws \<Longrightarrow> cum cws (Suc i) = cum cws i + snd (cws ! i)"
  by (simp add: cum_def take_Suc_conv_app_nth)

lemma cum_mono:
  assumes "weights_pos cws" and "i \<le> j" and "j \<le> length cws"
  shows "cum cws i \<le> cum cws j"
  using assms(2,3)
proof (induction j rule: dec_induct)
  case (step n)
  have "cws ! n \<in> set cws" using step.prems by simp
  then have "0 < snd (cws ! n)" using assms(1) by (simp add: weights_pos_def)
  with step show ?case by (simp add: cum_Suc)
qed simp

text \<open>The intervals of different positions are disjoint.\<close>

lemma cum_position_unique:
  assumes pos: "weights_pos cws" and "i < length cws" and "j < length cws"
    and "i = 0 \<or> cum cws i < r" and "r \<le> cum cws (Suc i)"
    and "j = 0 \<or> cum cws j < r" and "r \<le> cum cws (Suc j)"
  shows "i = j"
proof (rule ccontr)
  assume "i \<noteq> j"
  then consider "Suc i \<le> j" | "Suc j \<le> i" by linarith
  then show False
  proof cases
    case 1
    with cum_mono [OF pos 1] assms show False by auto
  next
    case 2
    with cum_mono [OF pos 2] assms show False by auto
  qed
qed

lemma pick_cases:
  assumes t: "0 < target_latency_s routing" and u: "0 \<le> fst (rng w)" "fst (rng w) < 1"
  obtains (none) "collect routing cache exclude ts = Inr []"
      "pick routing cache ts exclude rng w = (Inr None, w)"
    | (some) cws i where "collect routing cache exclude ts = Inr cws" "i < length cws"
      "weights_pos cws"
      "pick routing cache ts exclude rng w = (Inr (Some (fst (cws ! i))), snd (rng w))"
      "i = 0 \<or> cum cws i < fst (rng w) * cum cws (length cws)"
      "fst (rng w) * cum cws (length cws) \<le> cum cws (Suc i)"
proof -
  obtain cws where cws: "collect routing cache exclude ts = Inr cws"
    using collect_total [OF t] by blast
  show thesis
  proof (cases "cws = []")
    case True
    with cws show thesis by (intro none) (simp_all add: pick_def)
  next
    case False
    have pos: "weights_pos cws"
      using collect_elements [OF cws] by (auto simp: weights_pos_def)
    have all: "sum_list (map snd cws) = cum cws (length cws)" by (simp add: cum_def)
    have "0 \<le> cum cws (length cws)" using cum_mono [OF pos, of 0 "length cws"] by (simp add: cum_def)
    then have "fst (rng w) * cum cws (length cws) - 0 \<le> sum_list (map snd cws)"
      using u mult_right_mono [of "fst (rng w)" 1] by (simp add: all)
    from walk_position [OF pos False this, of "fst (last cws)"]
    obtain i where i: "i < length cws"
      "walk (fst (rng w) * cum cws (length cws)) 0 (fst (last cws)) cws = fst (cws ! i)"
      "i = 0 \<or> cum cws i < fst (rng w) * cum cws (length cws)"
      "fst (rng w) * cum cws (length cws) \<le> cum cws (Suc i)" by auto
    have "pick routing cache ts exclude rng w = (Inr (Some (fst (cws ! i))), snd (rng w))"
      using False i(2) by (simp add: pick_def cws all split_beta Let_def)
    from some [OF cws i(1) pos this i(3,4)] show thesis .
  qed
qed

lemma cum_all_pos:
  assumes "weights_pos cws" and "cws \<noteq> []"
  shows "0 < cum cws (length cws)"
proof -
  have "hd cws \<in> set cws" using assms(2) by simp
  then have "0 < snd (hd cws)" using assms(1) by (simp add: weights_pos_def)
  then have "0 < cum cws 1" using assms(2) by (cases cws) (auto simp: cum_def)
  moreover have "1 \<le> length cws" using assms(2) by (cases cws) auto
  ultimately show ?thesis using cum_mono [OF assms(1), of 1 "length cws"] by simp
qed

section \<open>The interface of a picker\<close>

text \<open>
  What the router needs of a pick, whatever the weights: the choice is one of the tier's and
  not excluded, so that excluding it leaves fewer to choose from.
\<close>

locale picker =
  fixes draw :: "'c set \<Rightarrow> 'w \<Rightarrow> 'c option pyres \<times> 'w"
    and refs :: "'c set"
  assumes draw_sound: "draw ex w = (Inr (Some c), w') \<Longrightarrow> c \<in> refs \<and> c \<notin> ex"
    and finite_refs: "finite refs"
begin

lemma draw_shrinks:
  assumes "draw ex w = (Inr (Some c), w')"
  shows "card (refs - insert c ex) < card (refs - ex)"
  using draw_sound [OF assms] finite_refs by (intro psubset_card_mono) auto

lemma draw_fresh:
  assumes "draw (fst ` set tried) w = (Inr (Some c), w')" and "distinct (map fst tried)"
  shows "distinct (map fst (tried @ [(c, s)]))"
  using draw_sound [OF assms(1)] assms(2) by auto

end

lemma walk_in: "walk r acc fb cws \<in> insert fb (fst ` set cws)"
proof (induction cws arbitrary: acc)
  case (Cons cw cws)
  then show ?case using Cons.IH [of "acc + snd cw"] by (cases cw) (auto simp: Let_def)
qed simp

lemma pick_sound:
  assumes "pick routing cache ts exclude rng w = (Inr (Some c), w')"
  shows "c \<in> mk_ref ` set ts \<and> c \<notin> exclude"
proof -
  obtain cws where cws: "collect routing cache exclude ts = Inr cws" "cws \<noteq> []"
    and c: "c = walk (fst (rng w) * sum_list (map snd cws)) 0 (fst (last cws)) cws"
    using assms by (auto simp: pick_def split_beta Let_def split: sum.splits if_splits)
  from cws(2) have "fst (last cws) \<in> fst ` set cws" by simp
  then have "c \<in> fst ` set cws"
    unfolding c using walk_in [of _ 0 "fst (last cws)" cws] by (metis insert_absorb)
  then show ?thesis by (auto simp: collect_elements [OF cws(1)])
qed

interpretation engine: picker "\<lambda>exclude. pick routing cache ts exclude rng" "mk_ref ` set ts"
  for routing cache ts rng
  by unfold_locales (simp_all add: pick_sound)

section \<open>The specification of a pick\<close>

text \<open>The candidates that take part, in tier order, each with its weight.\<close>

definition contenders ::
    "routing_config \<Rightarrow> signal_cache \<Rightarrow> candidate_ref set \<Rightarrow> tier_entry list \<Rightarrow>
     (candidate_ref \<times> rat) list" where
  "contenders routing cache exclude ts =
     filter (\<lambda>(c, w). c \<notin> exclude \<and> 0 < w)
       (map (\<lambda>t. (mk_ref t, case weight routing cache (mk_ref t) of Inr w \<Rightarrow> w | Inl _ \<Rightarrow> 0)) ts)"

lemma collect_contenders:
  "collect routing cache exclude ts = Inr cws \<Longrightarrow> cws = contenders routing cache exclude ts"
proof (induction ts arbitrary: cws)
  case (Cons t ts)
  show ?case
  proof (cases "mk_ref t \<in> exclude")
    case True
    with Cons show ?thesis by (simp add: contenders_def Let_def)
  next
    case False
    with Cons show ?thesis by (auto simp: contenders_def Let_def not_le split: if_splits)
  qed
qed (simp add: contenders_def)

section \<open>Properties\<close>

text \<open>C16: A pick is safe and complete. It never raises; it returns nothing exactly when no
  candidate of the tier is both unexcluded and of positive weight, drawing no random number
  then; and what it returns is a candidate of the tier that is not excluded, is in the cache,
  is not behind an open breaker and whose weight reaches the floor.\<close>

theorem pick_sound_complete:
  assumes "0 < target_latency_s routing" and "0 \<le> min_weight_floor routing"
    and "0 \<le> fst (rng w)" and "fst (rng w) < 1"
  shows "\<exists>res. fst (pick routing cache ts exclude rng w) = Inr res \<and>
    (res = None \<longleftrightarrow> (\<forall>t \<in> set ts. \<not> eligible routing cache exclude ts (mk_ref t))) \<and>
    (res = None \<longrightarrow> snd (pick routing cache ts exclude rng w) = w) \<and>
    (\<forall>c. res = Some c \<longrightarrow> eligible routing cache exclude ts c \<and>
       (\<exists>s v. signals_for cache c = Some s \<and> cs_breaker s \<noteq> OPEN \<and>
          weight routing cache c = Inr v \<and> min_weight_floor routing \<le> v))"
  using assms(1,3,4)
proof (cases rule: pick_cases [where cache = cache and exclude = exclude and ts = ts])
  case none
  with collect_elements [OF none(1)] show ?thesis by (auto simp: eligible_def)
next
  case (some cws i)
  have el: "eligible routing cache exclude ts (fst (cws ! i))"
    using nth_mem [OF some(2)] unfolding collect_elements [OF some(1)]
    by (auto simp: eligible_def)
  moreover from el obtain v where "weight routing cache (fst (cws ! i)) = Inr v" "0 < v"
    by (auto simp: eligible_def)
  moreover from this assms(1,2)
  have "\<exists>s. signals_for cache (fst (cws ! i)) = Some s \<and> cs_breaker s \<noteq> OPEN \<and>
      min_weight_floor routing \<le> v"
    by (auto simp: weight_def signals_for_def effective_weight_def Let_def
        split: option.splits if_splits)
  ultimately show ?thesis
    using some(4) by (auto simp: eligible_def image_iff)
qed

text \<open>C31: The pick is proportional to the weights: among the contenders in tier order, the
  candidate at a position is returned exactly for the draws in its own interval of
  \<open>[0, 1)\<close>, whose length is its share of the total weight, so that the fallback to the last
  candidate is never what decides.\<close>

theorem pick_is_proportional:
  assumes "0 < target_latency_s routing" and "0 \<le> fst (rng w)" and "fst (rng w) < 1"
    and cws: "cws = contenders routing cache exclude ts" and "i < length cws"
    and dist: "distinct (map fst cws)"
    and all: "n = cum cws (length cws)"
  shows "fst (pick routing cache ts exclude rng w) = Inr (Some (fst (cws ! i))) \<longleftrightarrow>
    (i = 0 \<or> cum cws i / n < fst (rng w)) \<and> fst (rng w) \<le> cum cws i / n + snd (cws ! i) / n"
  using assms(1-3)
proof (cases rule: pick_cases [where cache = cache and exclude = exclude and ts = ts])
  case none
  with assms(5) collect_contenders [OF none(1)] show ?thesis by (simp add: cws)
next
  case (some cws' j)
  have eq: "cws' = cws" using collect_contenders [OF some(1)] by (simp add: cws)
  note pos = some(3) [unfolded eq]
  have j: "j < length cws" "j = 0 \<or> cum cws j < fst (rng w) * n" "fst (rng w) * n \<le> cum cws (Suc j)"
    using some(2,5,6) by (simp_all add: eq all)
  have n: "0 < n" unfolding all using cum_all_pos [OF pos] assms(5) by (cases cws) auto
  have "fst (pick routing cache ts exclude rng w) = Inr (Some (fst (cws ! i))) \<longleftrightarrow> j = i"
    using some(4) nth_eq_iff_index_eq [OF dist] j(1) assms(5) by (simp add: eq)
  also have "\<dots> \<longleftrightarrow> (i = 0 \<or> cum cws i < fst (rng w) * n) \<and> fst (rng w) * n \<le> cum cws (Suc i)"
    using cum_position_unique [OF pos j(1) assms(5) j(2,3)] j(2,3) by blast
  also have "\<dots> \<longleftrightarrow> (i = 0 \<or> cum cws i / n < fst (rng w)) \<and> fst (rng w) \<le> cum cws i / n + snd (cws ! i) / n"
    using n assms(5) by (simp add: cum_Suc pos_divide_less_eq pos_le_divide_eq
        add_divide_distrib [symmetric])
  finally show ?thesis .
qed

text \<open>The health score is a number between 0 and 1 for any observed error rate and
  latency and a positive target: it does not grow when either gets worse, it is one half for
  a candidate without errors at the target latency, and zero only for one that fails every
  call.\<close>

theorem health_score_shape:
  assumes "0 < target" and "0 \<le> err" and "err \<le> err'" and "lat \<le> lat'"
  shows "\<exists>h h'. health_score err lat target = Inr h \<and> health_score err' lat' target = Inr h' \<and>
    0 \<le> h' \<and> h' \<le> h \<and> h \<le> 1 \<and> (h = 0 \<longleftrightarrow> 1 \<le> err) \<and> health_score 0 target target = Inr (1 / 2)"
proof -
  have "max 0 (1 - err') * (target / (target + max 0 lat'))
      \<le> max 0 (1 - err) * (target / (target + max 0 lat))"
    using assms latency_factor [OF assms(1)] latency_factor_antimono [OF assms(1,4)]
    by (intro mult_mono) (auto intro: less_imp_le)
  moreover have "max 0 (1 - err) * (target / (target + max 0 lat)) \<le> 1"
    using assms latency_factor [OF assms(1), of lat] by (intro mult_le_one) auto
  moreover have "0 \<le> max 0 (1 - err') * (target / (target + max 0 lat'))"
    using latency_factor(1) [OF assms(1), of lat'] by (intro mult_nonneg_nonneg) auto
  moreover have "target + max 0 lat \<noteq> 0" using assms(1) by (simp add: max_def)
  then have "max 0 (1 - err) * (target / (target + max 0 lat)) = 0 \<longleftrightarrow> 1 \<le> err"
    using assms(1) by (auto simp: max_def)
  moreover have "health_score 0 target target = Inr (1 / 2)"
    using assms(1) by (simp add: health_score_pos max_def field_simps)
  ultimately show ?thesis using assms(1) by (simp add: health_score_pos)
qed

text \<open>The budget score is the tighter of the two remaining shares: between 0 and 1 when
  what remains is within positive limits, zero exactly when one dimension is used up, and one
  exactly when both are untouched. Limits that are not positive score zero instead of
  dividing by zero.\<close>

theorem budget_score_shape:
  assumes "r \<le> rc" and "t \<le> tc"
  shows "0 \<le> budget_score r rc t tc \<and> budget_score r rc t tc \<le> 1 \<and>
    (budget_score r rc t tc = 0 \<longleftrightarrow> rc \<le> 0 \<or> tc \<le> 0 \<or> r \<le> 0 \<or> t \<le> 0) \<and>
    (budget_score r rc t tc = 1 \<longleftrightarrow> 0 < rc \<and> 0 < tc \<and> r = rc \<and> t = tc)"
proof (cases "rc \<le> 0 \<or> tc \<le> 0")
  case True
  then show ?thesis by (auto simp: budget_score_def)
next
  case False
  then have pos: "0 < rat_of_int rc" "0 < rat_of_int tc" by simp_all
  have share: "of_int x / of_int c \<le> (1 :: rat)" "of_int x / of_int c \<le> (0 :: rat) \<longleftrightarrow> x \<le> 0"
    "of_int x / of_int c = (1 :: rat) \<longleftrightarrow> x = c"
    if "0 < rat_of_int c" "x \<le> c" for x c
    using that by (auto simp: divide_le_eq)
  have max0: "max 0 y \<le> 1 \<longleftrightarrow> y \<le> 1" "max 0 y = 0 \<longleftrightarrow> y \<le> 0" "max 0 y = 1 \<longleftrightarrow> y = 1" for y :: rat
    by (auto simp: max_def)
  have min01: "min x y = 0 \<longleftrightarrow> x = 0 \<or> y = 0" "min x y = 1 \<longleftrightarrow> x = 1 \<and> y = 1"
    if "0 \<le> x" "0 \<le> y" "x \<le> 1" "y \<le> 1" for x y :: rat
    using that by (auto simp: min_def)
  let ?r = "max 0 (of_int r / of_int rc :: rat)" and ?t = "max 0 (of_int t / of_int tc :: rat)"
  have "0 \<le> ?r" "?r \<le> 1" "0 \<le> ?t" "?t \<le> 1"
    using share(1) [OF pos(1) assms(1)] share(1) [OF pos(2) assms(2)] by simp_all
  note b = this
  have "min ?r ?t = 0 \<longleftrightarrow> r \<le> 0 \<or> t \<le> 0"
    by (simp only: min01(1) [OF b(1,3,2,4)] max0 share(2) [OF pos(1) assms(1)]
        share(2) [OF pos(2) assms(2)])
  moreover have "min ?r ?t = 1 \<longleftrightarrow> r = rc \<and> t = tc"
    by (simp only: min01(2) [OF b(1,3,2,4)] max0 share(3) [OF pos(1) assms(1)]
        share(3) [OF pos(2) assms(2)])
  moreover have "0 \<le> min ?r ?t" "min ?r ?t \<le> 1" using b by (auto intro: min.coboundedI1)
  moreover have "budget_score r rc t tc = min ?r ?t" using False by (simp add: budget_score_def Let_def)
  ultimately show ?thesis using False by presburger
qed

section \<open>The properties on a tier of two\<close>

text \<open>A healthy candidate with twice the weight of a slow one, and one behind an open breaker.\<close>

definition demo_entry :: "string \<Rightarrow> string \<Rightarrow> rat \<Rightarrow> tier_entry" where
  "demo_entry p m base =
     \<lparr>te_provider = p, te_model = m, te_weight = base, te_rate_limits = \<lparr>rl_rpm = 60, rl_tpm = 6000\<rparr>\<rparr>"

definition demo_tier :: "tier_entry list" where
  "demo_tier =
     [demo_entry ''openai'' ''gpt-4o'' 1, demo_entry ''anthropic'' ''sonnet'' 1,
      demo_entry ''google'' ''gemini'' 1]"

definition demo_signals :: "rat \<Rightarrow> breaker_state \<Rightarrow> candidate_signals" where
  "demo_signals latency brk =
     \<lparr>cs_base_weight = 1, cs_error_rate = 0, cs_mean_latency_s = latency, cs_rpm_remaining = 60,
      cs_rpm_cap = 60, cs_tpm_remaining = 6000, cs_tpm_cap = 6000, cs_breaker = brk\<rparr>"

definition demo_cache :: signal_cache where
  "demo_cache =
     [(mk_ref (demo_entry ''openai'' ''gpt-4o'' 1), demo_signals 0 CLOSED),
      (mk_ref (demo_entry ''anthropic'' ''sonnet'' 1), demo_signals 3 CLOSED),
      (mk_ref (demo_entry ''google'' ''gemini'' 1), demo_signals 0 OPEN)]"

lemma demo_contenders:
  "contenders default_routing_config demo_cache {} demo_tier =
     [(mk_ref (demo_entry ''openai'' ''gpt-4o'' 1), 1),
      (mk_ref (demo_entry ''anthropic'' ''sonnet'' 1), 1 / 2)]"
  by code_simp

lemma demo_routing [simp]:
  "target_latency_s default_routing_config = 3" "min_weight_floor default_routing_config = 2 / 100"
  by (simp_all add: default_routing_config_def)

lemma pick_sound_complete_witness:
  "\<exists>c. fst (pick default_routing_config demo_cache demo_tier {} (\<lambda>w. (w, w)) (9 / 10)) = Inr (Some c) \<and>
     eligible default_routing_config demo_cache {} demo_tier c"
proof -
  have "fst (pick default_routing_config demo_cache demo_tier {} (\<lambda>w. (w, w)) (9 / 10)) =
      Inr (Some (mk_ref (demo_entry ''anthropic'' ''sonnet'' 1)))" by code_simp
  with pick_sound_complete [of default_routing_config "\<lambda>w. (w, w)" "9 / 10" demo_cache demo_tier "{}"]
  show ?thesis by auto
qed

lemma pick_is_proportional_witness:
  "fst (pick default_routing_config demo_cache demo_tier {} (\<lambda>w. (w, w)) (9 / 10)) =
     Inr (Some (mk_ref (demo_entry ''anthropic'' ''sonnet'' 1)))"
  using pick_is_proportional [of default_routing_config "\<lambda>w. (w, w)" "9 / 10 :: rat"
      "contenders default_routing_config demo_cache {} demo_tier" demo_cache "{}" demo_tier 1 "3 / 2"]
  unfolding demo_contenders by (simp add: cum_def mk_ref_inject demo_entry_def)

lemma health_score_shape_witness:
  "\<exists>h h'. health_score (1 / 10) 1 3 = Inr h \<and> health_score (1 / 2) 2 3 = Inr h' \<and> h' \<le> h"
  using health_score_shape [of 3 "1 / 10" "1 / 2" 1 2] by auto

lemma budget_score_shape_witness: "budget_score 30 60 6000 6000 \<le> 1 \<and> budget_score 0 60 5 6000 = 0"
  using budget_score_shape [of 30 60 6000 6000] budget_score_shape [of 0 60 5 6000] by simp

end
