(* ===== verification/Pricing.thy ===== *)
theory Pricing
  imports Models
begin

text \<open>
  \<open>gateway/pricing.py\<close>: the index built from the vendored price list and the cost of an
  attempt. The file is a parameter, already parsed: a list of named entries, where a value
  that is not an object is \<open>None\<close> and a missing or null field is \<open>None\<close>.
\<close>

record price_entry =
  pr_input_cost_per_token :: rat
  pr_output_cost_per_token :: rat
  pr_max_input_tokens :: "int option"

datatype max_input = Text string | Number rat

record price_info =
  pi_litellm_provider :: "string option"
  pi_input_cost :: "rat option"
  pi_output_cost :: "rat option"
  pi_max_input :: "max_input option"

type_synonym price_index = "(string \<times> string, price_entry) pydict"

text \<open>The table; \<open>pt_warned\<close> are the pairs a warning was logged for.\<close>

record pricing_table =
  pt_index :: price_index
  pt_warned :: "(string \<times> string) set"

definition PROVIDER_LITELLM_MAP :: "(string, string list) pydict" where
  "PROVIDER_LITELLM_MAP =
     [(''openai'', [''openai'']), (''anthropic'', [''anthropic'']),
      (''google'', [''vertex_ai-language-models'', ''vertex_ai''])]"

definition has_price :: "pricing_table \<Rightarrow> string \<Rightarrow> string \<Rightarrow> bool" where
  "has_price pt p m \<longleftrightarrow> map_of (pt_index pt) (p, m) \<noteq> None"

definition cost_usd :: "pricing_table \<Rightarrow> string \<Rightarrow> string \<Rightarrow> int \<Rightarrow> int \<Rightarrow> rat \<times> pricing_table" where
  "cost_usd pt p m input_tokens output_tokens =
     (case map_of (pt_index pt) (p, m) of
        None \<Rightarrow> (0, pt\<lparr>pt_warned := insert (p, m) (pt_warned pt)\<rparr>)
      | Some e \<Rightarrow>
          (of_int input_tokens * pr_input_cost_per_token e
           + of_int output_tokens * pr_output_cost_per_token e, pt))"

definition context_window :: "pricing_table \<Rightarrow> string \<Rightarrow> string \<Rightarrow> int option" where
  "context_window pt p m =
     (case map_of (pt_index pt) (p, m) of None \<Rightarrow> None | Some e \<Rightarrow> pr_max_input_tokens e)"

definition litellm_to_ours :: "(string, string) pydict" where
  "litellm_to_ours =
     fold (\<lambda>(ours, lps) d. fold (\<lambda>lp d. dict_setdefault lp ours d) lps d) PROVIDER_LITELLM_MAP []"

text \<open>The body of the loop over the file's entries: what it adds to the index, if anything.\<close>

definition index_entry :: "string \<Rightarrow> price_info option \<Rightarrow> ((string \<times> string) \<times> price_entry) option" where
  "index_entry model_key info =
     (if model_key = ''sample_spec'' then None
      else case info of
        None \<Rightarrow> None
      | Some i \<Rightarrow>
          (case map_of litellm_to_ours
                  (case pi_litellm_provider i of None \<Rightarrow> '''' | Some lp \<Rightarrow> lp) of
             None \<Rightarrow> None
           | Some ours \<Rightarrow>
               (case (pi_input_cost i, pi_output_cost i) of
                  (Some ic, Some oc) \<Rightarrow>
                    Some ((ours, model_key),
                      \<lparr>pr_input_cost_per_token = ic, pr_output_cost_per_token = oc,
                       pr_max_input_tokens =
                         (case pi_max_input i of Some (Number n) \<Rightarrow> Some (py_int n) | _ \<Rightarrow> None)\<rparr>)
                | _ \<Rightarrow> None)))"

definition build_index :: "(string, price_info option) pydict \<Rightarrow> price_index" where
  "build_index raw =
     fold (\<lambda>(k, info) idx.
         case index_entry k info of None \<Rightarrow> idx | Some (key, e) \<Rightarrow> AList.update key e idx)
       raw []"

definition load_pricing :: "(string, price_info option) pydict \<Rightarrow> pricing_table" where
  "load_pricing raw = \<lparr>pt_index = build_index raw, pt_warned = {}\<rparr>"

section \<open>Lemmas\<close>

lemma litellm_to_ours_eq:
  "litellm_to_ours =
     [(''openai'', ''openai''), (''anthropic'', ''anthropic''),
      (''vertex_ai-language-models'', ''google''), (''vertex_ai'', ''google'')]"
  by code_simp

lemma index_entry_key: "index_entry k info = Some ((p, m), e) \<Longrightarrow> m = k"
  by (auto simp: index_entry_def split: if_splits option.splits)

lemma no_empty_label [simp]: "map_of litellm_to_ours '''' = None"
  by (simp add: litellm_to_ours_eq)

definition index_add :: "string \<times> price_info option \<Rightarrow> price_index \<Rightarrow> price_index" where
  "index_add kv idx =
     (case index_entry (fst kv) (snd kv) of None \<Rightarrow> idx | Some (key, e) \<Rightarrow> AList.update key e idx)"

lemma build_index_fold: "build_index raw = fold index_add raw []"
  unfolding build_index_def index_add_def by (rule arg_cong [where f = "\<lambda>f. fold f raw []"]) auto

lemma map_of_index_add:
  "map_of (index_add (k, info) idx) (p, m) =
     (case index_entry k info of
        Some (key, e) \<Rightarrow> if key = (p, m) then Some e else map_of idx (p, m)
      | None \<Rightarrow> map_of idx (p, m))"
  by (auto simp: index_add_def split: option.split)

lemma map_of_build:
  "\<lbrakk>distinct (map fst raw); \<And>p m. m \<in> fst ` set raw \<Longrightarrow> map_of idx (p, m) = None\<rbrakk> \<Longrightarrow>
   map_of (fold index_add raw idx) (p, m) =
   (case map_of raw m of
      None \<Rightarrow> map_of idx (p, m)
    | Some info \<Rightarrow> (case index_entry m info of
          Some (key, e) \<Rightarrow> if key = (p, m) then Some e else None
        | None \<Rightarrow> None))"
proof (induction raw arbitrary: idx)
  case (Cons kv raw)
  obtain k info where kv: "kv = (k, info)" by (cases kv)
  have other: "map_of (index_add kv idx) (q, m') = map_of idx (q, m')" if "m' \<noteq> k" for q m'
    using that by (auto simp: kv map_of_index_add dest: index_entry_key split: option.split)
  have k: "k \<notin> fst ` set raw" "map_of raw k = None"
    using Cons.prems(1) by (simp_all add: kv map_of_eq_None_iff)
  have fresh: "map_of (index_add kv idx) (q, m') = None" if "m' \<in> fst ` set raw" for q m'
    using that k(1) Cons.prems(2) other by (metis image_insert insertI2 list.simps(15))
  have "map_of (fold index_add (kv # raw) idx) (p, m) =
      (case map_of raw m of
        None \<Rightarrow> map_of (index_add kv idx) (p, m)
      | Some info \<Rightarrow> (case index_entry m info of
            Some (key, e) \<Rightarrow> if key = (p, m) then Some e else None
          | None \<Rightarrow> None))"
    using Cons.IH [of "index_add kv idx"] Cons.prems(1) fresh by simp
  then show ?case
    using other [of m p] k(2) Cons.prems(2) [of k p]
    by (cases "m = k") (auto simp: kv map_of_index_add split: option.split)
qed simp

section \<open>Properties\<close>

text \<open>A pair has a price exactly when the file has an entry of that model name, other than
  the sample, whose vendor label maps to the provider and which has both prices; the cost of
  an attempt is then tokens times those prices, and 0 for every other pair.\<close>

theorem cost_from_file:
  assumes "distinct (map fst raw)"
  shows "fst (cost_usd (load_pricing raw) p m i n) =
    (case map_of raw m of
       Some (Some info) \<Rightarrow>
         (case (pi_litellm_provider info, pi_input_cost info, pi_output_cost info) of
            (Some lp, Some ic, Some oc) \<Rightarrow>
              if m \<noteq> ''sample_spec'' \<and> map_of litellm_to_ours lp = Some p
              then of_int i * ic + of_int n * oc else 0
          | _ \<Rightarrow> 0)
     | _ \<Rightarrow> 0)"
  using map_of_build [OF assms, of "[]" p m]
  by (auto simp: cost_usd_def load_pricing_def build_index_fold index_entry_def
      split: option.splits if_splits)

text \<open>With prices that are not negative, the cost of an attempt is never negative, which is
  what the attempt record requires, and it grows with the tokens.\<close>

theorem cost_nonneg_mono:
  assumes "\<And>e. map_of (pt_index pt) (p, m) = Some e \<Longrightarrow>
      0 \<le> pr_input_cost_per_token e \<and> 0 \<le> pr_output_cost_per_token e"
    and "0 \<le> i" and "i \<le> i'" and "0 \<le> n" and "n \<le> n'"
  shows "0 \<le> fst (cost_usd pt p m i n) \<and> fst (cost_usd pt p m i n) \<le> fst (cost_usd pt p m i' n')"
  using assms by (auto simp: cost_usd_def intro!: add_mono mult_right_mono split: option.split)

definition demo_prices :: "(string, price_info option) pydict" where
  "demo_prices =
     [(''sample_spec'', None),
      (''gpt-4o'', Some \<lparr>pi_litellm_provider = Some ''openai'', pi_input_cost = Some (1 / 400000),
        pi_output_cost = Some (1 / 100000), pi_max_input = Some (Number 128000)\<rparr>)]"

lemma cost_from_file_witness:
  "fst (cost_usd (load_pricing demo_prices) ''openai'' ''gpt-4o'' 1000 500) = 3 / 400"
proof -
  have "distinct (map fst demo_prices)" by (simp add: demo_prices_def)
  from cost_from_file [OF this, of "''openai''" "''gpt-4o''" 1000 500] show ?thesis
    by (simp add: demo_prices_def litellm_to_ours_eq)
qed

lemma cost_nonneg_mono_witness:
  "0 \<le> fst (cost_usd (load_pricing demo_prices) ''openai'' ''gpt-4o'' 1000 500)"
proof -
  have "map_of (pt_index (load_pricing demo_prices)) (''openai'', ''gpt-4o'') = Some e \<Longrightarrow>
      0 \<le> pr_input_cost_per_token e \<and> 0 \<le> pr_output_cost_per_token e" for e
    by (auto simp: load_pricing_def build_index_def demo_prices_def index_entry_def
        litellm_to_ours_eq)
  from cost_nonneg_mono [where i = 1000 and i' = 1000 and n = 500 and n' = 500, OF this] show ?thesis by simp
qed

end
