(* ===== verification/Router.thy ===== *)
theory Router
  imports Errors Observe TokenBucket Weights Pricing
begin

text \<open>
  \<open>gateway/router.py\<close>: the failover loop. The world \<open>'w\<close> holds everything that moves while
  a request is served: Redis, the clocks, the engine's cache (rebuilt by the refresh task
  between two awaits), the random generator and the vendors' services.
\<close>

section \<open>Text\<close>

text \<open>
  \<open>repr\<close> of a string of Latin-1 characters: the quote that does not occur, backslash
  escapes, and \<open>\xNN\<close> for what is not printable.
\<close>

definition hex_digit :: "nat \<Rightarrow> char" where
  "hex_digit n = (if n < 10 then char_of (48 + n) else char_of (87 + n))"

definition repr_char :: "char \<Rightarrow> char \<Rightarrow> string" where
  "repr_char quote c =
     (let n = (of_char c :: nat)
      in if c = quote \<or> n = 92 then [char_of (92 :: nat), c]
         else if n = 9 then [char_of (92 :: nat), CHR ''t'']
         else if n = 10 then [char_of (92 :: nat), CHR ''n'']
         else if n = 13 then [char_of (92 :: nat), CHR ''r'']
         else if n < 32 \<or> (127 \<le> n \<and> n \<le> 160) \<or> n = 173
         then [char_of (92 :: nat), CHR ''x'', hex_digit (n div 16), hex_digit (n mod 16)]
         else [c])"

definition py_repr :: "string \<Rightarrow> string" where
  "py_repr s =
     (let single = char_of (39 :: nat); double = char_of (34 :: nat);
          quote = (if single \<in> set s \<and> double \<notin> set s then double else single)
      in quote # concat (map (repr_char quote) s) @ [quote])"

section \<open>Results\<close>

datatype router_error_kind =
  RK_INVALID_REQUEST | RK_AUTH | RK_UPSTREAM_UNAVAILABLE | RK_DEADLINE_EXCEEDED

record router_error =
  re_kind :: router_error_kind
  re_body :: error_body
  re_tried :: "(candidate_ref \<times> string) list"

record router_result =
  rr_response :: chat_response
  rr_attempts :: "attempt_record list"

text \<open>
  How \<open>route\<close> ends: it returns, it raises a \<open>RouterError\<close>, or another exception escapes.
\<close>

datatype route_outcome = Routed router_result | Refused router_error | Escaped py_exn

text \<open>What a vendor's \<open>chat\<close> does: returns, raises a \<open>ProviderError\<close>, or anything else.\<close>

datatype vendor_reply = Replied chat_result | Provider_failed provider_error | Crashed py_exn

type_synonym 'w vendor =
  "string \<Rightarrow> message list \<Rightarrow> chat_params \<Rightarrow> rat \<Rightarrow> 'w \<Rightarrow> vendor_reply \<times> 'w"

definition STATUS_FOR_ERROR_KIND :: "(error_class, string) pydict" where
  "STATUS_FOR_ERROR_KIND =
     [(RateLimited, ''rate_limited''), (Transient5xx, ''transient_5xx''), (Timeout, ''timeout''),
      (BadRequest, ''bad_request''), (AuthError, ''auth''), (ContentFiltered, ''content_filtered'')]"

definition status_for :: "error_class \<Rightarrow> string" where
  "status_for c = (case map_of STATUS_FOR_ERROR_KIND c of Some s \<Rightarrow> s | None \<Rightarrow> ''transient_5xx'')"

section \<open>The router and one request\<close>

record 'w router =
  rt_config :: config
  rt_vendors :: "(string, 'w vendor) pydict"
  rt_engine_routing :: routing_config
  rt_engine_cache :: "'w \<Rightarrow> signal_cache"
  rt_bucket :: "'w token_bucket"
  rt_observer :: "'w observer"
  rt_rng :: "'w clock"
  rt_now :: "'w clock"
  rt_uuid4_hex :: "'w \<Rightarrow> string \<times> 'w"
  rt_total_budget_s :: rat
  rt_per_attempt_max_s :: rat
  rt_buffer_s :: rat
  rt_pricing :: pricing_table

text \<open>The locals that are set before the loop.\<close>

record route_ctx =
  rx_tier :: string
  rx_candidates :: "tier_entry list"
  rx_caller :: caller
  rx_messages :: "message list"
  rx_deadline :: rat
  rx_params :: chat_params
  rx_est :: int
  rx_request_id :: string
  rx_client_trace_id :: "string option"

text \<open>The locals the loop changes.\<close>

record route_state =
  rs_exclude :: "candidate_ref set"
  rs_tried :: "(candidate_ref \<times> string) list"
  rs_attempts :: "attempt_record list"

definition mk_record ::
    "'w router \<Rightarrow> route_ctx \<Rightarrow> candidate_ref \<Rightarrow> int \<Rightarrow> rat \<Rightarrow> string \<Rightarrow> int \<Rightarrow> int \<Rightarrow> string option \<Rightarrow>
     attempt_record pyres" where
  "mk_record rt cx cand attempt_idx latency_s status input_tokens output_tokens vendor_req_id =
     (let cost = fst (cost_usd (rt_pricing rt) (ca_provider cand) (ca_model cand) input_tokens
                        output_tokens)
      in mk_attempt_record
           \<lparr>ar_request_id = rx_request_id cx, ar_caller = cl_name (rx_caller cx),
            ar_tier = rx_tier cx, ar_provider = ca_provider cand, ar_model = ca_model cand,
            ar_attempt_idx = attempt_idx, ar_input_tokens = input_tokens,
            ar_output_tokens = output_tokens, ar_cost_usd = cost,
            ar_latency_ms = max 0 (py_int (latency_s * 1000)), ar_status = status,
            ar_vendor_req_id = vendor_req_id, ar_client_trace_id = rx_client_trace_id cx\<rparr>)"

definition exhausted :: "route_state \<Rightarrow> route_outcome" where
  "exhausted st =
     Refused \<lparr>re_kind = RK_UPSTREAM_UNAVAILABLE,
       re_body = \<lparr>eb_type = ''upstream_unavailable'', eb_message = ''all candidates exhausted'',
                  eb_retryable = True\<rparr>,
       re_tried = rs_tried st\<rparr>"

definition deadline_exceeded :: "route_state \<Rightarrow> route_outcome" where
  "deadline_exceeded st =
     Refused \<lparr>re_kind = RK_DEADLINE_EXCEEDED,
       re_body = \<lparr>eb_type = ''deadline_exceeded'', eb_message = ''ran out of budget mid-failover'',
                  eb_retryable = True\<rparr>,
       re_tried = rs_tried st\<rparr>"

definition give_up_on :: "candidate_ref \<Rightarrow> string \<Rightarrow> route_state \<Rightarrow> route_state" where
  "give_up_on c status st =
     st\<lparr>rs_tried := rs_tried st @ [(c, status)], rs_exclude := insert c (rs_exclude st)\<rparr>"

section \<open>An attempt's outcome\<close>

datatype step_result = Finish route_outcome | Again route_state

text \<open>The \<open>except ProviderError\<close> branch; \<open>elapsed\<close> is the time since \<open>t0\<close>.\<close>

definition on_provider_error ::
    "'w router \<Rightarrow> route_ctx \<Rightarrow> route_state \<Rightarrow> candidate_ref \<Rightarrow> rat \<Rightarrow> provider_error \<Rightarrow> 'w \<Rightarrow>
     step_result \<times> 'w" where
  "on_provider_error rt cx st cand elapsed e w =
     (let status = status_for (pe_class e)
      in case mk_record rt cx cand (int (length (rs_attempts st))) elapsed status 0 0 None of
           Inl x \<Rightarrow> (Finish (Escaped x), w)
         | Inr rec \<Rightarrow>
             (let st = st\<lparr>rs_attempts := rs_attempts st @ [rec]\<rparr>;
                  w = obs_record_failure (rt_observer rt) cand (class_name (pe_class e)) w
              in if pe_class e \<in> set NON_RETRYABLE_ERROR_TYPES
                 then (let (http_status, body) = caller_error_for e
                       in (Finish (Refused
                             \<lparr>re_kind = (if http_status = 400 then RK_INVALID_REQUEST else RK_AUTH),
                              re_body = body, re_tried = rs_tried st @ [(cand, status)]\<rparr>), w))
                 else (Again (give_up_on cand status st), w)))"

text \<open>
  What the tokens and the text of a reply become. \<open>Usage\<close> takes counts that are not
  negative, as \<open>ChatResult\<close> does; \<open>Message\<close> limits the text.
\<close>

definition mk_response :: "route_ctx \<Rightarrow> chat_result \<Rightarrow> chat_response pyres" where
  "mk_response cx result =
     rbind (mk_message Assistant (cr_text result)) (\<lambda>msg.
       if cr_input_tokens result < 0 \<or> cr_output_tokens result < 0
       then Inl (ValidationError ''Usage'')
       else Inr
         \<lparr>rs_id = rx_request_id cx, rs_model = rx_tier cx,
          rs_choices = [\<lparr>ch_index = 0, ch_message = msg, ch_finish_reason = cr_finish_reason result\<rparr>],
          rs_usage =
            \<lparr>us_prompt_tokens = cr_input_tokens result,
             us_completion_tokens = cr_output_tokens result,
             us_total_tokens = cr_input_tokens result + cr_output_tokens result\<rparr>\<rparr>)"

definition on_result ::
    "'w router \<Rightarrow> route_ctx \<Rightarrow> route_state \<Rightarrow> candidate_ref \<Rightarrow> rat \<Rightarrow> chat_result \<Rightarrow> 'w \<Rightarrow>
     step_result \<times> 'w" where
  "on_result rt cx st cand elapsed result w =
     (let w = obs_record_success (rt_observer rt) cand elapsed w
      in case mk_record rt cx cand (int (length (rs_attempts st))) elapsed ''ok''
                (cr_input_tokens result) (cr_output_tokens result) (cr_vendor_request_id result) of
           Inl x \<Rightarrow> (Finish (Escaped x), w)
         | Inr rec \<Rightarrow>
             (case mk_response cx result of
                Inl x \<Rightarrow> (Finish (Escaped x), w)
              | Inr response \<Rightarrow>
                  (Finish (Routed \<lparr>rr_response = response, rr_attempts = rs_attempts st @ [rec]\<rparr>), w)))"

section \<open>The loop\<close>

definition attempt_timeout :: "'w router \<Rightarrow> rat \<Rightarrow> rat" where
  "attempt_timeout rt left_s =
     min (max (1 / 10) (left_s - rt_buffer_s rt)) (rt_per_attempt_max_s rt)"

text \<open>From a successful acquire on: the clock, the vendor and its call.\<close>

definition call_vendor ::
    "'w router \<Rightarrow> route_ctx \<Rightarrow> route_state \<Rightarrow> candidate_ref \<Rightarrow> rat \<Rightarrow> 'w \<Rightarrow> step_result \<times> 'w" where
  "call_vendor rt cx st cand timeout w =
     (let (t0, w) = rt_now rt w
      in case map_of (rt_vendors rt) (ca_provider cand) of
           None \<Rightarrow> (Again (give_up_on cand ''vendor_missing'' st), w)
         | Some chat \<Rightarrow>
             (let (reply, w) = chat (ca_model cand) (rx_messages cx) (rx_params cx) timeout w
              in case reply of
                   Crashed x \<Rightarrow> (Finish (Escaped x), w)
                 | Provider_failed e \<Rightarrow>
                     (let (t1, w) = rt_now rt w in on_provider_error rt cx st cand (t1 - t0) e w)
                 | Replied result \<Rightarrow>
                     (let (t1, w) = rt_now rt w in on_result rt cx st cand (t1 - t0) result w)))"

text \<open>One round of \<open>while True\<close>.\<close>

definition route_step :: "'w router \<Rightarrow> route_ctx \<Rightarrow> route_state \<Rightarrow> 'w \<Rightarrow> step_result \<times> 'w" where
  "route_step rt cx st w =
     (let (now, w) = rt_now rt w;
          left_s = rx_deadline cx - now
      in if left_s < 3 / 2
         then (Finish (if rs_attempts st \<noteq> [] then deadline_exceeded st else exhausted st), w)
         else
           (case pick (rt_engine_routing rt) (rt_engine_cache rt w) (rx_candidates cx)
                   (rs_exclude st) (rt_rng rt) w of
              (Inl x, w) \<Rightarrow> (Finish (Escaped x), w)
            | (Inr None, w) \<Rightarrow> (Finish (exhausted st), w)
            | (Inr (Some cand), w) \<Rightarrow>
                (case try_acquire (rt_bucket rt) (ca_provider cand) (ca_model cand) (rx_est cx) w of
                   (Inl x, w) \<Rightarrow> (Finish (Escaped x), w)
                 | (Inr (ok, _, _), w) \<Rightarrow>
                     if \<not> ok then (Again (give_up_on cand ''bucket_empty'' st), w)
                     else call_vendor rt cx st cand (attempt_timeout rt left_s) w)))"

lemma call_vendor_again:
  assumes "call_vendor rt cx st cand timeout w = (Again st', w')"
  shows "\<exists>s. rs_exclude st' = insert cand (rs_exclude st) \<and> rs_tried st' = rs_tried st @ [(cand, s)]"
  using assms
  by (auto simp: call_vendor_def on_provider_error_def on_result_def give_up_on_def Let_def
      split: prod.splits option.splits vendor_reply.splits sum.splits if_splits)

text \<open>A round that goes on has tried one candidate more, one that was not excluded before.\<close>

lemma route_step_again:
  assumes "route_step rt cx st w = (Again st', w')"
  shows "\<exists>c s. c \<in> mk_ref ` set (rx_candidates cx) \<and> c \<notin> rs_exclude st \<and>
    rs_exclude st' = insert c (rs_exclude st) \<and> rs_tried st' = rs_tried st @ [(c, s)]"
  using assms
  by (auto simp: route_step_def give_up_on_def Let_def
      split: prod.splits option.splits sum.splits if_splits
      dest!: call_vendor_again engine.draw_sound)

lemma route_step_measure:
  assumes "route_step rt cx st w = (Again st', w')"
  shows "card (mk_ref ` set (rx_candidates cx) - rs_exclude st') <
    card (mk_ref ` set (rx_candidates cx) - rs_exclude st)"
  using route_step_again [OF assms] by (auto intro!: psubset_card_mono)

function route_loop :: "'w router \<Rightarrow> route_ctx \<Rightarrow> route_state \<Rightarrow> 'w \<Rightarrow> route_outcome \<times> 'w" where
  "route_loop rt cx st w =
     (case route_step rt cx st w of
        (Finish out, w) \<Rightarrow> (out, w)
      | (Again st, w) \<Rightarrow> route_loop rt cx st w)"
  by pat_completeness auto
termination
  by (relation "measure (\<lambda>(rt, cx, st, w). card (mk_ref ` set (rx_candidates cx) - rs_exclude st))")
    (auto dest!: route_step_measure [OF sym])

declare route_loop.simps [simp del]

text \<open>The locals \<open>route\<close> sets for a known tier, from the first clock reading and the new id.\<close>

definition start_ctx ::
    "'w router \<Rightarrow> chat_request \<Rightarrow> caller \<Rightarrow> tier_config \<Rightarrow> rat \<Rightarrow> chat_params \<Rightarrow> string \<Rightarrow> route_ctx"
  where
  "start_ctx rt req caller tc now params request_id =
     (let prompt_chars = int (content_size (rq_messages req));
          raw_trace = (case rq_metadata req of
              None \<Rightarrow> None
            | Some md \<Rightarrow> map_of md ''request_id'')
      in \<lparr>rx_tier = rq_model req, rx_candidates = tc_candidates tc, rx_caller = caller,
          rx_messages = rq_messages req, rx_deadline = now + rt_total_budget_s rt,
          rx_params = params, rx_est = estimate_tokens prompt_chars (rq_max_tokens req),
          rx_request_id = request_id, rx_client_trace_id = map_option (take 128) raw_trace\<rparr>)"

definition start_state :: route_state where
  "start_state = \<lparr>rs_exclude = {}, rs_tried = [], rs_attempts = []\<rparr>"

definition route :: "'w router \<Rightarrow> chat_request \<Rightarrow> caller \<Rightarrow> 'w \<Rightarrow> route_outcome \<times> 'w" where
  "route rt req caller w =
     (let tier = rq_model req
      in case map_of (cfg_tiers (rt_config rt)) tier of
           None \<Rightarrow>
             (Refused \<lparr>re_kind = RK_INVALID_REQUEST,
                re_body = \<lparr>eb_type = ''invalid_request'',
                           eb_message = ''unknown tier '' @ py_repr tier, eb_retryable = False\<rparr>,
                re_tried = []\<rparr>, w)
         | Some tc \<Rightarrow>
             (let (now, w) = rt_now rt w
              in case mk_chat_params (rq_max_tokens req) (rq_temperature req) (rq_top_p req) of
                   Inl x \<Rightarrow> (Escaped x, w)
                 | Inr params \<Rightarrow>
                     (let (request_id, w) = rt_uuid4_hex rt w
                      in route_loop rt (start_ctx rt req caller tc now params request_id)
                           start_state w)))"

lemma start_ctx_sel [simp]:
  "rx_tier (start_ctx rt req caller tc now params i) = rq_model req"
  "rx_candidates (start_ctx rt req caller tc now params i) = tc_candidates tc"
  "rx_caller (start_ctx rt req caller tc now params i) = caller"
  "rx_messages (start_ctx rt req caller tc now params i) = rq_messages req"
  "rx_deadline (start_ctx rt req caller tc now params i) = now + rt_total_budget_s rt"
  "rx_params (start_ctx rt req caller tc now params i) = params"
  "rx_request_id (start_ctx rt req caller tc now params i) = i"
  by (simp_all add: start_ctx_def Let_def)

text \<open>The loop a request with a known tier runs.\<close>

lemma route_starts:
  assumes "map_of (cfg_tiers (rt_config rt)) (rq_model req) = Some tc" and "0 < rq_max_tokens req"
  obtains now params request_id v where "now = fst (rt_now rt w)"
    "params = \<lparr>cp_max_tokens = rq_max_tokens req, cp_temperature = rq_temperature req,
      cp_top_p = rq_top_p req\<rparr>"
    "route rt req caller w = route_loop rt (start_ctx rt req caller tc now params request_id) start_state v"
  using assms that by (simp add: route_def mk_chat_params_def split_beta Let_def)

text \<open>A round that reaches a vendor, one call after the other.\<close>

lemma route_step_call:
  assumes "rt_now rt w = (now, w1)" and "3 / 2 \<le> rx_deadline cx - now"
    and "pick (rt_engine_routing rt) (rt_engine_cache rt w1) (rx_candidates cx) (rs_exclude st)
      (rt_rng rt) w1 = (Inr (Some c), w2)"
    and "try_acquire (rt_bucket rt) (ca_provider c) (ca_model c) (rx_est cx) w2 =
      (Inr (True, rpm, tpm), w3)"
  shows "route_step rt cx st w = call_vendor rt cx st c (attempt_timeout rt (rx_deadline cx - now)) w3"
  using assms by (simp add: route_step_def not_less)

lemma call_vendor_failed:
  assumes "rt_now rt w = (t0, v)" and "map_of (rt_vendors rt) (ca_provider c) = Some chat"
    and "chat (ca_model c) (rx_messages cx) (rx_params cx) timeout v = (Provider_failed e, u)"
    and "rt_now rt u = (t1, u1)"
  shows "call_vendor rt cx st c timeout w = on_provider_error rt cx st c (t1 - t0) e u1"
  using assms by (simp add: call_vendor_def)

lemma call_vendor_replied:
  assumes "rt_now rt w = (t0, v)" and "map_of (rt_vendors rt) (ca_provider c) = Some chat"
    and "chat (ca_model c) (rx_messages cx) (rx_params cx) timeout v = (Replied result, u)"
    and "rt_now rt u = (t1, u1)"
  shows "call_vendor rt cx st c timeout w = on_result rt cx st c (t1 - t0) result u1"
  using assms by (simp add: call_vendor_def)

section \<open>The rounds as a state machine\<close>

text \<open>
  What one round can do, without the clocks, the pick, the bucket and the vendor that decide
  which: the possible results of a round for a given loop state.
\<close>

definition fresh_candidate :: "route_ctx \<Rightarrow> route_state \<Rightarrow> candidate_ref \<Rightarrow> bool" where
  "fresh_candidate cx st c \<longleftrightarrow> c \<in> mk_ref ` set (rx_candidates cx) \<and> c \<notin> rs_exclude st"

definition router_error_of :: "provider_error \<Rightarrow> router_error_kind" where
  "router_error_of e = (if fst (caller_error_for e) = 400 then RK_INVALID_REQUEST else RK_AUTH)"

inductive round_result :: "'w router \<Rightarrow> route_ctx \<Rightarrow> route_state \<Rightarrow> step_result \<Rightarrow> bool"
  for rt cx st where
  out_of_time: "rs_attempts st \<noteq> [] \<Longrightarrow> round_result rt cx st (Finish (deadline_exceeded st))"
| out_of_candidates: "round_result rt cx st (Finish (exhausted st))"
| escaped: "round_result rt cx st (Finish (Escaped x))"
| skipped: "fresh_candidate cx st c \<Longrightarrow> s = ''bucket_empty'' \<or> s = ''vendor_missing'' \<Longrightarrow>
    round_result rt cx st (Again (give_up_on c s st))"
| failed: "fresh_candidate cx st c \<Longrightarrow> pe_class (e :: provider_error) \<notin> set NON_RETRYABLE_ERROR_TYPES \<Longrightarrow>
    mk_record rt cx c (int (length (rs_attempts st))) elapsed (status_for (pe_class e)) 0 0 None = Inr rec \<Longrightarrow>
    round_result rt cx st (Again (give_up_on c (status_for (pe_class e))
      (st\<lparr>rs_attempts := rs_attempts st @ [rec]\<rparr>)))"
| refused: "fresh_candidate cx st c \<Longrightarrow> pe_class e \<in> set NON_RETRYABLE_ERROR_TYPES \<Longrightarrow>
    round_result rt cx st (Finish (Refused
      \<lparr>re_kind = router_error_of e, re_body = snd (caller_error_for e),
       re_tried = rs_tried st @ [(c, status_for (pe_class e))]\<rparr>))"
| answered: "fresh_candidate cx st c \<Longrightarrow>
    mk_record rt cx c (int (length (rs_attempts st))) elapsed ''ok'' (cr_input_tokens result)
      (cr_output_tokens result) (cr_vendor_request_id result) = Inr rec \<Longrightarrow>
    mk_response cx result = Inr response \<Longrightarrow>
    round_result rt cx st (Finish (Routed \<lparr>rr_response = response, rr_attempts = rs_attempts st @ [rec]\<rparr>))"

lemma refusals [simp]:
  "Routed res \<noteq> exhausted st" "Routed res \<noteq> deadline_exceeded st"
  "Escaped x \<noteq> exhausted st" "Escaped x \<noteq> deadline_exceeded st"
  by (simp_all add: exhausted_def deadline_exceeded_def)

inductive_cases round_result_AgainE: "round_result rt cx st (Again st')"
inductive_cases round_result_RoutedE: "round_result rt cx st (Finish (Routed res))"
inductive_cases round_result_RefusedE: "round_result rt cx st (Finish (Refused e))"

lemma on_provider_error_round:
  assumes "fresh_candidate cx st c" and "on_provider_error rt cx st c elapsed e w = (r, w')"
  shows "round_result rt cx st r"
  using assms round_result.failed [of cx st c e rt elapsed] round_result.refused [of cx st c e rt]
  by (auto simp: on_provider_error_def router_error_of_def split_beta Let_def round_result.escaped
      split: sum.splits if_splits)

lemma on_result_round:
  assumes "fresh_candidate cx st c" and "on_result rt cx st c elapsed result w = (r, w')"
  shows "round_result rt cx st r"
  using assms round_result.answered [of cx st c rt elapsed result]
  by (auto simp: on_result_def Let_def round_result.escaped split: sum.splits)

lemma call_vendor_round:
  assumes "fresh_candidate cx st c" and "call_vendor rt cx st c timeout w = (r, w')"
  shows "round_result rt cx st r"
  using assms(2) on_provider_error_round [OF assms(1)] on_result_round [OF assms(1)]
    round_result.skipped [OF assms(1), of "''vendor_missing''" rt]
  by (auto simp: call_vendor_def Let_def round_result.escaped
      split: prod.splits option.splits vendor_reply.splits)

lemma route_step_round:
  assumes "route_step rt cx st w = (r, w')"
  shows "round_result rt cx st r"
proof -
  obtain now w1 where now: "rt_now rt w = (now, w1)" by force
  let ?left = "rx_deadline cx - now"
  show ?thesis
  proof (cases "?left < 3 / 2")
    case True
    with assms now round_result.out_of_time [of st rt cx] round_result.out_of_candidates [of rt cx st]
    show ?thesis by (auto simp: route_step_def)
  next
    case False
    let ?pick = "pick (rt_engine_routing rt) (rt_engine_cache rt w1) (rx_candidates cx)
      (rs_exclude st) (rt_rng rt) w1"
    obtain res w2 where pick: "?pick = (res, w2)" by force
    consider (esc) x where "res = Inl x" | (none) "res = Inr None" | (cand) c where "res = Inr (Some c)"
      by (metis option.exhaust sum.exhaust)
    then show ?thesis
    proof cases
      case cand
      have fresh: "fresh_candidate cx st c"
        using engine.draw_sound pick cand by (fastforce simp: fresh_candidate_def)
      obtain got w3 where got: "try_acquire (rt_bucket rt) (ca_provider c) (ca_model c) (rx_est cx) w2
          = (got, w3)" by force
      show ?thesis
        using assms False now pick cand got call_vendor_round [OF fresh] round_result.skipped [OF fresh, of "''bucket_empty''" rt]
        by (auto simp: route_step_def round_result.escaped split: sum.splits prod.splits if_splits)
    qed (use assms False now pick in \<open>auto simp: route_step_def round_result.escaped round_result.out_of_candidates\<close>)
  qed
qed

text \<open>A property of the loop state that every round keeps holds when the last round starts.\<close>

lemma route_loop_last_round:
  assumes "route_loop rt cx st w = (out, w')" and "P st"
    and "\<And>st w st' w'. P st \<Longrightarrow> route_step rt cx st w = (Again st', w') \<Longrightarrow> P st'"
  shows "\<exists>st' v. P st' \<and> route_step rt cx st' v = (Finish out, w')"
  using assms
proof (induction rt cx st w rule: route_loop.induct)
  case (1 rt cx st w)
  obtain r w1 where r: "route_step rt cx st w = (r, w1)" by force
  show ?case
  proof (cases r)
    case (Finish out')
    with 1(2,3) r show ?thesis by (auto simp: route_loop.simps [of rt cx st w])
  next
    case (Again st1)
    with 1(2) r have "route_loop rt cx st1 w1 = (out, w')"
      by (simp add: route_loop.simps [of rt cx st w])
    with 1 r Again show ?thesis by metis
  qed
qed

section \<open>The invariant of the loop\<close>

abbreviation retryable_status :: "string \<Rightarrow> bool" where
  "retryable_status s \<equiv> s \<in> {''rate_limited'', ''transient_5xx'', ''timeout''}"

definition attempt_ref :: "attempt_record \<Rightarrow> candidate_ref" where
  "attempt_ref a = \<lparr>ca_provider = ar_provider a, ca_model = ar_model a\<rparr>"

text \<open>A record of this request, for one of the tier's candidates.\<close>

definition attempt_of :: "route_ctx \<Rightarrow> attempt_record \<Rightarrow> bool" where
  "attempt_of cx a \<longleftrightarrow>
     ar_request_id a = rx_request_id cx \<and> ar_caller a = cl_name (rx_caller cx) \<and>
     ar_tier a = rx_tier cx \<and> ar_client_trace_id a = rx_client_trace_id cx \<and>
     attempt_ref a \<in> mk_ref ` set (rx_candidates cx) \<and> valid_attempt_record a"

definition failed_attempt :: "attempt_record \<Rightarrow> bool" where
  "failed_attempt a \<longleftrightarrow>
     retryable_status (ar_status a) \<and> ar_input_tokens a = 0 \<and> ar_output_tokens a = 0"

text \<open>
  The candidates that were tried, each once, are the ones excluded; the attempts are those of
  them that reached a vendor, in the same order.
\<close>

definition loop_inv :: "route_ctx \<Rightarrow> route_state \<Rightarrow> bool" where
  "loop_inv cx st \<longleftrightarrow>
     rs_exclude st = fst ` set (rs_tried st) \<and> distinct (map fst (rs_tried st)) \<and>
     fst ` set (rs_tried st) \<subseteq> mk_ref ` set (rx_candidates cx) \<and>
     (\<forall>(c, s) \<in> set (rs_tried st). retryable_status s \<or> s \<in> {''bucket_empty'', ''vendor_missing''}) \<and>
     map (\<lambda>a. (attempt_ref a, ar_status a)) (rs_attempts st) =
       filter (\<lambda>(c, s). retryable_status s) (rs_tried st) \<and>
     map ar_attempt_idx (rs_attempts st) = map int [0..<length (rs_attempts st)] \<and>
     list_all (\<lambda>a. attempt_of cx a \<and> failed_attempt a) (rs_attempts st)"

lemma status_for_retryable:
  "pe_class e \<notin> set NON_RETRYABLE_ERROR_TYPES \<Longrightarrow> retryable_status (status_for (pe_class e))"
  by (cases "pe_class e") (simp_all add: status_for_def STATUS_FOR_ERROR_KIND_def)

lemma mk_record_sel:
  assumes "mk_record rt cx c idx latency status i n v = Inr a"
  shows "ar_attempt_idx a = idx" "ar_status a = status" "ar_input_tokens a = i"
    "ar_output_tokens a = n" "ar_vendor_req_id a = v" "attempt_ref a = c"
    "ar_cost_usd a = fst (cost_usd (rt_pricing rt) (ca_provider c) (ca_model c) i n)"
    "ar_latency_ms a = max 0 (py_int (latency * 1000))"
    "c \<in> mk_ref ` set (rx_candidates cx) \<Longrightarrow> attempt_of cx a"
  using assms
  by (auto simp: mk_record_def mk_attempt_record_def attempt_ref_def attempt_of_def Let_def mk_ref_def
      split: if_splits)

lemma loop_inv_init: "loop_inv cx start_state"
  by (simp add: loop_inv_def start_state_def)

lemma loop_inv_round:
  assumes inv: "loop_inv cx st" and step: "round_result rt cx st (Again st')"
  shows "loop_inv cx st'"
  using step
proof cases
  case (skipped c s)
  then show ?thesis
    using inv by (auto simp: loop_inv_def give_up_on_def fresh_candidate_def)
next
  case (failed c e elapsed rec)
  note rec = mk_record_sel [OF failed(4)]
  have s: "retryable_status (status_for (pe_class e))" using failed(3) by (rule status_for_retryable)
  have "failed_attempt rec" "attempt_of cx rec"
    using rec(9) failed(2) s by (simp_all add: failed_attempt_def rec(2-4) fresh_candidate_def)
  with inv failed s show ?thesis
    by (auto simp: loop_inv_def give_up_on_def fresh_candidate_def rec(1,2,6))
qed

lemma loop_inv_step: "loop_inv cx st \<Longrightarrow> route_step rt cx st w = (Again st', w') \<Longrightarrow> loop_inv cx st'"
  by (rule loop_inv_round [OF _ route_step_round])

lemma route_last_round:
  assumes "route rt req caller w = (out, w')"
    and "map_of (cfg_tiers (rt_config rt)) (rq_model req) = Some tc" and "0 < rq_max_tokens req"
  obtains now params request_id st v where
    "loop_inv (start_ctx rt req caller tc now params request_id) st"
    "route_step rt (start_ctx rt req caller tc now params request_id) st v = (Finish out, w')"
proof -
  obtain now params request_id v where
    "route rt req caller w = route_loop rt (start_ctx rt req caller tc now params request_id) start_state v"
    using route_starts [OF assms(2,3)] by metis
  then have "route_loop rt (start_ctx rt req caller tc now params request_id) start_state v = (out, w')"
    using assms(1) by simp
  then obtain st u where "loop_inv (start_ctx rt req caller tc now params request_id) st"
    "route_step rt (start_ctx rt req caller tc now params request_id) st u = (Finish out, w')"
    using route_loop_last_round [where P = "loop_inv (start_ctx rt req caller tc now params request_id)",
        OF _ loop_inv_init] loop_inv_step by metis
  then show thesis by (rule that)
qed

section \<open>Properties\<close>

text \<open>The failover history a routed request carries.\<close>

definition routed_history ::
    "'w router \<Rightarrow> chat_request \<Rightarrow> caller \<Rightarrow> tier_config \<Rightarrow> router_result \<Rightarrow> bool" where
  "routed_history rt req caller tc res \<longleftrightarrow> (\<exists>fails a. rr_attempts res = fails @ [a] \<and>
    map ar_attempt_idx (fails @ [a]) = map int [0..<Suc (length fails)] \<and>
    distinct (map attempt_ref (fails @ [a])) \<and>
    list_all failed_attempt fails \<and> ar_status a = ''ok'' \<and>
    ar_input_tokens a = us_prompt_tokens (rs_usage (rr_response res)) \<and>
    ar_output_tokens a = us_completion_tokens (rs_usage (rr_response res)) \<and>
    ar_cost_usd a = fst (cost_usd (rt_pricing rt) (ar_provider a) (ar_model a)
      (ar_input_tokens a) (ar_output_tokens a)) \<and>
    rs_model (rr_response res) = rq_model req \<and>
    (\<forall>b \<in> set (fails @ [a]). valid_attempt_record b \<and> ar_caller b = cl_name caller \<and>
       ar_tier b = rq_model req \<and> ar_request_id b = rs_id (rr_response res) \<and>
       attempt_ref b \<in> mk_ref ` set (tc_candidates tc)))"

lemma route_history:
  assumes route: "route rt req caller w = (Routed res, w')"
    and tier: "map_of (cfg_tiers (rt_config rt)) (rq_model req) = Some tc"
    and "0 < rq_max_tokens req"
  shows "routed_history rt req caller tc res"
proof -
  obtain now params i st v where inv: "loop_inv (start_ctx rt req caller tc now params i) st"
    and "route_step rt (start_ctx rt req caller tc now params i) st v = (Finish (Routed res), w')"
    using route_last_round [OF assms] by metis
  from route_step_round [OF this(2)] obtain c elapsed result rec response
    where c: "fresh_candidate (start_ctx rt req caller tc now params i) st c"
      and rec: "mk_record rt (start_ctx rt req caller tc now params i) c (int (length (rs_attempts st)))
        elapsed ''ok'' (cr_input_tokens result) (cr_output_tokens result)
        (cr_vendor_request_id result) = Inr rec"
      and resp: "mk_response (start_ctx rt req caller tc now params i) result = Inr response"
      and res: "res = \<lparr>rr_response = response, rr_attempts = rs_attempts st @ [rec]\<rparr>"
    by (rule round_result_RoutedE) blast
  note sel = mk_record_sel [OF rec]
  have rec_of: "attempt_of (start_ctx rt req caller tc now params i) rec"
    using c sel(9) by (simp add: fresh_candidate_def)
  have pairs: "map (\<lambda>a. (attempt_ref a, ar_status a)) (rs_attempts st) =
      filter (\<lambda>(c, s). retryable_status s) (rs_tried st)"
    using inv unfolding loop_inv_def by (elim conjE)
  have refs: "map attempt_ref (rs_attempts st) =
      map fst (filter (\<lambda>(c, s). retryable_status s) (rs_tried st))"
    unfolding pairs [symmetric] by simp
  have "distinct (map fst (filter (\<lambda>(c, s). retryable_status s) (rs_tried st)))"
    using inv by (simp add: loop_inv_def distinct_map_filter)
  moreover have "c \<notin> set (map fst (filter (\<lambda>(c, s). retryable_status s) (rs_tried st)))"
    using inv c by (auto simp: loop_inv_def fresh_candidate_def)
  ultimately have "distinct (map attempt_ref (rs_attempts st @ [rec]))"
    unfolding map_append refs by (simp add: sel(6))
  moreover have "ar_provider rec = ca_provider c" "ar_model rec = ca_model c"
    using sel(6) by (auto simp: attempt_ref_def)
  ultimately show ?thesis
    unfolding routed_history_def
    using inv rec_of resp
    by (intro exI [of _ "rs_attempts st"] exI [of _ rec])
      (auto simp: res sel loop_inv_def attempt_of_def mk_response_def mk_message_def list_all_iff
        split: if_splits)
qed

text \<open>C1: A routed request carries its whole failover history: the attempts are numbered from
  0 in the order they were made, each is a valid record of this request for a candidate of
  the tier, no candidate appears twice, all but the last failed with a retryable status and
  no tokens, and the last is the one that answered, with the tokens and the cost of the
  answer. The response has the tier's name and the attempts' request id.\<close>

theorem routed_attempts:
  assumes route: "route rt req caller w = (Routed res, w')"
    and tier: "map_of (cfg_tiers (rt_config rt)) (rq_model req) = Some tc"
    and "0 < rq_max_tokens req"
  shows "\<exists>fails a. rr_attempts res = fails @ [a] \<and>
    map ar_attempt_idx (fails @ [a]) = map int [0..<Suc (length fails)] \<and>
    distinct (map attempt_ref (fails @ [a])) \<and>
    list_all failed_attempt fails \<and> ar_status a = ''ok'' \<and>
    ar_input_tokens a = us_prompt_tokens (rs_usage (rr_response res)) \<and>
    ar_output_tokens a = us_completion_tokens (rs_usage (rr_response res)) \<and>
    ar_cost_usd a = fst (cost_usd (rt_pricing rt) (ar_provider a) (ar_model a)
      (ar_input_tokens a) (ar_output_tokens a)) \<and>
    rs_model (rr_response res) = rq_model req \<and>
    (\<forall>b \<in> set (fails @ [a]). valid_attempt_record b \<and> ar_caller b = cl_name caller \<and>
       ar_tier b = rq_model req \<and> ar_request_id b = rs_id (rr_response res) \<and>
       attempt_ref b \<in> mk_ref ` set (tc_candidates tc))"
  using route_history [OF assms] unfolding routed_history_def .


text \<open>What the caller of a refused request is told.\<close>

definition canonical_refusal :: "tier_config \<Rightarrow> router_error \<Rightarrow> bool" where
  "canonical_refusal tc e \<longleftrightarrow> ((re_kind e, re_body e) \<in>
      {(RK_UPSTREAM_UNAVAILABLE, \<lparr>eb_type = ''upstream_unavailable'',
          eb_message = ''all candidates exhausted'', eb_retryable = True\<rparr>),
       (RK_DEADLINE_EXCEEDED, \<lparr>eb_type = ''deadline_exceeded'',
          eb_message = ''ran out of budget mid-failover'', eb_retryable = True\<rparr>),
       (RK_INVALID_REQUEST, \<lparr>eb_type = ''invalid_request'',
          eb_message = ''request rejected by upstream provider'', eb_retryable = False\<rparr>),
       (RK_INVALID_REQUEST, \<lparr>eb_type = ''content_filtered'',
          eb_message = ''content filtered by upstream provider'', eb_retryable = False\<rparr>),
       (RK_AUTH, \<lparr>eb_type = ''auth'', eb_message = ''authentication failed'', eb_retryable = False\<rparr>)}
    \<and> distinct (map fst (re_tried e)) \<and> fst ` set (re_tried e) \<subseteq> mk_ref ` set (tc_candidates tc)
    \<and> (\<forall>(c, s) \<in> set (butlast (re_tried e)).
         retryable_status s \<or> s \<in> {''bucket_empty'', ''vendor_missing''}))"

lemma route_refusal:
  assumes route: "route rt req caller w = (Refused e, w')"
    and tier: "map_of (cfg_tiers (rt_config rt)) (rq_model req) = Some tc"
    and "0 < rq_max_tokens req"
  shows "canonical_refusal tc e"
proof -
  obtain now params i st v where inv: "loop_inv (start_ctx rt req caller tc now params i) st"
    and "route_step rt (start_ctx rt req caller tc now params i) st v = (Finish (Refused e), w')"
    using route_last_round [OF assms] by metis
  from route_step_round [OF this(2)] show ?thesis
  proof (cases rule: round_result_RefusedE [consumes 1])
    case 1
    then show ?thesis
      using inv by (auto simp: canonical_refusal_def deadline_exceeded_def loop_inv_def dest!: in_set_butlastD)
  next
    case 2
    then show ?thesis
      using inv by (auto simp: canonical_refusal_def exhausted_def loop_inv_def dest!: in_set_butlastD)
  next
    case (3 c pe)
    have "fresh_candidate (start_ctx rt req caller tc now params i) st c" using 3 by blast
    moreover have "pe_class pe = BadRequest \<or> pe_class pe = AuthError \<or> pe_class pe = ContentFiltered"
      using 3 by simp
    ultimately show ?thesis
      using inv 3 by (auto simp: canonical_refusal_def loop_inv_def fresh_candidate_def router_error_of_def
          caller_error_for_def)
  qed
qed



section \<open>A router to run\<close>

text \<open>
  The tier of the theory \<open>Weights\<close> on the in-memory store: \<open>openai\<close> is rate limited,
  \<open>anthropic\<close> answers, \<open>google\<close> is behind an open breaker.
\<close>

definition demo_vendor :: "vendor_reply \<Rightarrow> mem_world vendor" where
  "demo_vendor reply m msgs params timeout w = (reply, w\<lparr>mw_now := mw_now w + 1\<rparr>)"

definition demo_answer :: chat_result where
  "demo_answer =
     \<lparr>cr_text = ''hi'', cr_finish_reason = Some ''stop'', cr_input_tokens = 3, cr_output_tokens = 2,
      cr_vendor_request_id = None\<rparr>"

definition rate_limited_error :: provider_error where
  "rate_limited_error = provider_error_init RateLimited ''slow down'' (Some ''429'')"

definition rejected_error :: provider_error where
  "rejected_error = provider_error_init BadRequest ''your prompt was ...'' None"

definition demo_router :: "vendor_reply \<Rightarrow> vendor_reply \<Rightarrow> mem_world router" where
  "demo_router openai anthropic =
     \<lparr>rt_config = \<lparr>cfg_provider_mode = PM_mock, cfg_secrets_mode = SM_mock,
        cfg_tiers = [(''fast'', \<lparr>tc_candidates = demo_tier\<rparr>)],
        cfg_routing = default_routing_config, cfg_callers = []\<rparr>,
      rt_vendors = [(''openai'', demo_vendor openai), (''anthropic'', demo_vendor anthropic)],
      rt_engine_routing = default_routing_config, rt_engine_cache = (\<lambda>_. demo_cache),
      rt_bucket = mem_bucket\<lparr>tb_limits :=
        map (\<lambda>t. (candidate_ref_key (mk_ref t), te_rate_limits t)) demo_tier\<rparr>,
      rt_observer = mem_observer, rt_rng = (\<lambda>w. (1 / 2, w)), rt_now = mem_clock,
      rt_uuid4_hex = (\<lambda>w. (''0af3'', w)), rt_total_budget_s = 10, rt_per_attempt_max_s = 8,
      rt_buffer_s = 1 / 2, rt_pricing = load_pricing demo_prices\<rparr>"

definition demo_request :: chat_request where
  "demo_request =
     \<lparr>rq_model = ''fast'', rq_messages = [\<lparr>msg_role = User, msg_content = ''hello''\<rparr>],
      rq_max_tokens = 10, rq_temperature = None, rq_top_p = None, rq_stream = False,
      rq_metadata = None\<rparr>"

definition demo_caller :: caller where
  "demo_caller = \<lparr>cl_name = ''web'', cl_daily_token_cap = None, cl_enabled = True\<rparr>"

text \<open>The rounds of the two requests, one with a failover and one that is rejected.\<close>

definition demo_ctx :: "vendor_reply \<Rightarrow> vendor_reply \<Rightarrow> route_ctx" where
  "demo_ctx openai anthropic =
     start_ctx (demo_router openai anthropic) demo_request demo_caller \<lparr>tc_candidates = demo_tier\<rparr> 0
       \<lparr>cp_max_tokens = 10, cp_temperature = None, cp_top_p = None\<rparr> ''0af3''"

abbreviation openai_ref :: candidate_ref where
  "openai_ref \<equiv> \<lparr>ca_provider = ''openai'', ca_model = ''gpt-4o''\<rparr>"

abbreviation anthropic_ref :: candidate_ref where
  "anthropic_ref \<equiv> \<lparr>ca_provider = ''anthropic'', ca_model = ''sonnet''\<rparr>"

definition demo_hashes :: "(string, (string, rat) pydict \<times> rat option) pydict" where
  "demo_hashes =
     [(''gw:bkt:openai:gpt-4o'',
       [(''rpm_remaining'', 59), (''tpm_remaining'', 5989), (''last_refill_ms'', 0)], Some 600)]"

definition failed_hashes :: "string \<Rightarrow> (string, (string, rat) pydict \<times> rat option) pydict" where
  "failed_hashes kind =
     demo_hashes @ [(''gw:obs:openai:gpt-4o:1'', [(''failures'', 1), (kind, 1)], Some 241)]"

definition acquired_hashes :: "(string, (string, rat) pydict \<times> rat option) pydict" where
  "acquired_hashes =
     failed_hashes ''fail_RateLimited'' @
     [(''gw:bkt:anthropic:sonnet'',
       [(''rpm_remaining'', 59), (''tpm_remaining'', 5989), (''last_refill_ms'', 1000)], Some 601)]"

definition demo_world :: "rat \<Rightarrow> (string, (string, rat) pydict \<times> rat option) pydict \<Rightarrow> mem_world" where
  "demo_world now hs = \<lparr>mw_now = now, mw_hashes = hs, mw_strings = []\<rparr>"

definition demo_attempt :: "candidate_ref \<Rightarrow> int \<Rightarrow> string \<Rightarrow> int \<Rightarrow> int \<Rightarrow> attempt_record" where
  "demo_attempt c idx status i n =
     \<lparr>ar_request_id = ''0af3'', ar_caller = ''web'', ar_tier = ''fast'',
      ar_provider = ca_provider c, ar_model = ca_model c, ar_attempt_idx = idx,
      ar_input_tokens = i, ar_output_tokens = n, ar_cost_usd = 0, ar_latency_ms = 1000,
      ar_status = status, ar_vendor_req_id = None, ar_client_trace_id = None\<rparr>"

abbreviation failover :: "mem_world router" where
  "failover \<equiv> demo_router (Provider_failed rate_limited_error) (Replied demo_answer)"

abbreviation failover_ctx :: route_ctx where
  "failover_ctx \<equiv> demo_ctx (Provider_failed rate_limited_error) (Replied demo_answer)"

definition failed_over :: route_state where
  "failed_over =
     \<lparr>rs_exclude = {openai_ref}, rs_tried = [(openai_ref, ''rate_limited'')],
      rs_attempts = [demo_attempt openai_ref 0 ''rate_limited'' 0 0]\<rparr>"

lemma demo_first_pick:
  "pick default_routing_config demo_cache demo_tier {} (\<lambda>w. (1 / 2, w)) mem_empty =
     (Inr (Some openai_ref), mem_empty)"
  "try_acquire (rt_bucket (demo_router x y)) ''openai'' ''gpt-4o'' 11 mem_empty =
     (Inr (True, 59, 5989), demo_world 0 demo_hashes)"
  by code_simp+

lemma demo_router_sel [simp]:
  "rt_now (demo_router x y) = mem_clock" "rt_engine_routing (demo_router x y) = default_routing_config"
  "rt_engine_cache (demo_router x y) w = demo_cache" "rt_rng (demo_router x y) = (\<lambda>w. (1 / 2, w))"
  "rt_vendors (demo_router x y) = [(''openai'', demo_vendor x), (''anthropic'', demo_vendor y)]"
  by (simp_all add: demo_router_def)

lemma demo_ctx_sel [simp]:
  "rx_deadline (demo_ctx x y) = 10" "rx_candidates (demo_ctx x y) = demo_tier" "rx_est (demo_ctx x y) = 11"
  by (simp_all add: demo_ctx_def demo_router_def start_ctx_def demo_request_def content_size_def
      estimate_tokens_def)

lemma demo_first_round:
  "route_step (demo_router (Provider_failed e) y) (demo_ctx (Provider_failed e) y) start_state mem_empty =
     on_provider_error (demo_router (Provider_failed e) y) (demo_ctx (Provider_failed e) y) start_state
       openai_ref 1 e (demo_world 1 demo_hashes)"
proof -
  let ?rt = "demo_router (Provider_failed e) y" and ?cx = "demo_ctx (Provider_failed e) y"
  have "route_step ?rt ?cx start_state mem_empty =
      call_vendor ?rt ?cx start_state openai_ref (attempt_timeout ?rt 10) (demo_world 0 demo_hashes)"
    using route_step_call [of ?rt mem_empty 0 mem_empty ?cx start_state openai_ref mem_empty 59 5989]
      demo_first_pick by (simp add: start_state_def mem_clock_def mem_empty_def)
  also have "\<dots> = on_provider_error ?rt ?cx start_state openai_ref (1 - 0) e (demo_world 1 demo_hashes)"
    by (rule call_vendor_failed [where v = "demo_world 0 demo_hashes" and
          u = "demo_world 1 demo_hashes" and chat = "demo_vendor (Provider_failed e)"])
      (simp_all add: mem_clock_def demo_world_def demo_vendor_def)
  finally show ?thesis by simp
qed

lemma demo_rounds:
  "on_provider_error failover failover_ctx start_state openai_ref 1 rate_limited_error
     (demo_world 1 demo_hashes) =
     (Again failed_over, demo_world 1 (failed_hashes ''fail_RateLimited''))"
  "pick default_routing_config demo_cache demo_tier {openai_ref} (\<lambda>w. (1 / 2, w))
     (demo_world 1 (failed_hashes ''fail_RateLimited'')) =
     (Inr (Some anthropic_ref), demo_world 1 (failed_hashes ''fail_RateLimited''))"
  "try_acquire (rt_bucket failover) ''anthropic'' ''sonnet'' 11
     (demo_world 1 (failed_hashes ''fail_RateLimited'')) =
     (Inr (True, 59, 5989), demo_world 1 acquired_hashes)"
  "mk_record failover failover_ctx anthropic_ref 1 1 ''ok'' 3 2 None =
     Inr (demo_attempt anthropic_ref 1 ''ok'' 3 2)"
  by code_simp+

definition demo_response :: chat_response where
  "demo_response =
     \<lparr>rs_id = ''0af3'', rs_model = ''fast'',
      rs_choices = [\<lparr>ch_index = 0, ch_message = \<lparr>msg_role = Assistant, msg_content = ''hi''\<rparr>,
        ch_finish_reason = Some ''stop''\<rparr>],
      rs_usage = \<lparr>us_prompt_tokens = 3, us_completion_tokens = 2, us_total_tokens = 5\<rparr>\<rparr>"

definition demo_result :: router_result where
  "demo_result =
     \<lparr>rr_response = demo_response,
      rr_attempts = [demo_attempt openai_ref 0 ''rate_limited'' 0 0,
        demo_attempt anthropic_ref 1 ''ok'' 3 2]\<rparr>"

lemma demo_second_round:
  "route_step failover failover_ctx failed_over (demo_world 1 (failed_hashes ''fail_RateLimited'')) =
     (Finish (Routed demo_result),
      obs_record_success mem_observer anthropic_ref 1 (demo_world 2 acquired_hashes))"
proof -
  let ?w = "demo_world 1 (failed_hashes ''fail_RateLimited'')"
  have resp: "mk_response failover_ctx demo_answer = Inr demo_response"
    by (simp add: mk_response_def mk_message_def demo_answer_def demo_ctx_def demo_response_def
        demo_request_def)
  have "route_step failover failover_ctx failed_over ?w =
      call_vendor failover failover_ctx failed_over anthropic_ref (attempt_timeout failover 9)
        (demo_world 1 acquired_hashes)"
    using route_step_call [of failover ?w 1 ?w failover_ctx failed_over anthropic_ref ?w 59 5989]
      demo_rounds(2,3) by (simp add: failed_over_def mem_clock_def demo_world_def)
  also have "\<dots> = on_result failover failover_ctx failed_over anthropic_ref (2 - 1) demo_answer
      (demo_world 2 acquired_hashes)"
    by (rule call_vendor_replied [where v = "demo_world 1 acquired_hashes" and
          u = "demo_world 2 acquired_hashes" and chat = "demo_vendor (Replied demo_answer)"])
      (simp_all add: mem_clock_def demo_world_def demo_vendor_def)
  also have "\<dots> = (Finish (Routed demo_result),
      obs_record_success mem_observer anthropic_ref 1 (demo_world 2 acquired_hashes))"
    using demo_rounds(4)
    by (simp add: on_result_def failed_over_def demo_answer_def resp [unfolded demo_answer_def]
        demo_result_def demo_router_def)
  finally show ?thesis .
qed

lemma demo_request_tier:
  "map_of (cfg_tiers (rt_config (demo_router x y))) (rq_model demo_request) =
     Some \<lparr>tc_candidates = demo_tier\<rparr>" "0 < rq_max_tokens demo_request"
  by (simp_all add: demo_router_def demo_request_def)

lemma demo_start:
  "route (demo_router x y) demo_request demo_caller mem_empty =
     route_loop (demo_router x y) (demo_ctx x y) start_state mem_empty"
proof -
  have "rt_uuid4_hex (demo_router x y) mem_empty = (''0af3'', mem_empty)"
    "rt_now (demo_router x y) mem_empty = (0, mem_empty)"
    by (simp_all add: demo_router_def mem_clock_def mem_empty_def)
  moreover have "mk_chat_params (rq_max_tokens demo_request) (rq_temperature demo_request)
      (rq_top_p demo_request) = Inr \<lparr>cp_max_tokens = 10, cp_temperature = None, cp_top_p = None\<rparr>"
    by (simp add: demo_request_def mk_chat_params_def)
  ultimately show ?thesis
    unfolding route_def Let_def demo_request_tier demo_ctx_def by simp
qed

lemma demo_route:
  "route failover demo_request demo_caller mem_empty =
     (Routed demo_result, obs_record_success mem_observer anthropic_ref 1 (demo_world 2 acquired_hashes))"
  unfolding demo_start route_loop.simps [of _ _ start_state] demo_first_round demo_rounds(1)
  by (simp add: route_loop.simps [of _ _ failed_over] demo_second_round)

lemma routed_attempts_witness:
  "\<exists>fails a. rr_attempts demo_result = fails @ [a] \<and> fails \<noteq> [] \<and> list_all failed_attempt fails \<and>
     ar_status a = ''ok'' \<and> ar_input_tokens a = 3"
proof -
  from routed_attempts [OF demo_route demo_request_tier] obtain fails a
    where "rr_attempts demo_result = fails @ [a]" "list_all failed_attempt fails" "ar_status a = ''ok''"
      "ar_input_tokens a = us_prompt_tokens (rs_usage (rr_response demo_result))" by blast
  then show ?thesis by (intro exI [of _ fails] exI [of _ a]) (auto simp: demo_result_def demo_response_def)
qed

abbreviation rejecting :: "mem_world router" where
  "rejecting \<equiv> demo_router (Provider_failed rejected_error) (Replied demo_answer)"

definition demo_refusal :: router_error where
  "demo_refusal =
     \<lparr>re_kind = RK_INVALID_REQUEST,
      re_body = \<lparr>eb_type = ''invalid_request'',
        eb_message = ''request rejected by upstream provider'', eb_retryable = False\<rparr>,
      re_tried = [(openai_ref, ''bad_request'')]\<rparr>"

lemma demo_rejected:
  "route rejecting demo_request demo_caller mem_empty =
     (Refused demo_refusal, demo_world 1 (failed_hashes ''fail_BadRequest''))"
proof -
  have round: "on_provider_error rejecting (demo_ctx (Provider_failed rejected_error) (Replied demo_answer))
      start_state openai_ref 1 rejected_error (demo_world 1 demo_hashes) =
      (Finish (Refused demo_refusal), demo_world 1 (failed_hashes ''fail_BadRequest''))"
    by code_simp
  show ?thesis
    unfolding demo_start route_loop.simps [of _ _ start_state] demo_first_round round by simp
qed


end
