(* ===== verification/Accounting.thy ===== *)
theory Accounting
  imports Models "HOL-Library.Sublist"
begin

text \<open>
  \<open>gateway/accounting.py\<close>: the queue of attempt records between the request handlers and the
  database. The drain task and \<open>stop\<close> are coroutines; a step of the model is what they do
  from one \<open>await\<close> to the next, so that records may arrive while a batch is being written.
  What the queue relies on (a \<open>BatchedWriter\<close>) is the locale \<open>batched_writer\<close>.
\<close>

section \<open>The queue\<close>

text \<open>
  \<open>aq_write\<close> is the writer: \<open>False\<close> stands for a call that raises. The flush interval only
  says when the drain task wakes up by itself, which the model leaves open.
\<close>

record 'w accounting =
  aq_capacity :: int
  aq_flush_size :: int
  aq_write :: "attempt_record list \<Rightarrow> 'w \<Rightarrow> bool \<times> 'w"

text \<open>
  Where the coroutines are: the task has been created, it waits for its event or writes a batch inside the
  loop, or makes its last flush; then \<open>stop\<close> goes on after \<open>await self._task\<close> and flushes
  once more.
\<close>

datatype drain_phase =
    Idle
  | Starting
  | Waiting
  | Writing "attempt_record list"
  | Last_writing "attempt_record list"
  | Drained
  | Final_writing "attempt_record list"
  | Stopped

record queue_state =
  qs_buffer :: "attempt_record list"
  qs_dropped_total :: int
  qs_wakeup :: bool
  qs_stop :: bool
  qs_phase :: drain_phase
  qs_metric :: int

text \<open>\<open>qs_metric\<close> is the Prometheus counter \<open>ACCOUNTING_DROPPED\<close>.\<close>

definition new_queue :: queue_state where
  "new_queue = \<lparr>qs_buffer = [], qs_dropped_total = 0, qs_wakeup = False, qs_stop = False,
     qs_phase = Idle, qs_metric = 0\<rparr>"

section \<open>The operations\<close>

definition enqueue :: "'w accounting \<Rightarrow> attempt_record \<Rightarrow> queue_state \<Rightarrow> queue_state" where
  "enqueue aq rec q =
     (let q = (if aq_capacity aq \<le> int (length (qs_buffer q))
               then (case qs_buffer q of
                       [] \<Rightarrow> q
                     | _ # rest \<Rightarrow> q\<lparr>qs_buffer := rest, qs_dropped_total := qs_dropped_total q + 1\<rparr>)
               else q);
          q = q\<lparr>qs_buffer := qs_buffer q @ [rec]\<rparr>
      in if aq_flush_size aq \<le> int (length (qs_buffer q)) then q\<lparr>qs_wakeup := True\<rparr> else q)"

text \<open>
  \<open>_flush\<close> up to its \<open>await\<close>: nothing to do, or the batch that was taken; and from there on.
\<close>

definition flush_begin :: "queue_state \<Rightarrow> attempt_record list option \<times> queue_state" where
  "flush_begin q =
     (if qs_buffer q = [] then (None, q) else (Some (qs_buffer q), q\<lparr>qs_buffer := []\<rparr>))"

definition flush_end :: "bool \<Rightarrow> attempt_record list \<Rightarrow> queue_state \<Rightarrow> queue_state" where
  "flush_end ok batch q =
     (if ok then q
      else let n = int (length batch)
           in q\<lparr>qs_dropped_total := qs_dropped_total q + n, qs_metric := qs_metric q + n\<rparr>)"

text \<open>The head of the drain loop: wait again, or leave the loop and flush once more.\<close>

definition loop_head :: "queue_state \<Rightarrow> queue_state" where
  "loop_head q =
     (if \<not> qs_stop q then q\<lparr>qs_phase := Waiting\<rparr>
      else case flush_begin q of
             (None, q) \<Rightarrow> q\<lparr>qs_phase := Drained\<rparr>
           | (Some batch, q) \<Rightarrow> q\<lparr>qs_phase := Last_writing batch\<rparr>)"

text \<open>The drain task after its wait, by the event or by the timeout.\<close>

definition drain_wakes :: "queue_state \<Rightarrow> queue_state" where
  "drain_wakes q =
     (case flush_begin (q\<lparr>qs_wakeup := False\<rparr>) of
        (None, q) \<Rightarrow> loop_head q
      | (Some batch, q) \<Rightarrow> q\<lparr>qs_phase := Writing batch\<rparr>)"

definition start :: "queue_state \<Rightarrow> queue_state" where
  "start q =
     (case qs_phase q of
        Idle \<Rightarrow> q\<lparr>qs_stop := False, qs_phase := Starting\<rparr>
      | Stopped \<Rightarrow> q\<lparr>qs_stop := False, qs_phase := Starting\<rparr>
      | _ \<Rightarrow> q)"

text \<open>\<open>stop\<close> up to \<open>await self._task\<close>, and after it.\<close>

definition stop_final :: "queue_state \<Rightarrow> queue_state" where
  "stop_final q =
     (case flush_begin q of
        (None, q) \<Rightarrow> q\<lparr>qs_phase := Stopped\<rparr>
      | (Some batch, q) \<Rightarrow> q\<lparr>qs_phase := Final_writing batch\<rparr>)"

definition stop_begin :: "queue_state \<Rightarrow> queue_state" where
  "stop_begin q =
     (let q = q\<lparr>qs_stop := True, qs_wakeup := True\<rparr>
      in case qs_phase q of
           Idle \<Rightarrow> stop_final q
         | Stopped \<Rightarrow> stop_final q
         | _ \<Rightarrow> q)"

lemmas queue_defs = loop_head_def drain_wakes_def flush_begin_def flush_end_def stop_final_def

section \<open>Steps\<close>

text \<open>
  \<open>Run\<close> is the first time the new task gets to run, \<open>Wake\<close> the end of its wait,
  \<open>Write_returns\<close> the end of \<open>write_batch\<close>, whoever awaits it, \<open>Join\<close> the moment \<open>stop\<close>
  has seen the task end. \<open>stop\<close> is called at most once for a \<open>start\<close>, and \<open>start\<close> not while
  \<open>stop\<close> is still busy, as in the gateway's \<open>lifespan\<close>.
\<close>

datatype queue_event =
  Enqueue attempt_record | Start | Run | Wake | Write_returns | Stop | Join

fun aq_step :: "'w accounting \<Rightarrow> queue_event \<Rightarrow> queue_state \<times> 'w \<Rightarrow> (queue_state \<times> 'w) option" where
  "aq_step aq (Enqueue rec) (q, w) = Some (enqueue aq rec q, w)"
| "aq_step aq Start (q, w) =
     (case qs_phase q of Final_writing _ \<Rightarrow> None | _ \<Rightarrow> Some (start q, w))"
| "aq_step aq Run (q, w) =
     (if qs_phase q = Starting then Some (loop_head q, w) else None)"
| "aq_step aq Wake (q, w) =
     (if qs_phase q = Waiting then Some (drain_wakes q, w) else None)"
| "aq_step aq Write_returns (q, w) =
     (case qs_phase q of
        Writing batch \<Rightarrow>
          (let (ok, w) = aq_write aq batch w in Some (loop_head (flush_end ok batch q), w))
      | Last_writing batch \<Rightarrow>
          (let (ok, w) = aq_write aq batch w in Some ((flush_end ok batch q)\<lparr>qs_phase := Drained\<rparr>, w))
      | Final_writing batch \<Rightarrow>
          (let (ok, w) = aq_write aq batch w in Some ((flush_end ok batch q)\<lparr>qs_phase := Stopped\<rparr>, w))
      | _ \<Rightarrow> None)"
| "aq_step aq Stop (q, w) =
     (case qs_phase q of
        Final_writing _ \<Rightarrow> None
      | Idle \<Rightarrow> Some (stop_begin q, w)
      | Stopped \<Rightarrow> Some (stop_begin q, w)
      | _ \<Rightarrow> if qs_stop q then None else Some (stop_begin q, w))"
| "aq_step aq Join (q, w) =
     (if qs_phase q = Drained then Some (stop_final q, w) else None)"

fun aq_run :: "'w accounting \<Rightarrow> queue_event list \<Rightarrow> queue_state \<times> 'w \<Rightarrow> (queue_state \<times> 'w) option" where
  "aq_run aq [] s = Some s"
| "aq_run aq (ev # evs) s =
     (case aq_step aq ev s of None \<Rightarrow> None | Some s' \<Rightarrow> aq_run aq evs s')"

text \<open>The records a run was offered, and the batch being written.\<close>

fun offered :: "queue_event \<Rightarrow> attempt_record list" where
  "offered (Enqueue rec) = [rec]"
| "offered _ = []"

fun in_flight :: "drain_phase \<Rightarrow> attempt_record list" where
  "in_flight (Writing batch) = batch"
| "in_flight (Last_writing batch) = batch"
| "in_flight (Final_writing batch) = batch"
| "in_flight _ = []"

section \<open>What is behind the writer\<close>

lemma subseq_drop_middle: "subseq (xs @ ys @ zs) us \<Longrightarrow> subseq (xs @ zs) us"
  by (rule subseq_order.trans [where b = "xs @ ys @ zs"])
    (simp_all add: list_emb_append_mono subseq_drop_many)

lemma subseq_snoc: "subseq xs us \<Longrightarrow> subseq (xs @ [x]) (us @ [x])"
  by (simp add: list_emb_append_mono)

text \<open>
  A call that returns has appended the batch, each record as the table holds it; one that
  raises has stored nothing of it.
\<close>

locale batched_writer =
  fixes aq :: "'w accounting" and rows :: "'w \<Rightarrow> attempt_record list"
    and held :: "attempt_record \<Rightarrow> attempt_record"
  assumes write_ok: "aq_write aq batch w = (True, w') \<Longrightarrow> rows w' = rows w @ map held batch"
    and write_raises: "aq_write aq batch w = (False, w') \<Longrightarrow> rows w' = rows w"
begin

definition conserved :: "'w \<Rightarrow> attempt_record list \<Rightarrow> queue_state \<times> 'w \<Rightarrow> bool" where
  "conserved w0 recs = (\<lambda>(q, w).
     \<exists>written. rows w = rows w0 @ map held written \<and>
       subseq (written @ in_flight (qs_phase q) @ qs_buffer q) recs \<and>
       int (length recs) = int (length written) + qs_dropped_total q +
         int (length (in_flight (qs_phase q))) + int (length (qs_buffer q)) \<and>
       0 \<le> qs_metric q \<and> qs_metric q \<le> qs_dropped_total q \<and>
       int (length (qs_buffer q)) \<le> max 1 (aq_capacity aq))"

lemma conserved_init: "conserved w0 [] (new_queue, w0)"
  by (simp add: conserved_def new_queue_def)

text \<open>Moving records between the buffer and the batch in flight keeps them.\<close>

lemma conserved_move:
  assumes "conserved w0 recs (q, w)"
    and "in_flight (qs_phase q') @ qs_buffer q' = in_flight (qs_phase q) @ qs_buffer q"
    and "qs_dropped_total q' = qs_dropped_total q" and "qs_metric q' = qs_metric q"
    and "length (qs_buffer q') \<le> length (qs_buffer q)"
  shows "conserved w0 recs (q', w)"
proof -
  have "length (in_flight (qs_phase q')) + length (qs_buffer q') =
      length (in_flight (qs_phase q)) + length (qs_buffer q)"
    by (metis assms(2) length_append)
  with assms show ?thesis by (fastforce simp: conserved_def)
qed

lemma conserved_loop_head:
  assumes "conserved w0 recs (q, w)" and "in_flight (qs_phase q) = []"
  shows "conserved w0 recs (loop_head q, w)"
  using assms by (auto simp: loop_head_def flush_begin_def intro!: conserved_move [OF assms(1)])

lemma conserved_write:
  assumes "conserved w0 recs (q, w)" and "in_flight (qs_phase q) = batch"
    and "aq_write aq batch w = (ok, w')" and "in_flight ph = []"
  shows "conserved w0 recs ((flush_end ok batch q)\<lparr>qs_phase := ph\<rparr>, w')"
proof (cases ok)
  case True
  obtain written where "rows w = rows w0 @ map held written"
    and "subseq (written @ batch @ qs_buffer q) recs"
    and "int (length recs) = int (length written) + qs_dropped_total q + int (length batch)
      + int (length (qs_buffer q))"
    using assms(1,2) by (auto simp: conserved_def)
  with True assms write_ok [of batch w w'] show ?thesis
    by (auto simp: conserved_def flush_end_def intro!: exI [of _ "written @ batch"])
next
  case False
  with assms write_raises [of batch w w'] show ?thesis
    by (auto simp: conserved_def flush_end_def Let_def dest: subseq_drop_middle)
qed

lemma conserved_enqueue:
  assumes "conserved w0 recs (q, w)"
  shows "conserved w0 (recs @ [rec]) (enqueue aq rec q, w)"
proof -
  obtain written where rows: "rows w = rows w0 @ map held written"
    and sub: "subseq (written @ in_flight (qs_phase q) @ qs_buffer q) recs"
    and len: "int (length recs) = int (length written) + qs_dropped_total q +
         int (length (in_flight (qs_phase q))) + int (length (qs_buffer q))"
    using assms by (auto simp: conserved_def)
  show ?thesis
  proof (cases "aq_capacity aq \<le> int (length (qs_buffer q)) \<and> qs_buffer q \<noteq> []")
    case True
    then obtain r rest where buf: "qs_buffer q = r # rest" by (cases "qs_buffer q") auto
    have "subseq ((written @ in_flight (qs_phase q)) @ rest) recs"
      using sub subseq_drop_middle [of "written @ in_flight (qs_phase q)" "[r]" rest recs]
      by (simp add: buf)
    from subseq_snoc [OF this, of rec] True rows len assms show ?thesis
      by (auto simp: conserved_def enqueue_def buf Let_def)
  next
    case False
    from subseq_snoc [OF sub, of rec] False rows len assms show ?thesis
      by (auto simp: conserved_def enqueue_def Let_def split: list.splits)
  qed
qed

lemma conserved_enqueues:
  "conserved w0 recs (q, w) \<Longrightarrow> conserved w0 (recs @ new) (fold (enqueue aq) new q, w)"
proof (induction new arbitrary: q recs)
  case (Cons rec new)
  from Cons.IH [OF conserved_enqueue [OF Cons.prems]] show ?case by simp
qed simp

text \<open>Only the rows matter: the world behind the writer may change otherwise.\<close>

lemma conserved_rows: "rows w' = rows w \<Longrightarrow> conserved w0 recs (q, w) \<Longrightarrow> conserved w0 recs (q, w')"
  by (simp add: conserved_def)

text \<open>When nothing was dropped, every record is written, in flight or queued, in the order of arrival.\<close>

lemma conserved_lossless:
  assumes "conserved w0 recs (q, w)" and "qs_dropped_total q = 0"
  shows "\<exists>written. rows w = rows w0 @ map held written \<and> recs = written @ in_flight (qs_phase q) @ qs_buffer q"
proof -
  from assms(1) obtain written where rows: "rows w = rows w0 @ map held written"
    and sub: "subseq (written @ in_flight (qs_phase q) @ qs_buffer q) recs"
    and "int (length recs) = int (length written) + qs_dropped_total q +
       int (length (in_flight (qs_phase q))) + int (length (qs_buffer q))"
    unfolding conserved_def by auto
  with assms(2) have "length (written @ in_flight (qs_phase q) @ qs_buffer q) = length recs" by simp
  with sub have "written @ in_flight (qs_phase q) @ qs_buffer q = recs" by (rule subseq_same_length)
  with rows show ?thesis by blast
qed

lemma conserved_flush_end:
  assumes "conserved w0 recs (q, w)" and "in_flight (qs_phase q) = batch"
    and "aq_write aq batch w = (ok, w')"
  shows "conserved w0 recs (loop_head (flush_end ok batch q), w')"
  using conserved_loop_head [OF conserved_write [OF assms, of Drained]]
  by (simp add: loop_head_def flush_begin_def split: if_splits)

lemma conserved_idle:
  assumes "conserved w0 recs (q, w)" and "in_flight (qs_phase q) = []"
  shows "conserved w0 recs (stop_final q, w)" "conserved w0 recs (drain_wakes q, w)"
proof -
  show "conserved w0 recs (stop_final q, w)"
    using assms by (auto simp: stop_final_def flush_begin_def intro!: conserved_move [OF assms(1)])
  show "conserved w0 recs (drain_wakes q, w)"
    using assms
    by (auto simp: drain_wakes_def loop_head_def flush_begin_def intro!: conserved_move [OF assms(1)])
qed

lemma conserved_stop_begin:
  assumes "conserved w0 recs (q, w)"
  shows "conserved w0 recs (stop_begin q, w)"
  by (rule conserved_move [OF assms]; cases "qs_phase q")
    (simp_all add: stop_begin_def stop_final_def flush_begin_def Let_def)

lemma conserved_start:
  assumes "conserved w0 recs (q, w)"
  shows "conserved w0 recs (start q, w)"
  by (rule conserved_move [OF assms]; cases "qs_phase q") (simp_all add: start_def)

lemma conserved_step:
  assumes "conserved w0 recs (q, w)" and "aq_step aq ev (q, w) = Some (q', w')"
  shows "conserved w0 (recs @ offered ev) (q', w')"
proof (cases ev)
  case (Enqueue rec)
  with assms show ?thesis by (auto intro: conserved_enqueue)
next
  case Write_returns
  with assms show ?thesis
    by (auto split: drain_phase.splits prod.splits intro: conserved_flush_end conserved_write)
qed (use assms in \<open>auto split: if_splits drain_phase.splits
    intro: conserved_idle conserved_loop_head conserved_start conserved_stop_begin\<close>)

lemma conserved_run:
  assumes "conserved w0 recs s" and "aq_run aq evs s = Some (q', w')"
  shows "conserved w0 (recs @ concat (map offered evs)) (q', w')"
  using assms
proof (induction evs arbitrary: s recs)
  case (Cons ev evs)
  obtain q w where s: "s = (q, w)" by force
  from Cons.prems(2) obtain q1 w1 where step: "aq_step aq ev (q, w) = Some (q1, w1)"
    and run: "aq_run aq evs (q1, w1) = Some (q', w')"
    by (auto simp: s split: option.splits)
  from Cons.IH [OF conserved_step [OF _ step] run, of recs] Cons.prems(1) show ?case by (simp add: s)
qed simp

end

section \<open>A burst\<close>

lemma drop_prefix: "k \<le> length xs \<Longrightarrow> drop k (xs @ ys) = drop k xs @ ys"
  by simp

text \<open>Enqueuing while the drain task does not run, by capacity.\<close>

lemma enqueue_buffer:
  assumes "0 < aq_capacity aq" and "int (length (qs_buffer q)) \<le> aq_capacity aq"
  shows "qs_buffer (enqueue aq rec q) =
      drop (Suc (length (qs_buffer q)) - nat (aq_capacity aq)) (qs_buffer q @ [rec])"
    and "qs_dropped_total (enqueue aq rec q) =
      qs_dropped_total q + int (Suc (length (qs_buffer q)) - nat (aq_capacity aq))"
    and "qs_metric (enqueue aq rec q) = qs_metric q"
proof -
  have full: "Suc (length (qs_buffer q)) - nat (aq_capacity aq) =
      (if aq_capacity aq \<le> int (length (qs_buffer q)) then 1 else 0)"
    using assms by auto
  show "qs_buffer (enqueue aq rec q) =
      drop (Suc (length (qs_buffer q)) - nat (aq_capacity aq)) (qs_buffer q @ [rec])"
    and "qs_dropped_total (enqueue aq rec q) =
      qs_dropped_total q + int (Suc (length (qs_buffer q)) - nat (aq_capacity aq))"
    and "qs_metric (enqueue aq rec q) = qs_metric q"
    using assms(1) unfolding full
    by (auto simp: enqueue_def Let_def split: list.splits)
qed

lemma burst:
  assumes "0 < aq_capacity aq" and "int (length (qs_buffer q)) \<le> aq_capacity aq"
    and "q' = fold (enqueue aq) recs q"
    and "n = length (qs_buffer q) + length recs - nat (aq_capacity aq)"
  shows "qs_buffer q' = drop n (qs_buffer q @ recs) \<and>
    qs_dropped_total q' = qs_dropped_total q + int n \<and> qs_metric q' = qs_metric q"
  using assms(2-)
proof (induction recs arbitrary: q n)
  case (Cons rec recs)
  let ?q = "enqueue aq rec q" and ?c = "nat (aq_capacity aq)"
  note step = enqueue_buffer [OF assms(1) Cons.prems(1), of rec]
  have len: "int (length (qs_buffer ?q)) \<le> aq_capacity aq"
    using assms(1) by (simp add: step)
  define m where "m = length (qs_buffer ?q) + length recs - ?c"
  have n: "n = (Suc (length (qs_buffer q)) - ?c) + m"
  proof -
    have "length (qs_buffer q) \<le> ?c" and "0 < ?c" using Cons.prems(1) assms(1) by linarith+
    moreover from this have "length (qs_buffer ?q) + (Suc (length (qs_buffer q)) - ?c) =
        Suc (length (qs_buffer q))" by (simp add: step)
    moreover have "n = Suc (length (qs_buffer q)) + length recs - ?c" using Cons.prems(3) by simp
    ultimately show ?thesis unfolding m_def by arith
  qed
  have le: "Suc (length (qs_buffer q)) - ?c \<le> Suc (length (qs_buffer q))" by simp
  from Cons.IH [OF len _ m_def] Cons.prems(2)
  have "qs_buffer q' = drop m (qs_buffer ?q @ recs)"
    and "qs_dropped_total q' = qs_dropped_total ?q + int m" and "qs_metric q' = qs_metric ?q"
    by simp_all
  moreover have "qs_buffer ?q @ recs =
      drop (Suc (length (qs_buffer q)) - ?c) (qs_buffer q @ rec # recs)"
    using drop_prefix [of "Suc (length (qs_buffer q)) - ?c" "qs_buffer q @ [rec]" recs] step(1)
    by (simp del: drop_append)
  ultimately show ?case by (simp add: step(2,3) n add.commute del: drop_append)
qed simp

section \<open>Shutdown\<close>

text \<open>How many steps the coroutines have left once \<open>stop\<close> has been called.\<close>

fun steps_left :: "drain_phase \<Rightarrow> nat" where
  "steps_left Starting = 6"
| "steps_left Waiting = 5"
| "steps_left (Writing _) = 4"
| "steps_left (Last_writing _) = 3"
| "steps_left Drained = 2"
| "steps_left (Final_writing _) = 1"
| "steps_left _ = 0"

abbreviation coroutine_events :: "queue_event set" where
  "coroutine_events \<equiv> {Run, Wake, Write_returns, Join}"

text \<open>What holds while the queue shuts down and nothing is enqueued any more.\<close>

definition stopping :: "queue_state \<Rightarrow> bool" where
  "stopping q \<longleftrightarrow> qs_stop q \<and> qs_phase q \<noteq> Idle \<and>
     (steps_left (qs_phase q) \<le> 1 \<longrightarrow> qs_buffer q = [])"

lemma stopping_step:
  assumes "stopping q" and "ev \<in> coroutine_events" and "aq_step aq ev (q, w) = Some (q', w')"
  shows "stopping q' \<and> steps_left (qs_phase q') < steps_left (qs_phase q)"
  using assms
  by (auto simp: stopping_def queue_defs Let_def split: drain_phase.splits prod.splits if_splits)

lemma stopping_run:
  assumes "stopping q" and "set evs \<subseteq> coroutine_events" and "aq_run aq evs (q, w) = Some (q', w')"
  shows "stopping q' \<and> length evs + steps_left (qs_phase q') \<le> steps_left (qs_phase q)"
  using assms
proof (induction evs arbitrary: q w)
  case (Cons ev evs)
  from Cons.prems(3) obtain q1 w1 where step: "aq_step aq ev (q, w) = Some (q1, w1)"
    and run: "aq_run aq evs (q1, w1) = Some (q', w')"
    by (auto split: option.splits)
  have "stopping q1 \<and> steps_left (qs_phase q1) < steps_left (qs_phase q)"
    using stopping_step [OF Cons.prems(1) _ step] Cons.prems(2) by simp
  with Cons.IH [OF _ _ run] Cons.prems(2) show ?case by fastforce
qed simp

lemma stopping_progress:
  assumes "stopping q" and "\<forall>ev \<in> coroutine_events. aq_step aq ev (q, w) = None"
  shows "qs_phase q = Stopped"
  using assms by (cases "qs_phase q") (auto simp: stopping_def split: prod.splits)

lemma stop_begin_stopping:
  assumes "qs_phase q \<notin> {Idle, Stopped}" and "\<And>b. qs_phase q \<noteq> Final_writing b"
  shows "stopping (stop_begin q) \<and> qs_phase (stop_begin q) = qs_phase q"
  using assms by (cases "qs_phase q") (auto simp: stopping_def stop_begin_def)

lemma steps_left_le: "steps_left ph \<le> 6"
  by (cases ph) simp_all

section \<open>What the queue promises\<close>

text \<open>C10: Whatever the handlers, the drain task, \<open>stop\<close> and the writer do and in whichever
  order, every record is accounted for exactly once: it is stored, counted in
  \<open>dropped_total\<close>, in the batch being written or still queued. What is stored is in the order
  of arrival and without duplicates, and the buffer never grows past its capacity.\<close>

theorem records_conserved:
  assumes "batched_writer aq rows held" and "aq_run aq evs (new_queue, w0) = Some (q, w)"
    and "recs = concat (map offered evs)"
  shows "\<exists>written. rows w = rows w0 @ map held written \<and>
    subseq (written @ in_flight (qs_phase q) @ qs_buffer q) recs \<and>
    int (length recs) = int (length written) + qs_dropped_total q +
      int (length (in_flight (qs_phase q))) + int (length (qs_buffer q)) \<and>
    0 \<le> qs_metric q \<and> qs_metric q \<le> qs_dropped_total q \<and>
    int (length (qs_buffer q)) \<le> max 1 (aq_capacity aq)"
  using batched_writer.conserved_run [OF assms(1) batched_writer.conserved_init [OF assms(1)] assms(2)]
  by (simp add: batched_writer.conserved_def [OF assms(1)] assms(3))

text \<open>Shutting down ends and loses nothing silently: once \<open>stop\<close> is called on a running
  queue and nothing is enqueued any more, its coroutines take at most six more steps, they
  can only come to rest when \<open>stop\<close> has returned, and then the buffer is empty and every
  record ever enqueued is stored or counted as dropped.\<close>

theorem shutdown_drains:
  assumes "batched_writer aq rows held" and "aq_run aq evs (new_queue, w0) = Some (q, w)"
    and "qs_phase q \<notin> {Idle, Stopped}" and "\<And>b. qs_phase q \<noteq> Final_writing b"
    and "set evs' \<subseteq> coroutine_events" and "aq_run aq evs' (stop_begin q, w) = Some (q', w')"
  shows "length evs' \<le> 6 \<and>
    ((\<forall>ev \<in> coroutine_events. aq_step aq ev (q', w') = None) \<longrightarrow>
       qs_phase q' = Stopped \<and> qs_buffer q' = [] \<and>
       (\<exists>written. rows w' = rows w0 @ map held written \<and>
          int (length (concat (map offered evs))) = int (length written) + qs_dropped_total q'))"
proof -
  note bw = assms(1)
  have stop: "stopping (stop_begin q)" and ph: "qs_phase (stop_begin q) = qs_phase q"
    using stop_begin_stopping [OF assms(3,4)] by simp_all
  note run = stopping_run [OF stop assms(5,6)]
  have "concat (map offered evs') = []" using assms(5) by auto
  with batched_writer.conserved_run [OF bw batched_writer.conserved_stop_begin [OF bw
        batched_writer.conserved_run [OF bw batched_writer.conserved_init [OF bw] assms(2)]] assms(6)]
  have "batched_writer.conserved aq rows held w0 (concat (map offered evs)) (q', w')" by simp
  moreover have "qs_phase q' = Stopped \<and> qs_buffer q' = []"
    if "\<forall>ev \<in> coroutine_events. aq_step aq ev (q', w') = None"
    using stopping_progress [OF _ that] run by (auto simp: stopping_def)
  ultimately show ?thesis
    using run steps_left_le [of "qs_phase q"]
    by (fastforce simp: batched_writer.conserved_def [OF bw] ph)
qed

text \<open>A burst that the drain task cannot keep up with keeps the newest records: the buffer
  holds the last ones up to its capacity, in order, and every older one is counted in
  \<open>dropped_total\<close>. None of them reaches the counter \<open>ACCOUNTING_DROPPED\<close>.\<close>

theorem overflow_keeps_newest:
  assumes "0 < aq_capacity aq" and "q = fold (enqueue aq) recs new_queue"
    and "n = length recs - nat (aq_capacity aq)"
  shows "qs_buffer q = drop n recs \<and> qs_dropped_total q = int n \<and> qs_metric q = 0"
  using burst [OF assms(1) _ assms(2), of n] assms by (simp add: new_queue_def)

end
