(* ===== verification/Db.thy ===== *)
theory Db
  imports Accounting "HOL-Library.Multiset" "HOL-Library.Char_ord" "HOL-Library.List_Lexorder" "HOL-Library.Product_Lexorder"
begin

text \<open>
  \<open>gateway/db.py\<close>: the queries of \<open>Database\<close> as functions on the tables that \<open>migrations/\<close>
  creates. What the statements mean is SQL's documented behaviour: a primary key makes
  \<open>ON CONFLICT\<close> replace the row, an integer column refuses what does not fit it, a statement
  (and an \<open>executemany\<close>) takes effect as a whole or not at all, \<open>ORDER BY\<close> is a permutation
  that the database's collation decides.
\<close>

section \<open>The tables\<close>

record caller_row =
  cw_key_hash :: string
  cw_daily_token_cap :: "int option"
  cw_enabled :: bool

record tier_model =
  tm_model :: string
  tm_weight :: rat
  tm_rpm :: int
  tm_tpm :: int

text \<open>The \<open>config\<close> column of \<open>tier_models\<close>, by tier name; JSON gives back what was dumped.\<close>

type_synonym tier_map = "(string, tier_model) pydict"

record database =
  db_connected :: bool
  db_now :: rat
  db_requests :: "(attempt_record \<times> rat) list"
  db_callers :: "(string, caller_row) pydict"
  db_tiers :: "(string, string option) pydict"
  db_tier_models :: "(string, tier_map) pydict"
  db_routing :: "routing_config option"

text \<open>
  \<open>requests\<close> holds every row with its \<open>ts\<close>; \<open>routing_config\<close> has at most the row with
  \<open>id = 1\<close>, whose columns are those of \<open>RoutingConfig\<close>.
\<close>

definition int2 :: "int \<Rightarrow> bool" where
  "int2 i \<longleftrightarrow> - 32768 \<le> i \<and> i < 32768"

definition int4 :: "int \<Rightarrow> bool" where
  "int4 i \<longleftrightarrow> - 2147483648 \<le> i \<and> i < 2147483648"

definition int8 :: "int \<Rightarrow> bool" where
  "int8 i \<longleftrightarrow> - 9223372036854775808 \<le> i \<and> i < 9223372036854775808"

text \<open>\<open>NUMERIC(12,6)\<close>: six digits after the point, rounded; six before it.\<close>

definition numeric6 :: "rat \<Rightarrow> rat" where
  "numeric6 x = of_int (round (x * 1000000)) / 1000000"

definition row_fits :: "attempt_record \<Rightarrow> bool" where
  "row_fits r \<longleftrightarrow> int2 (ar_attempt_idx r) \<and> int4 (ar_input_tokens r) \<and> int4 (ar_output_tokens r) \<and>
     int4 (ar_latency_ms r) \<and> \<bar>numeric6 (ar_cost_usd r)\<bar> < 1000000"

definition stored_row :: "attempt_record \<Rightarrow> attempt_record" where
  "stored_row r = r\<lparr>ar_cost_usd := numeric6 (ar_cost_usd r)\<rparr>"

section \<open>The pool\<close>

definition db_connect :: "database \<Rightarrow> database" where
  "db_connect db = db\<lparr>db_connected := True\<rparr>"

definition db_close :: "database \<Rightarrow> database" where
  "db_close db = db\<lparr>db_connected := False\<rparr>"

text \<open>Every query starts with the property \<open>pool\<close>, which raises before \<open>connect\<close>.\<close>

definition with_pool :: "(database \<Rightarrow> 'a pyres \<times> database) \<Rightarrow> database \<Rightarrow> 'a pyres \<times> database" where
  "with_pool f db =
     (if db_connected db then f db
      else (Inl (RuntimeError ''Database.connect() not called''), db))"

lemmas pool_defs [gw_defs] = with_pool_def db_connect_def db_close_def

section \<open>Requests\<close>

definition write_batch :: "attempt_record list \<Rightarrow> database \<Rightarrow> unit pyres \<times> database" where
  "write_batch records db =
     (if records = [] then (Inr (), db)
      else with_pool (\<lambda>db.
             if list_all row_fits records
             then (Inr (), db\<lparr>db_requests :=
                     db_requests db @ map (\<lambda>r. (stored_row r, db_now db)) records\<rparr>)
             else (Inl (DatabaseError ''requests''), db)) db)"

text \<open>Midnight UTC of the day that the application's clock shows.\<close>

definition today_start :: "rat \<Rightarrow> rat" where
  "today_start now = of_int (\<lfloor>now\<rfloor> div 86400 * 86400)"

definition row_tokens :: "attempt_record \<Rightarrow> int" where
  "row_tokens r = ar_input_tokens r + ar_output_tokens r"

definition caller_tokens_used_today :: "rat \<Rightarrow> string \<Rightarrow> database \<Rightarrow> int pyres \<times> database" where
  "caller_tokens_used_today now caller_name =
     with_pool (\<lambda>db.
       (Inr (sum_list (map (\<lambda>(r, ts). row_tokens r)
               (filter (\<lambda>(r, ts). ar_caller r = caller_name \<and> today_start now \<le> ts)
                 (db_requests db)))), db))"

text \<open>The orders the database sorts by.\<close>

record collation =
  co_names :: "string list \<Rightarrow> string list"
  co_groups :: "(string \<times> string \<times> string) list \<Rightarrow> (string \<times> string \<times> string) list"

record usage_item =
  ui_caller :: string
  ui_provider :: string
  ui_model :: string
  ui_attempts :: int
  ui_tokens :: int
  ui_cost_usd :: rat

definition group_key :: "attempt_record \<Rightarrow> string \<times> string \<times> string" where
  "group_key r = (ar_caller r, ar_provider r, ar_model r)"

definition usage_rows :: "string option \<Rightarrow> rat option \<Rightarrow> database \<Rightarrow> attempt_record list" where
  "usage_rows caller_name since db =
     map fst (filter (\<lambda>(r, ts).
         (case caller_name of None \<Rightarrow> True | Some c \<Rightarrow> ar_caller r = c) \<and>
         (case since of None \<Rightarrow> True | Some t \<Rightarrow> t \<le> ts)) (db_requests db))"

definition usage_item_of :: "attempt_record list \<Rightarrow> string \<times> string \<times> string \<Rightarrow> usage_item" where
  "usage_item_of rows k =
     (let g = filter (\<lambda>r. group_key r = k) rows
      in \<lparr>ui_caller = fst k, ui_provider = fst (snd k), ui_model = snd (snd k),
          ui_attempts = int (length g), ui_tokens = sum_list (map row_tokens g),
          ui_cost_usd = sum_list (map ar_cost_usd g)\<rparr>)"

definition usage_summary ::
    "collation \<Rightarrow> string option \<Rightarrow> rat option \<Rightarrow> database \<Rightarrow> usage_item list pyres \<times> database" where
  "usage_summary co caller_name since =
     with_pool (\<lambda>db.
       let rows = usage_rows caller_name since db
       in (Inr (map (usage_item_of rows) (co_groups co (remdups (map group_key rows)))), db))"

section \<open>Callers\<close>

definition upsert_caller :: "string \<Rightarrow> string \<Rightarrow> int option \<Rightarrow> bool \<Rightarrow> database \<Rightarrow> unit pyres \<times> database" where
  "upsert_caller name key_hash daily_token_cap enabled =
     with_pool (\<lambda>db.
       if pred_option int8 daily_token_cap
       then (Inr (), db\<lparr>db_callers := AList.update name
               \<lparr>cw_key_hash = key_hash, cw_daily_token_cap = daily_token_cap, cw_enabled = enabled\<rparr>
               (db_callers db)\<rparr>)
       else (Inl (DatabaseError ''callers''), db))"

text \<open>\<open>Caller(...)\<close> validates what the row holds.\<close>

definition caller_by_key_hash :: "string \<Rightarrow> database \<Rightarrow> caller option pyres \<times> database" where
  "caller_by_key_hash key_hash =
     with_pool (\<lambda>db.
       (case find (\<lambda>(_, row). cw_key_hash row = key_hash) (db_callers db) of
          None \<Rightarrow> Inr None
        | Some (name, row) \<Rightarrow>
            (let c = \<lparr>cl_name = name, cl_daily_token_cap = cw_daily_token_cap row,
                      cl_enabled = cw_enabled row\<rparr>
             in if valid_caller c then Inr (Some c) else Inl (ValidationError ''Caller'')), db))"

section \<open>Configuration tables\<close>

definition fetch_tiers :: "collation \<Rightarrow> database \<Rightarrow> (string \<times> string option) list pyres \<times> database" where
  "fetch_tiers co =
     with_pool (\<lambda>db.
       (Inr (map (\<lambda>n. (n, the (map_of (db_tiers db) n))) (co_names co (map fst (db_tiers db)))), db))"

definition upsert_tier :: "string \<Rightarrow> string option \<Rightarrow> database \<Rightarrow> unit pyres \<times> database" where
  "upsert_tier name fallback_tier =
     with_pool (\<lambda>db.
       (Inr (), db\<lparr>db_tiers := AList.update name fallback_tier (db_tiers db)\<rparr>))"

definition fetch_tier_models :: "collation \<Rightarrow> database \<Rightarrow> (string \<times> tier_map) list pyres \<times> database" where
  "fetch_tier_models co =
     with_pool (\<lambda>db.
       (Inr (map (\<lambda>p. (p, the (map_of (db_tier_models db) p)))
               (co_names co (map fst (db_tier_models db)))), db))"

definition upsert_tier_models :: "string \<Rightarrow> tier_map \<Rightarrow> database \<Rightarrow> unit pyres \<times> database" where
  "upsert_tier_models provider tier_cfg =
     with_pool (\<lambda>db.
       (Inr (), db\<lparr>db_tier_models := AList.update provider tier_cfg (db_tier_models db)\<rparr>))"

definition fetch_routing_config :: "database \<Rightarrow> routing_config option pyres \<times> database" where
  "fetch_routing_config = with_pool (\<lambda>db. (Inr (db_routing db), db))"

definition upsert_routing_config :: "routing_config \<Rightarrow> database \<Rightarrow> unit pyres \<times> database" where
  "upsert_routing_config row =
     with_pool (\<lambda>db.
       if int4 (refresh_interval_ms row) \<and> int4 (health_window_s row)
       then (Inr (), db\<lparr>db_routing := Some row\<rparr>)
       else (Inl (DatabaseError ''routing_config''), db))"

section \<open>Migrations\<close>

text \<open>
  \<open>files\<close> is what the directory holds (\<open>None\<close>: there is none), \<open>execute\<close> runs one script
  inside the transaction; when one fails the transaction is rolled back.
\<close>

fun run_scripts :: "(string \<Rightarrow> 'w \<Rightarrow> bool \<times> 'w) \<Rightarrow> string list \<Rightarrow> 'w \<Rightarrow> 'w option" where
  "run_scripts execute [] w = Some w"
| "run_scripts execute (sql # sqls) w =
     (let (ok, w) = execute sql w in if ok then run_scripts execute sqls w else None)"

definition run_migrations ::
    "(string \<times> string) list option \<Rightarrow> bool \<Rightarrow> (string \<Rightarrow> 'w \<Rightarrow> bool \<times> 'w) \<Rightarrow> 'w \<Rightarrow> unit pyres \<times> 'w"
  where
  "run_migrations files pool_open execute w =
     (case files of
        None \<Rightarrow> (Inl (RuntimeError ''migrations directory not found''), w)
      | Some fs \<Rightarrow>
          if fs = [] then (Inl (RuntimeError ''migrations directory is empty''), w)
          else if \<not> pool_open then (Inl (RuntimeError ''Database.connect() not called''), w)
          else (case run_scripts execute (map snd (sort_key fst fs)) w of
                  None \<Rightarrow> (Inl (DatabaseError ''migration''), w)
                | Some w' \<Rightarrow> (Inr (), w')))"

section \<open>What the application relies on\<close>

text \<open>Reading leaves the database as it is.\<close>

lemma reads_only [simp]:
  "snd (caller_by_key_hash k db) = db"
  "snd (caller_tokens_used_today now c db) = db"
  "snd (usage_summary co caller_name since db) = db"
  "snd (fetch_tiers co db) = db"
  "snd (fetch_tier_models co db) = db"
  "snd (fetch_routing_config db) = db"
  by (simp_all add: caller_by_key_hash_def caller_tokens_used_today_def usage_summary_def
      fetch_tiers_def fetch_tier_models_def fetch_routing_config_def with_pool_def Let_def)

text \<open>Sorting keeps every row.\<close>

locale collating =
  fixes co :: collation
  assumes names_perm: "mset (co_names co ns) = mset ns"
    and groups_perm: "mset (co_groups co gs) = mset gs"
begin

lemma set_names [simp]: "set (co_names co ns) = set ns"
  by (metis names_perm set_mset_mset)

lemma distinct_names [simp]: "distinct (co_names co ns) = distinct ns"
  using names_perm [of ns] by (metis mset_eq_imp_distinct_iff)

lemma set_groups [simp]: "set (co_groups co gs) = set gs"
  by (metis groups_perm set_mset_mset)

lemma distinct_groups [simp]: "distinct (co_groups co gs) = distinct gs"
  using groups_perm [of gs] by (metis mset_eq_imp_distinct_iff)

lemma map_of_names:
  "map_of (map (\<lambda>n. (n, f n)) (co_names co ns)) n = (if n \<in> set ns then Some (f n) else None)"
  by (simp add: map_of_map_restrict restrict_map_def)

end

text \<open>The collation \<open>"C"\<close> sorts by code points.\<close>

definition c_collation :: collation where
  "c_collation = \<lparr>co_names = sort, co_groups = sort\<rparr>"

interpretation c_order: collating c_collation
  by unfold_locales (simp_all add: c_collation_def)

text \<open>The queue of the gateway: \<open>AccountingQueue(writer=db)\<close>.\<close>

definition db_accounting :: "int \<Rightarrow> int \<Rightarrow> database accounting" where
  "db_accounting capacity flush_size =
     \<lparr>aq_capacity = capacity, aq_flush_size = flush_size,
      aq_write = (\<lambda>batch db. case write_batch batch db of
         (Inr _, db) \<Rightarrow> (True, db) | (Inl _, db) \<Rightarrow> (False, db))\<rparr>"

definition db_rows :: "database \<Rightarrow> attempt_record list" where
  "db_rows db = map fst (db_requests db)"

interpretation db_writer: batched_writer "db_accounting capacity flush_size" db_rows stored_row
  by unfold_locales
    (auto simp: db_accounting_def db_rows_def write_batch_def with_pool_def comp_def
      split: sum.splits if_splits)

section \<open>Sums over groups\<close>

lemma sum_list_groups:
  fixes f :: "'a \<Rightarrow> 'b :: comm_monoid_add"
  assumes "distinct ks" and "key ` set xs \<subseteq> set ks"
  shows "sum_list (map (\<lambda>k. sum_list (map f (filter (\<lambda>x. key x = k) xs))) ks) = sum_list (map f xs)"
  using assms(2)
proof (induction xs)
  case (Cons x xs)
  let ?g = "\<lambda>k. sum_list (map f (filter (\<lambda>x. key x = k) xs))"
  have split: "sum_list (map f (filter (\<lambda>y. key y = k) (x # xs))) = (if k = key x then f x else 0) + ?g k"
    for k by simp
  have "sum_list (map (\<lambda>k. if k = key x then f x else 0) ks) = f x"
    using Cons.prems sum_list_distinct_conv_sum_set [OF assms(1), of "\<lambda>k. if k = key x then f x else 0"]
    by simp
  with Cons show ?case unfolding split sum_list_addf by simp
qed simp

lemma usage_item_sel [simp]:
  "ui_caller (usage_item_of rows k) = fst k"
  "ui_provider (usage_item_of rows k) = fst (snd k)"
  "ui_model (usage_item_of rows k) = snd (snd k)"
  "ui_attempts (usage_item_of rows k) = sum_list (map (\<lambda>_. 1) (filter (\<lambda>r. group_key r = k) rows))"
  "ui_tokens (usage_item_of rows k) = sum_list (map row_tokens (filter (\<lambda>r. group_key r = k) rows))"
  "ui_cost_usd (usage_item_of rows k) = sum_list (map ar_cost_usd (filter (\<lambda>r. group_key r = k) rows))"
  by (simp_all add: usage_item_of_def Let_def sum_list_triv)

text \<open>A report that splits the rows of a caller (of everyone) into its lines.\<close>

definition partition_report :: "string option \<Rightarrow> attempt_record list \<Rightarrow> usage_item list \<Rightarrow> bool" where
  "partition_report caller_name rows items \<longleftrightarrow>
    sum_list (map ui_attempts items) = int (length rows) \<and>
    sum_list (map ui_tokens items) = sum_list (map row_tokens rows) \<and>
    sum_list (map ui_cost_usd items) = sum_list (map ar_cost_usd rows) \<and>
    distinct (map (\<lambda>i. (ui_caller i, ui_provider i, ui_model i)) items) \<and>
    (\<forall>i \<in> set items. 0 < ui_attempts i \<and> pred_option ((=) (ui_caller i)) caller_name)"

lemma usage_summary_partition:
  assumes "collating co" and "db_connected db"
    and "rows = usage_rows caller_name since db"
  shows "\<exists>items. usage_summary co caller_name since db = (Inr items, db) \<and>
    partition_report caller_name rows items"
proof -
  let ?ks = "co_groups co (remdups (map group_key rows))"
  let ?items = "map (usage_item_of rows) ?ks"
  have ks: "distinct ?ks" "set ?ks = group_key ` set rows"
    using collating.distinct_groups [OF assms(1)] collating.set_groups [OF assms(1)] by simp_all
  note sums = sum_list_groups [OF ks(1), where key = group_key and xs = rows]
  have "map (\<lambda>i. (ui_caller i, ui_provider i, ui_model i)) ?items = ?ks"
    by (simp add: comp_def)
  moreover have "0 < ui_attempts i \<and> pred_option ((=) (ui_caller i)) caller_name" if "i \<in> set ?items" for i
  proof -
    from that ks(2) obtain r where r: "r \<in> set rows" and i: "i = usage_item_of rows (group_key r)"
      by auto
    then have "filter (\<lambda>s. group_key s = group_key r) rows \<noteq> []" by (auto simp: filter_empty_conv)
    then have "0 < ui_attempts i" by (simp add: i sum_list_triv)
    with r show ?thesis
      by (auto simp: i assms(3) usage_rows_def group_key_def split: option.splits)
  qed
  ultimately show ?thesis
    using ks sums [of "\<lambda>_. 1 :: int"] sums [of row_tokens] sums [of ar_cost_usd] assms(2)
    by (intro exI [of _ ?items])
      (simp add: partition_report_def usage_summary_def with_pool_def assms(3) [symmetric] comp_def sum_list_triv)
qed

text \<open>C27: The usage report is a partition of what it reports on: every row of the caller (or
  of everyone) since the given time is counted in exactly one line, so that attempts, tokens
  and costs add up to the totals of the table; no two lines have the same caller, provider
  and model, no line is empty, and with a caller given no line shows anybody else's usage.\<close>

theorem usage_summary_partitions:
  assumes "collating co" and "db_connected db"
    and "rows = usage_rows caller_name since db"
  shows "\<exists>items. usage_summary co caller_name since db = (Inr items, db) \<and>
    sum_list (map ui_attempts items) = int (length rows) \<and>
    sum_list (map ui_tokens items) = sum_list (map row_tokens rows) \<and>
    sum_list (map ui_cost_usd items) = sum_list (map ar_cost_usd rows) \<and>
    distinct (map (\<lambda>i. (ui_caller i, ui_provider i, ui_model i)) items) \<and>
    (\<forall>i \<in> set items. 0 < ui_attempts i \<and> pred_option ((=) (ui_caller i)) caller_name)"
  using usage_summary_partition [OF assms] unfolding partition_report_def .


section \<open>A concrete queue and table\<close>

definition demo_row :: "string \<Rightarrow> int \<Rightarrow> attempt_record" where
  "demo_row p n =
     \<lparr>ar_request_id = ''r1'', ar_caller = ''dev'', ar_tier = ''fast'', ar_provider = p,
      ar_model = ''m'', ar_attempt_idx = n, ar_input_tokens = 10, ar_output_tokens = n,
      ar_cost_usd = 1 / 1000, ar_latency_ms = 5, ar_status = ''ok'', ar_vendor_req_id = None,
      ar_client_trace_id = None\<rparr>"

definition demo_db :: database where
  "demo_db = \<lparr>db_connected = True, db_now = 90000, db_requests = [], db_callers = [],
     db_tiers = [], db_tier_models = [], db_routing = None\<rparr>"

text \<open>Three records come while there is room for two; one more while the batch is written.\<close>

definition demo_queue_events :: "queue_event list" where
  "demo_queue_events =
     [Start, Run, Enqueue (demo_row ''a'' 0), Enqueue (demo_row ''b'' 1), Enqueue (demo_row ''c'' 2),
      Wake, Enqueue (demo_row ''a'' 3), Write_returns]"

definition demo_queue :: queue_state where
  "demo_queue = \<lparr>qs_buffer = [demo_row ''a'' 3], qs_dropped_total = 1, qs_wakeup = False,
     qs_stop = False, qs_phase = Waiting, qs_metric = 0\<rparr>"

definition demo_stored :: database where
  "demo_stored = demo_db\<lparr>db_requests := [(demo_row ''b'' 1, 90000), (demo_row ''c'' 2, 90000)]\<rparr>"

lemma demo_queue_run:
  "aq_run (db_accounting 2 2) demo_queue_events (new_queue, demo_db) = Some (demo_queue, demo_stored)"
  by code_simp

lemma demo_queue_facts:
  "qs_phase demo_queue = Waiting" "qs_buffer demo_queue = [demo_row ''a'' 3]"
  "qs_dropped_total demo_queue = 1" "qs_metric demo_queue = 0" "db_rows demo_db = []"
  "concat (map offered demo_queue_events) =
     [demo_row ''a'' 0, demo_row ''b'' 1, demo_row ''c'' 2, demo_row ''a'' 3]"
  by (simp_all add: demo_queue_def demo_queue_events_def db_rows_def demo_db_def)

theorem records_conserved_witness:
  "\<exists>written. db_rows demo_stored = map stored_row written \<and> length written = 2 \<and>
     subseq (written @ [demo_row ''a'' 3]) (concat (map offered demo_queue_events)) \<and>
     qs_dropped_total demo_queue = 1"
  using records_conserved [OF db_writer.batched_writer_axioms demo_queue_run refl]
  by (auto simp: demo_queue_facts)

text \<open>The same queue shut down right after: one more batch, written inside the loop.\<close>

definition demo_stopped :: "queue_state \<times> database" where
  "demo_stopped =
     (\<lparr>qs_buffer = [], qs_dropped_total = 1, qs_wakeup = False, qs_stop = True,
       qs_phase = Stopped, qs_metric = 0\<rparr>,
      demo_stored\<lparr>db_requests :=
        db_requests demo_stored @ [(demo_row ''a'' 3, 90000)]\<rparr>)"

lemma demo_shutdown_run:
  "aq_run (db_accounting 2 2) [Wake, Write_returns, Join] (stop_begin demo_queue, demo_stored) =
     Some (fst demo_stopped, snd demo_stopped)"
  by code_simp

theorem shutdown_drains_witness:
  "(\<exists>written. db_rows (snd demo_stopped) = map stored_row written \<and> length written = 3) \<and>
   qs_buffer (fst demo_stopped) = []"
proof -
  have ph: "qs_phase demo_queue \<notin> {Idle, Stopped}" "\<And>b. qs_phase demo_queue \<noteq> Final_writing b"
    by (simp_all add: demo_queue_facts)
  have rest: "\<forall>ev \<in> coroutine_events. aq_step (db_accounting 2 2) ev
      (fst demo_stopped, snd demo_stopped) = None"
    by (simp add: demo_stopped_def)
  from shutdown_drains [OF db_writer.batched_writer_axioms demo_queue_run ph _ demo_shutdown_run] rest
  show ?thesis
    by (auto simp: demo_queue_facts demo_stopped_def)
qed

theorem overflow_keeps_newest_witness:
  "qs_buffer (fold (enqueue (db_accounting 2 200)) [demo_row ''a'' 0, demo_row ''b'' 1, demo_row ''c'' 2]
      new_queue) = [demo_row ''b'' 1, demo_row ''c'' 2]"
  using overflow_keeps_newest [OF _ refl refl, of "db_accounting 2 200"
      "[demo_row ''a'' 0, demo_row ''b'' 1, demo_row ''c'' 2]"]
  by (simp add: db_accounting_def)

theorem usage_summary_partitions_witness:
  "\<exists>items. fst (usage_summary c_collation (Some ''dev'') None (snd demo_stopped)) = Inr items \<and>
     sum_list (map ui_attempts items) = 3 \<and> sum_list (map ui_tokens items) = 36"
proof -
  have conn: "db_connected (snd demo_stopped)"
    and rows: "usage_rows (Some ''dev'') None (snd demo_stopped) =
      [demo_row ''b'' 1, demo_row ''c'' 2, demo_row ''a'' 3]"
    by code_simp+
  from usage_summary_partitions [OF c_order.collating_axioms conn rows [symmetric]]
  show ?thesis by (auto simp: row_tokens_def demo_row_def)
qed

end
