(* ===== verification/PyText.thy ===== *)
theory PyText
  imports Prelude
begin

text \<open>
  The string methods the gateway uses, on strings of Latin-1 characters.
\<close>

text \<open>\<open>str.isspace\<close>, \<open>strip\<close>, \<open>startswith\<close>.\<close>

definition py_space :: "char \<Rightarrow> bool" where
  "py_space c \<longleftrightarrow>
     (let n = (of_char c :: nat)
      in 9 \<le> n \<and> n \<le> 13 \<or> 28 \<le> n \<and> n \<le> 32 \<or> n = 133 \<or> n = 160)"

definition py_strip :: "string \<Rightarrow> string" where
  "py_strip s = rev (dropWhile py_space (rev (dropWhile py_space s)))"

definition starts_with :: "string \<Rightarrow> string \<Rightarrow> bool" where
  "starts_with p s \<longleftrightarrow> take (length p) s = p"

lemma starts_with_append [simp]: "starts_with p (p @ s)"
  by (simp add: starts_with_def)

lemma starts_withD: "starts_with p s \<Longrightarrow> s = p @ drop (length p) s"
  by (metis append_take_drop_id starts_with_def)

text \<open>\<open>s.replace\<close> of one character by another, \<open>lower\<close> and \<open>upper\<close> of ASCII letters.\<close>

definition replace_char :: "char \<Rightarrow> char \<Rightarrow> string \<Rightarrow> string" where
  "replace_char a b s = map (\<lambda>c. if c = a then b else c) s"

definition lower_char :: "char \<Rightarrow> char" where
  "lower_char c = (let n = (of_char c :: nat) in if 65 \<le> n \<and> n \<le> 90 then char_of (n + 32) else c)"

definition upper_char :: "char \<Rightarrow> char" where
  "upper_char c = (let n = (of_char c :: nat) in if 97 \<le> n \<and> n \<le> 122 then char_of (n - 32) else c)"

definition ascii_lower :: "string \<Rightarrow> string" where
  "ascii_lower s = map lower_char s"

definition ascii_upper :: "string \<Rightarrow> string" where
  "ascii_upper s = map upper_char s"

text \<open>\<open>sep.join(parts)\<close> and \<open>sub in s\<close>.\<close>

fun py_join :: "string \<Rightarrow> string list \<Rightarrow> string" where
  "py_join sep [] = []"
| "py_join sep [s] = s"
| "py_join sep (s # t # ts) = s @ sep @ py_join sep (t # ts)"

fun contains :: "string \<Rightarrow> string \<Rightarrow> bool" where
  "contains sub [] = (sub = [])"
| "contains sub (c # s) = (starts_with sub (c # s) \<or> contains sub s)"

lemma contains_iff: "contains sub s \<longleftrightarrow> (\<exists>a b. s = a @ sub @ b)"
proof (induction sub s rule: contains.induct)
  case (2 sub c s)
  show ?case
  proof
    assume "contains sub (c # s)"
    then consider "starts_with sub (c # s)" | "contains sub s" by auto
    then show "\<exists>a b. c # s = a @ sub @ b"
    proof cases
      case 1
      then show ?thesis by (metis append_Nil starts_withD)
    next
      case 2
      with "2.IH" obtain a b where "s = a @ sub @ b" by blast
      then show ?thesis by (intro exI [of _ "c # a"] exI [of _ b]) simp
    qed
  next
    assume "\<exists>a b. c # s = a @ sub @ b"
    then obtain a b where ab: "c # s = a @ sub @ b" by blast
    show "contains sub (c # s)"
    proof (cases a)
      case Nil
      with ab show ?thesis by (metis append_Nil contains.simps(2) starts_with_append)
    next
      case (Cons x xs)
      with ab have "s = xs @ sub @ b" by simp
      with "2.IH" show ?thesis by auto
    qed
  qed
qed auto

end
