(* ===== verification/Auth.thy ===== *)
theory Auth
  imports Db PyText
begin

text \<open>
  \<open>gateway/auth.py\<close>: from an \<open>Authorization\<close> header to a caller, through a cache. The HMAC,
  the clock and the database are parameters; the cache is an \<open>OrderedDict\<close>, an association
  list whose last entry is the most recently used one. A call of \<open>resolve_bearer\<close> is two
  steps, before and after it awaits the database, and other calls may come in between.
\<close>

section \<open>Keys\<close>

definition hash_api_key :: "(string \<Rightarrow> string \<Rightarrow> string) \<Rightarrow> string \<Rightarrow> string \<Rightarrow> string pyres" where
  "hash_api_key hmac_sha256_hex raw pepper =
     (if pepper = '''' then Inl (ValueError ''GATEWAY_KEY_HASH_PEPPER must be a non-empty string'')
      else Inr (''v2:hmac-sha256:'' @ hmac_sha256_hex pepper raw))"

definition bearer_token :: "string option \<Rightarrow> string option" where
  "bearer_token header =
     (case header of
        None \<Rightarrow> None
      | Some h \<Rightarrow>
          if h = '''' \<or> \<not> starts_with ''Bearer '' h then None
          else let token = py_strip (drop (length ''Bearer '') h)
               in if token = '''' then None else Some token)"

section \<open>The resolver\<close>

type_synonym auth_cache = "(string, rat \<times> caller option) pydict"

record 'w resolver =
  au_hmac :: "string \<Rightarrow> string \<Rightarrow> string"
  au_caller_by_key_hash :: "string \<Rightarrow> 'w \<Rightarrow> caller option pyres \<times> 'w"
  au_pepper :: string
  au_ttl :: rat
  au_maxsize :: int
  au_now :: "'w \<Rightarrow> rat \<times> 'w"

text \<open>\<open>CallerResolver(...)\<close> refuses an empty pepper.\<close>

definition mk_resolver :: "'w resolver \<Rightarrow> 'w resolver pyres" where
  "mk_resolver au =
     (if au_pepper au = ''''
      then Inl (ValueError ''GATEWAY_KEY_HASH_PEPPER must be a non-empty string'')
      else Inr au)"

definition move_to_end :: "'k \<Rightarrow> ('k, 'v) pydict \<Rightarrow> ('k, 'v) pydict" where
  "move_to_end k d = (case map_of d k of None \<Rightarrow> d | Some v \<Rightarrow> AList.delete k d @ [(k, v)])"

text \<open>A fresh entry of the cache; the outer option says whether there is one.\<close>

definition cache_get :: "'w resolver \<Rightarrow> string \<Rightarrow> rat \<Rightarrow> auth_cache \<Rightarrow> caller option option" where
  "cache_get au key_hash now cache =
     (case map_of cache key_hash of
        None \<Rightarrow> None
      | Some (t, c) \<Rightarrow> if now - t < au_ttl au then Some c else None)"

definition enabled_only :: "caller option \<Rightarrow> caller option" where
  "enabled_only c =
     (case c of None \<Rightarrow> None | Some x \<Rightarrow> if \<not> cl_enabled x then None else Some x)"

definition cache_store :: "'w resolver \<Rightarrow> string \<Rightarrow> rat \<Rightarrow> caller option \<Rightarrow> auth_cache \<Rightarrow> auth_cache" where
  "cache_store au key_hash now c cache =
     (let cache = AList.update key_hash (now, c) cache;
          cache = move_to_end key_hash cache
      in if au_maxsize au < int (length cache) then tl cache else cache)"

definition resolve_bearer ::
    "'w resolver \<Rightarrow> string option \<Rightarrow> auth_cache \<Rightarrow> 'w \<Rightarrow> caller option pyres \<times> auth_cache \<times> 'w" where
  "resolve_bearer au header cache w =
     (case bearer_token header of
        None \<Rightarrow> (Inr None, cache, w)
      | Some token \<Rightarrow>
          (case hash_api_key (au_hmac au) token (au_pepper au) of
             Inl e \<Rightarrow> (Inl e, cache, w)
           | Inr key_hash \<Rightarrow>
               (let (now, w) = au_now au w
                in case cache_get au key_hash now cache of
                     Some c \<Rightarrow> (Inr c, move_to_end key_hash cache, w)
                   | None \<Rightarrow>
                       (case au_caller_by_key_hash au key_hash w of
                          (Inl e, w) \<Rightarrow> (Inl e, cache, w)
                        | (Inr c, w) \<Rightarrow>
                            (Inr (enabled_only c),
                             cache_store au key_hash now (enabled_only c) cache, w)))))"

section \<open>The cache keeps the most recently used keys\<close>

text \<open>What one request for a key does to the cache, when the database would answer \<open>c\<close>.\<close>

definition serve :: "'w resolver \<Rightarrow> string \<times> rat \<times> caller option \<Rightarrow> auth_cache \<Rightarrow> auth_cache" where
  "serve au = (\<lambda>(key_hash, now, c) cache.
     case cache_get au key_hash now cache of
       Some _ \<Rightarrow> move_to_end key_hash cache
     | None \<Rightarrow> cache_store au key_hash now (enabled_only c) cache)"

lemma keys_delete [simp]: "map fst (AList.delete k d) = removeAll k (map fst d)"
  by (induction d) auto

lemma keys_move_to_end:
  "k \<in> fst ` set d \<Longrightarrow> map fst (move_to_end k d) = removeAll k (map fst d) @ [k]"
  by (auto simp: move_to_end_def map_of_eq_None_iff split: option.splits)

lemma removeAll_update: "removeAll k (map fst (AList.update k v d)) = removeAll k (map fst d)"
  by (induction d) auto

text \<open>\<open>lastn n xs\<close>: the last \<open>n\<close> elements.\<close>

definition lastn :: "nat \<Rightarrow> 'a list \<Rightarrow> 'a list" where
  "lastn n xs = drop (length xs - n) xs"

lemma removeAll_notin [simp]: "x \<notin> set xs \<Longrightarrow> removeAll x xs = xs"
  by (induction xs) auto

lemma remdups_snoc: "remdups (xs @ [x]) = removeAll x (remdups xs) @ [x]"
  by (induction xs) auto

text \<open>Touching a key and cutting to size commute with looking at the last \<open>n\<close>.\<close>

lemma lastn_append: "n \<le> length ys \<Longrightarrow> lastn n (xs @ ys) = lastn n ys"
  by (simp add: lastn_def)

lemma lastn_short: "length xs \<le> n \<Longrightarrow> lastn n xs = xs"
  by (simp add: lastn_def)

lemma length_lastn: "length (lastn n xs) \<le> n"
  by (simp add: lastn_def)

lemma lastn_snoc:
  "length xs \<le> n \<Longrightarrow> lastn n (xs @ [x]) = (if length xs = n then tl (xs @ [x]) else xs @ [x])"
  by (auto simp: lastn_def drop_Suc simp del: drop_append)

lemma lastn_touch:
  assumes "distinct ks"
  shows "lastn n (removeAll k (lastn n ks) @ [k]) = lastn n (removeAll k ks @ [k])"
proof (cases "length ks \<le> n")
  case False
  let ?p = "take (length ks - n) ks" and ?K = "lastn n ks"
  have ks: "ks = ?p @ ?K" by (simp add: lastn_def)
  have "length ?K = n" using False by (simp add: lastn_def)
  moreover have "distinct ?K" using assms by (simp add: lastn_def)
  ultimately have "n \<le> length (removeAll k ?K @ [k])"
    by (auto simp: distinct_remove1_removeAll [symmetric] length_remove1)
  moreover have "removeAll k ks @ [k] = removeAll k ?p @ removeAll k ?K @ [k]"
    using ks by (metis append_assoc removeAll_append)
  ultimately show ?thesis by (simp only: lastn_append)
qed (simp add: lastn_short)

lemma keys_store:
  assumes "0 \<le> au_maxsize au" and "distinct (map fst cache)"
    and "length cache \<le> nat (au_maxsize au)"
  shows "map fst (cache_store au k now c cache) =
    lastn (nat (au_maxsize au)) (removeAll k (map fst cache) @ [k])"
proof -
  let ?d = "move_to_end k (AList.update k (now, c) cache)"
  have keys: "map fst ?d = removeAll k (map fst cache) @ [k]"
    by (simp add: keys_move_to_end removeAll_update update_conv' flip: dom_map_of_conv_image_fst)
  then have len: "length ?d = Suc (length (removeAll k (map fst cache)))"
    by (metis length_append_singleton length_map)
  have le: "length (removeAll k (map fst cache)) \<le> nat (au_maxsize au)"
    using assms(3) length_removeAll_less_eq [of k "map fst cache"] by simp
  have "map fst (cache_store au k now c cache) = (if au_maxsize au < int (length ?d)
      then tl (map fst ?d) else map fst ?d)"
    by (simp add: cache_store_def Let_def map_tl)
  with le assms(1) show ?thesis
    unfolding keys len lastn_snoc [OF le] by auto
qed

lemma cache_get_key: "cache_get au k now cache = Some c \<Longrightarrow> k \<in> fst ` set cache"
  by (auto simp: cache_get_def split: option.splits if_splits dest!: map_of_SomeD
      intro: image_eqI [where x = "(k, t, c)" for t c])

lemma serve_keys:
  assumes "0 \<le> au_maxsize au" and "distinct (map fst cache)"
    and "length cache \<le> nat (au_maxsize au)"
  shows "map fst (serve au (k, now, c) cache) =
    lastn (nat (au_maxsize au)) (removeAll k (map fst cache) @ [k])"
proof (cases "cache_get au k now cache")
  case None
  then show ?thesis by (simp add: serve_def keys_store assms)
next
  case (Some c')
  have k: "k \<in> set (map fst cache)" using cache_get_key [OF Some] by simp
  then have "0 < length cache" by (cases cache) simp_all
  with k assms(2) have "length (removeAll k (map fst cache) @ [k]) = length cache"
    by (simp add: distinct_remove1_removeAll [symmetric] length_remove1)
  with Some k assms(3) show ?thesis
    by (simp add: serve_def keys_move_to_end lastn_short)
qed

lemma serve_all_keys:
  assumes "0 \<le> au_maxsize au"
  shows "map fst (fold (serve au) reqs []) = lastn (nat (au_maxsize au)) (remdups (map fst reqs))"
proof (induction reqs rule: rev_induct)
  case Nil
  then show ?case by (simp add: lastn_def)
next
  case (snoc r reqs)
  obtain k now c where r: "r = (k, now, c)" by (cases r)
  let ?n = "nat (au_maxsize au)" and ?cache = "fold (serve au) reqs []"
  have "distinct (map fst ?cache)" and "length ?cache \<le> ?n"
    using snoc.IH length_lastn [of ?n "remdups (map fst reqs)"]
    by (simp add: lastn_def, metis length_map)
  then have "map fst (serve au r ?cache) = lastn ?n (removeAll k (map fst ?cache) @ [k])"
    unfolding r by (rule serve_keys [OF assms])
  also have "\<dots> = lastn ?n (removeAll k (remdups (map fst reqs)) @ [k])"
    by (simp add: snoc.IH lastn_touch)
  finally show ?case by (simp add: r remdups_snoc)
qed

section \<open>Interleaved requests\<close>

text \<open>
  All requests of a process share the cache. Between reading the clock and storing the answer
  of the database a request is pending, and anything may happen; the log is what the database
  has answered, with the time it did.
\<close>

inductive auth_reach ::
    "'w resolver \<Rightarrow> ('w \<Rightarrow> rat) \<Rightarrow> auth_cache \<Rightarrow> (string \<times> rat) list \<Rightarrow> 'w \<Rightarrow>
     (rat \<times> string \<times> caller option) list \<Rightarrow> bool" for au clk where
  init: "auth_reach au clk [] [] w []"
| hit: "auth_reach au clk (move_to_end k cache) pending w' lg"
    if "auth_reach au clk cache pending w lg" and "au_now au w = (now, w')"
      and "cache_get au k now cache = Some c"
| miss: "auth_reach au clk cache ((k, now) # pending) w' lg"
    if "auth_reach au clk cache pending w lg" and "au_now au w = (now, w')"
      and "cache_get au k now cache = None"
| answer: "auth_reach au clk (cache_store au k now (enabled_only c) cache) (remove1 (k, now) pending)
      w' (lg @ [(clk w, k, enabled_only c)])"
    if "auth_reach au clk cache pending w lg" and "(k, now) \<in> set pending"
      and "au_caller_by_key_hash au k w = (Inr c, w')"
| raises: "auth_reach au clk cache (remove1 (k, now) pending) w' lg"
    if "auth_reach au clk cache pending w lg" and "(k, now) \<in> set pending"
      and "au_caller_by_key_hash au k w = (Inl e, w')"
| other: "auth_reach au clk cache pending w' lg"
    if "auth_reach au clk cache pending w lg" and "clk w \<le> clk w'"

text \<open>Every entry is backed by an answer that is not older than the entry says.\<close>

definition backed :: "('w \<Rightarrow> rat) \<Rightarrow> auth_cache \<Rightarrow> (string \<times> rat) list \<Rightarrow> 'w \<Rightarrow>
    (rat \<times> string \<times> caller option) list \<Rightarrow> bool" where
  "backed clk cache pending w lg \<longleftrightarrow> distinct (map fst cache) \<and>
     (\<forall>(k, now) \<in> set pending. now \<le> clk w) \<and>
     (\<forall>k t c. map_of cache k = Some (t, c) \<longrightarrow>
        (\<exists>t'. (t', k, c) \<in> set lg \<and> t \<le> t' \<and> t' \<le> clk w \<and> pred_option cl_enabled c))"

lemma map_of_move_to_end [simp]:
  "distinct (map fst d) \<Longrightarrow> map_of (move_to_end k d) = map_of d"
  by (auto simp: move_to_end_def fun_eq_iff map_add_def delete_conv' split: option.splits)

lemma distinct_move_to_end [simp]: "distinct (map fst d) \<Longrightarrow> distinct (map fst (move_to_end k d))"
  by (auto simp: move_to_end_def distinct_removeAll split: option.splits)

lemma map_of_tlD: "distinct (map fst d) \<Longrightarrow> map_of (tl d) k = Some v \<Longrightarrow> map_of d k = Some v"
  by (cases d) (auto dest!: map_of_SomeD simp: image_iff)

lemma cache_store_entries:
  assumes "distinct (map fst cache)"
  shows "distinct (map fst (cache_store au k now c cache))"
    and "map_of (cache_store au k now c cache) k' = Some (t, c') \<Longrightarrow>
      (if k' = k then (t, c') = (now, c) else map_of cache k' = Some (t, c'))"
proof -
  let ?d = "move_to_end k (AList.update k (now, c) cache)"
  have upd: "distinct (map fst (AList.update k (now, c) cache))"
    using assms by (rule distinct_update)
  then have d: "distinct (map fst ?d)" by simp
  show "distinct (map fst (cache_store au k now c cache))"
    using d by (simp add: cache_store_def Let_def map_tl distinct_tl)
  show "if k' = k then (t, c') = (now, c) else map_of cache k' = Some (t, c')"
    if "map_of (cache_store au k now c cache) k' = Some (t, c')"
  proof -
    have "map_of ?d k' = Some (t, c')"
      using that map_of_tlD [OF d] by (auto simp: cache_store_def Let_def split: if_splits)
    with upd show ?thesis by (auto split: if_splits)
  qed
qed

lemma backed_later:
  "backed clk cache pending w lg \<Longrightarrow> clk w \<le> clk w' \<Longrightarrow> set pending' \<subseteq> set pending \<Longrightarrow>
   backed clk cache pending' w' lg"
  by (fastforce simp: backed_def)

lemma enabled_only_enabled [simp]: "pred_option cl_enabled (enabled_only c)"
  by (auto simp: enabled_only_def split: option.splits)

text \<open>The clock does not go back, neither while it is read nor while the database answers.\<close>

locale resolving =
  fixes au :: "'w resolver" and clk :: "'w \<Rightarrow> rat"
  assumes now_clk: "au_now au w = (now, w') \<Longrightarrow> now = clk w \<and> clk w \<le> clk w'"
    and lookup_clk: "au_caller_by_key_hash au k w = (r, w') \<Longrightarrow> clk w \<le> clk w'"
begin

lemma auth_reach_backed:
  assumes "auth_reach au clk cache pending w lg"
  shows "backed clk cache pending w lg"
  using assms
proof induction
  case (init w)
  then show ?case by (simp add: backed_def)
next
  case (hit cache pending w lg now w' k c)
  have "clk w \<le> clk w'" using now_clk [OF hit.hyps(2)] by simp
  with hit.IH have "backed clk cache pending w' lg" by (auto intro: backed_later)
  then show ?case by (simp add: backed_def)
next
  case (miss cache pending w lg now w' k)
  have "now = clk w" and "clk w \<le> clk w'"
    using now_clk [OF miss.hyps(2)] by simp_all
  with backed_later [OF miss.IH \<open>clk w \<le> clk w'\<close> subset_refl] show ?case
    by (auto simp: backed_def)
next
  case (answer cache pending w lg k now c w')
  have le: "clk w \<le> clk w'" using lookup_clk [OF answer.hyps(3)] .
  have now: "now \<le> clk w" using answer.IH answer.hyps(2) by (auto simp: backed_def)
  have dist: "distinct (map fst cache)" using answer.IH by (simp add: backed_def)
  show ?case
    unfolding backed_def
  proof (intro conjI allI impI)
    show "distinct (map fst (cache_store au k now (enabled_only c) cache))"
      by (rule cache_store_entries [OF dist])
    show "\<forall>(k, now) \<in> set (remove1 (k, now) pending). now \<le> clk w'"
      using backed_later [OF answer.IH le set_remove1_subset] by (simp add: backed_def)
    fix k' t c'
    assume "map_of (cache_store au k now (enabled_only c) cache) k' = Some (t, c')"
    note entry = cache_store_entries(2) [OF dist this]
    show "\<exists>t'. (t', k', c') \<in> set (lg @ [(clk w, k, enabled_only c)]) \<and> t \<le> t' \<and>
        t' \<le> clk w' \<and> pred_option cl_enabled c'"
    proof (cases "k' = k")
      case True
      with entry now le show ?thesis by auto
    next
      case False
      with entry have "map_of cache k' = Some (t, c')" by simp
      with answer.IH obtain t' where "(t', k', c') \<in> set lg" and "t \<le> t'" and "t' \<le> clk w"
        and "pred_option cl_enabled c'"
        unfolding backed_def by blast
      with le show ?thesis by (auto intro!: exI [of _ t'])
    qed
  qed
next
  case (raises cache pending w lg k now e w')
  show ?case
    by (rule backed_later [OF raises.IH lookup_clk [OF raises.hyps(3)]
          set_remove1_subset])
next
  case (other cache pending w lg w')
  then show ?case by (auto intro: backed_later)
qed

end

section \<open>What the resolver promises\<close>

text \<open>The database's word for a caller, asked now or less than a lifetime ago.\<close>

definition vouched ::
    "'w resolver \<Rightarrow> ('w \<Rightarrow> rat) \<Rightarrow> (rat \<times> string \<times> caller option) list \<Rightarrow> string option \<Rightarrow> 'w \<Rightarrow>
     caller \<Rightarrow> bool" where
  "vouched au clk lg header w c \<longleftrightarrow> (\<exists>token key w1. bearer_token header = Some token \<and>
    hash_api_key (au_hmac au) token (au_pepper au) = Inr key \<and> cl_enabled c \<and>
    (fst (au_caller_by_key_hash au key w1) = Inr (Some c) \<and> w1 = snd (au_now au w) \<or>
     (\<exists>t. (t, key, Some c) \<in> set lg \<and> clk w - au_ttl au < t \<and> t \<le> clk w)))"

lemma accepted_vouched:
  assumes "auth_reach au clk cache pending w lg" and "resolving au clk"
    and "resolve_bearer au header cache w = (Inr (Some c), cache', w')"
  shows "vouched au clk lg header w c"
proof -
  obtain token key now w1 where tok: "bearer_token header = Some token"
    and key: "hash_api_key (au_hmac au) token (au_pepper au) = Inr key"
    and now: "au_now au w = (now, w1)"
    using assms(3) by (auto simp: resolve_bearer_def split: option.splits sum.splits prod.splits)
  have clk: "now = clk w" using resolving.now_clk [OF assms(2) now] by simp
  note backed = resolving.auth_reach_backed [OF assms(2,1), unfolded backed_def]
  show ?thesis
  proof (cases "cache_get au key now cache")
    case None
    with assms(3) have "fst (au_caller_by_key_hash au key w1) = Inr (Some c)" and "cl_enabled c"
      by (auto simp: resolve_bearer_def tok key now enabled_only_def
          split: option.splits sum.splits prod.splits if_splits)
    then show ?thesis using tok key now by (auto simp: vouched_def)
  next
    case (Some c0)
    with assms(3) obtain t where "map_of cache key = Some (t, Some c)" and t: "now - t < au_ttl au"
      by (auto simp: resolve_bearer_def tok key now cache_get_def split: option.splits if_splits)
    with backed obtain t' where "(t', key, Some c) \<in> set lg" and "t \<le> t'" and "t' \<le> clk w"
      and "cl_enabled c"
      by fastforce
    moreover have "clk w - au_ttl au < t'" using t \<open>t \<le> t'\<close> by (simp add: clk)
    ultimately show ?thesis using tok key unfolding vouched_def by blast
  qed
qed

text \<open>C17: Whatever requests are interleaved, a caller is only let in on the word of the
  database: the header carries a bearer token, and the database answered the token's hash with
  that caller, enabled, less than the cache's lifetime ago. So a revoked or disabled key is
  refused at the latest one lifetime after the table changed.\<close>

theorem accepted_recently_enabled:
  assumes "auth_reach au clk cache pending w lg" and "resolving au clk"
    and "resolve_bearer au header cache w = (Inr (Some c), cache', w')"
  shows "\<exists>token key w1. bearer_token header = Some token \<and>
    hash_api_key (au_hmac au) token (au_pepper au) = Inr key \<and> cl_enabled c \<and>
    (fst (au_caller_by_key_hash au key w1) = Inr (Some c) \<and> w1 = snd (au_now au w) \<or>
     (\<exists>t. (t, key, Some c) \<in> set lg \<and> clk w - au_ttl au < t \<and> t \<le> clk w))"
  using accepted_vouched [OF assms] unfolding vouched_def .


text \<open>The cache is the least-recently-used one: after any sequence of requests it holds
  exactly the keys of the most recent requests, each once, as many as its size allows, the
  most recent last. It never grows past that size, however many tokens are tried.\<close>

theorem cache_is_lru:
  assumes "0 \<le> au_maxsize au"
  shows "map fst (fold (serve au) reqs []) = lastn (nat (au_maxsize au)) (remdups (map fst reqs))
    \<and> int (length (fold (serve au) reqs [])) \<le> au_maxsize au"
  using serve_all_keys [OF assms, of reqs] length_lastn [of "nat (au_maxsize au)" "remdups (map fst reqs)"]
    assms
  by (metis length_map nat_le_iff of_nat_le_iff int_nat_eq)

section \<open>The gateway's resolver\<close>

text \<open>\<open>CallerResolver(db=db, pepper=pepper)\<close> with the defaults.\<close>

definition db_resolver :: "(string \<Rightarrow> string \<Rightarrow> string) \<Rightarrow> string \<Rightarrow> database resolver" where
  "db_resolver hmac_sha256_hex pepper =
     \<lparr>au_hmac = hmac_sha256_hex, au_caller_by_key_hash = caller_by_key_hash, au_pepper = pepper,
      au_ttl = 60, au_maxsize = 10000, au_now = (\<lambda>db. (db_now db, db))\<rparr>"

interpretation db_auth: resolving "db_resolver hmac_sha256_hex pepper" db_now
proof
  show "now = db_now w \<and> db_now w \<le> db_now w'"
    if "au_now (db_resolver hmac_sha256_hex pepper) w = (now, w')" for w now w'
    using that by (auto simp: db_resolver_def)
  show "db_now w \<le> db_now w'"
    if "au_caller_by_key_hash (db_resolver hmac_sha256_hex pepper) k w = (r, w')" for k w r w'
    using arg_cong [OF that, of snd] by (simp add: db_resolver_def)
qed

text \<open>
  A caller resolves, is disabled half a minute later, and is still let in; a hash that only
  puts the pepper in front stands in for the HMAC.
\<close>

definition demo_resolver :: "database resolver" where
  "demo_resolver = db_resolver (@) ''salt''"

definition demo_key :: string where
  "demo_key = ''v2:hmac-sha256:saltdev-key''"

definition dev_caller :: caller where
  "dev_caller = \<lparr>cl_name = ''dev'', cl_daily_token_cap = None, cl_enabled = True\<rparr>"

definition callers_db :: "rat \<Rightarrow> bool \<Rightarrow> database" where
  "callers_db now enabled = demo_db\<lparr>db_now := now, db_callers :=
     [(''dev'', \<lparr>cw_key_hash = demo_key, cw_daily_token_cap = None, cw_enabled = enabled\<rparr>)]\<rparr>"

lemma demo_auth_reach:
  "auth_reach demo_resolver db_now [(demo_key, 100, Some dev_caller)] [] (callers_db 130 False)
     [(100, demo_key, Some dev_caller)]"
proof -
  have miss: "auth_reach demo_resolver db_now [] [(demo_key, 100)] (callers_db 100 True) []"
    by (rule auth_reach.miss [OF auth_reach.init [of _ _ "callers_db 100 True"]])
      (simp_all add: demo_resolver_def db_resolver_def callers_db_def cache_get_def)
  have "au_caller_by_key_hash demo_resolver demo_key (callers_db 100 True) =
      (Inr (Some dev_caller), callers_db 100 True)"
    by code_simp
  from auth_reach.answer [OF miss _ this]
  have "auth_reach demo_resolver db_now [(demo_key, 100, Some dev_caller)] [] (callers_db 100 True)
      [(100, demo_key, Some dev_caller)]"
    by (simp add: cache_store_def move_to_end_def enabled_only_def dev_caller_def demo_resolver_def
        db_resolver_def callers_db_def)
  from auth_reach.other [OF this, of "callers_db 130 False"] show ?thesis
    by (simp add: callers_db_def)
qed

theorem accepted_recently_enabled_witness:
  "\<exists>t. (t, demo_key, Some dev_caller) \<in> set [(100, demo_key, Some dev_caller)] \<and>
     130 - 60 < t \<and> t \<le> (130 :: rat)"
proof -
  have run: "resolve_bearer demo_resolver (Some ''Bearer dev-key'')
      [(demo_key, 100, Some dev_caller)] (callers_db 130 False) =
    (Inr (Some dev_caller), [(demo_key, 100, Some dev_caller)], callers_db 130 False)"
    by code_simp
  have tok: "bearer_token (Some ''Bearer dev-key'') = Some ''dev-key''"
    and key: "hash_api_key (au_hmac demo_resolver) ''dev-key'' (au_pepper demo_resolver) = Inr demo_key"
    and off: "fst (au_caller_by_key_hash demo_resolver demo_key
      (snd (au_now demo_resolver (callers_db 130 False)))) = Inr (Some (dev_caller\<lparr>cl_enabled := False\<rparr>))"
    by code_simp+
  from accepted_recently_enabled [OF demo_auth_reach _ run] off
  show ?thesis
    using db_auth.resolving_axioms [of "(@)" "''salt''"]
    by (auto simp: tok key demo_resolver_def [symmetric] dev_caller_def callers_db_def
        demo_resolver_def db_resolver_def)
qed

theorem cache_is_lru_witness:
  "map fst (fold (serve (demo_resolver\<lparr>au_maxsize := 2\<rparr>))
      [(''a'', 1, None), (''b'', 2, None), (''a'', 3, None), (''c'', 4, None)] []) = [''a'', ''c'']"
  using cache_is_lru [of "demo_resolver\<lparr>au_maxsize := 2\<rparr>"
      "[(''a'', 1, None), (''b'', 2, None), (''a'', 3, None), (''c'', 4, None)]"]
  by (simp add: lastn_def)

end
