(* ===== verification/Refresh.thy ===== *)
theory Refresh
  imports Observe TokenBucket Weights
begin

text \<open>
  \<open>gateway/routing/refresh.py\<close>: the background task that turns the statistics in Redis into
  the signals of the weight engine, and its retry loop.
\<close>

section \<open>One snapshot of signals\<close>

text \<open>The first occurrence of a candidate wins.\<close>

definition all_candidates :: "config \<Rightarrow> (candidate_ref \<times> rat \<times> rate_limit_entry) list" where
  "all_candidates cfg =
     fold (\<lambda>(_, tier_cfg) seen.
         fold (\<lambda>t. dict_setdefault (mk_ref t) (te_weight t, te_rate_limits t))
           (tc_candidates tier_cfg) seen)
       (cfg_tiers cfg) []"

text \<open>
  The task: \<open>rf_available\<close> are the providers with a vendor, \<open>None\<close> when all are. Its state is
  the breakers' snapshot and the engine's cache.
\<close>

record 'w refresh =
  rf_config :: config
  rf_observer :: "'w observer"
  rf_bucket :: "'w token_bucket"
  rf_breakers :: "'w breaker_set"
  rf_available :: "string set option"

definition available :: "'w refresh \<Rightarrow> candidate_ref \<Rightarrow> bool" where
  "available rf cand = (case rf_available rf of None \<Rightarrow> True | Some ps \<Rightarrow> ca_provider cand \<in> ps)"

definition mk_signals ::
    "rat \<Rightarrow> rate_limit_entry \<Rightarrow> window_aggregate \<Rightarrow> int \<Rightarrow> int \<Rightarrow> breaker_state \<Rightarrow> candidate_signals"
  where
  "mk_signals base_weight rl agg rpm_remaining tpm_remaining brk =
     \<lparr>cs_base_weight = base_weight, cs_error_rate = wa_error_rate agg,
      cs_mean_latency_s = wa_mean_latency_s agg, cs_rpm_remaining = rpm_remaining,
      cs_rpm_cap = rl_rpm rl, cs_tpm_remaining = tpm_remaining, cs_tpm_cap = rl_tpm rl,
      cs_breaker = brk\<rparr>"

text \<open>The signals of one candidate: its window, what is left of its bucket, its breaker.\<close>

definition candidate_signals_of ::
    "'w refresh \<Rightarrow> candidate_ref \<times> rat \<times> rate_limit_entry \<Rightarrow> snapshot \<Rightarrow> 'w \<Rightarrow>
     candidate_signals pyres \<times> snapshot \<times> 'w" where
  "candidate_signals_of rf = (\<lambda>(cand, base_weight, rl) snap w.
     let (agg, w) = aggregate (rf_observer rf) cand w
     in case remaining (rf_bucket rf) (ca_provider cand) (ca_model cand) w of
          (Inl e, w) \<Rightarrow> (Inl e, snap, w)
        | (Inr (rpm_remaining, tpm_remaining), w) \<Rightarrow>
            (let (brk, snap) = breaker_state_of (rf_breakers rf) (ca_provider cand) (ca_model cand) snap w
             in (Inr (mk_signals base_weight rl agg rpm_remaining tpm_remaining brk), snap, w)))"

fun signals_loop ::
    "'w refresh \<Rightarrow> (candidate_ref \<times> rat \<times> rate_limit_entry) list \<Rightarrow> signal_cache \<Rightarrow> snapshot \<Rightarrow> 'w \<Rightarrow>
     signal_cache pyres \<times> snapshot \<times> 'w" where
  "signals_loop rf [] out snap w = (Inr out, snap, w)"
| "signals_loop rf (c # cs) out snap w =
     (if \<not> available rf (fst c) then signals_loop rf cs out snap w
      else (case candidate_signals_of rf c snap w of
              (Inl e, snap, w) \<Rightarrow> (Inl e, snap, w)
            | (Inr s, snap, w) \<Rightarrow> signals_loop rf cs (AList.update (fst c) s out) snap w))"

definition build_signals ::
    "'w refresh \<Rightarrow> snapshot \<Rightarrow> 'w \<Rightarrow> signal_cache pyres \<times> snapshot \<times> 'w" where
  "build_signals rf snap w =
     (case refresh_snapshot (rf_breakers rf) snap w of
        (Inl e, snap, w) \<Rightarrow> (Inl e, snap, w)
      | (Inr _, snap, w) \<Rightarrow> signals_loop rf (all_candidates (rf_config rf)) [] snap w)"

definition tick ::
    "'w refresh \<Rightarrow> signal_cache \<Rightarrow> snapshot \<Rightarrow> 'w \<Rightarrow> unit pyres \<times> signal_cache \<times> snapshot \<times> 'w" where
  "tick rf cache snap w =
     (case build_signals rf snap w of
        (Inl e, snap, w) \<Rightarrow> (Inl e, cache, snap, w)
      | (Inr signals, snap, w) \<Rightarrow> (Inr (), update_cache signals cache, snap, w))"

section \<open>The retry loop\<close>

text \<open>
  A float times an int converts the int, and an int of 1024 bits does not fit a double.
\<close>

definition float_of_int :: "int \<Rightarrow> rat pyres" where
  "float_of_int n = (if \<bar>n\<bar> < 2 ^ 1024 then Inr (of_int n) else Inl OverflowError)"

definition max_backoff_s :: rat where
  "max_backoff_s = 30"

definition base_interval_s :: "config \<Rightarrow> rat" where
  "base_interval_s cfg = of_int (refresh_interval_ms (cfg_routing cfg)) / 1000"

definition nominal_backoff :: "rat \<Rightarrow> nat \<Rightarrow> rat pyres" where
  "nominal_backoff base consecutive_failures =
     rbind (float_of_int (2 ^ (consecutive_failures - 1)))
       (\<lambda>factor. Inr (min max_backoff_s (base * factor)))"

text \<open>
  One round of \<open>_loop\<close> up to its wait: the wait and the number of failures in a row, or the
  exception that ends the task. \<open>do_tick\<close> is \<open>tick\<close>, which fails when Redis does; \<open>rnd\<close> is
  \<open>random.random\<close>.
\<close>

definition loop_round ::
    "rat \<Rightarrow> ('w \<Rightarrow> unit pyres \<times> 'w) \<Rightarrow> ('w \<Rightarrow> rat \<times> 'w) \<Rightarrow> nat \<Rightarrow> 'w \<Rightarrow> (rat \<times> nat) pyres \<times> 'w" where
  "loop_round base do_tick rnd consecutive_failures w =
     (case do_tick w of
        (Inr _, w) \<Rightarrow> (Inr (base, 0), w)
      | (Inl _, w) \<Rightarrow>
          (case nominal_backoff base (consecutive_failures + 1) of
             Inl e \<Rightarrow> (Inl e, w)
           | Inr backoff \<Rightarrow>
               (let (u, w) = rnd w
                in (Inr (backoff * (1 / 2 + u * (1 / 2)), consecutive_failures + 1), w))))"

text \<open>The first \<open>k\<close> rounds of a task that is not stopped: the waits, and how it stands then.\<close>

fun loop_rounds ::
    "rat \<Rightarrow> ('w \<Rightarrow> unit pyres \<times> 'w) \<Rightarrow> ('w \<Rightarrow> rat \<times> 'w) \<Rightarrow> nat \<Rightarrow> nat \<Rightarrow> 'w \<Rightarrow> rat list \<times> nat pyres \<times> 'w"
  where
  "loop_rounds base do_tick rnd 0 n w = ([], Inr n, w)"
| "loop_rounds base do_tick rnd (Suc k) n w =
     (case loop_round base do_tick rnd n w of
        (Inl e, w) \<Rightarrow> ([], Inl e, w)
      | (Inr (wait, n), w) \<Rightarrow>
          (let (waits, res, w) = loop_rounds base do_tick rnd k n w in (wait # waits, res, w)))"

section \<open>Lemmas of the signals\<close>

definition tier_entries :: "config \<Rightarrow> tier_entry list" where
  "tier_entries cfg = concat (map (\<lambda>(_, tc). tc_candidates tc) (cfg_tiers cfg))"

lemma fold_tiers:
  "fold (\<lambda>(_, tc) seen. fold f (tc_candidates tc) seen) tiers d =
   fold f (concat (map (\<lambda>(_, tc). tc_candidates tc) tiers)) d"
  by (induction tiers arbitrary: d) auto

lemma all_candidates_entries:
  "all_candidates cfg =
     fold (\<lambda>t. dict_setdefault (mk_ref t) (te_weight t, te_rate_limits t)) (tier_entries cfg) []"
  unfolding all_candidates_def tier_entries_def fold_tiers ..

lemma fold_setdefault:
  "map_of (fold (\<lambda>t. dict_setdefault (f t) (g t)) ts d) k =
     (case map_of d k of Some v \<Rightarrow> Some v | None \<Rightarrow> map_option g (find (\<lambda>t. f t = k) ts))"
  by (induction ts arbitrary: d) (auto split: option.splits)

lemma distinct_fold_setdefault:
  "distinct (map fst (fold (\<lambda>t. dict_setdefault (f t) (g t)) ts d)) = distinct (map fst d)"
  by (induction ts arbitrary: d) simp_all

text \<open>The entry of the first tier that lists the candidate.\<close>

definition first_entry :: "config \<Rightarrow> candidate_ref \<Rightarrow> tier_entry option" where
  "first_entry cfg c = find (\<lambda>t. mk_ref t = c) (tier_entries cfg)"

lemma first_entryD: "first_entry cfg c = Some t \<Longrightarrow> t \<in> set (tier_entries cfg) \<and> mk_ref t = c"
  by (auto simp: first_entry_def find_Some_iff)

lemma map_of_all_candidates:
  "map_of (all_candidates cfg) c =
     map_option (\<lambda>t. (te_weight t, te_rate_limits t)) (first_entry cfg c)"
  by (simp add: all_candidates_entries fold_setdefault first_entry_def)

lemma distinct_all_candidates [simp]: "distinct (map fst (all_candidates cfg))"
  by (simp add: all_candidates_entries distinct_fold_setdefault)

text \<open>With a positive sample count a refresh of the breakers never raises.\<close>

lemma compute_next_state_total:
  "0 < bk_min_samples bs \<Longrightarrow> \<exists>e. compute_next_state bs prev n bad now post = Inr e"
  by (auto simp: compute_next_state_def py_div_def Let_def split: breaker_state.splits option.splits)

lemma refresh_loop_total:
  "0 < bk_min_samples bs \<Longrightarrow> \<exists>new'. refresh_loop bs snap now w cks new = Inr new'"
proof (induction cks arbitrary: new)
  case (Cons ck cks)
  obtain c ks where "ck = (c, ks)" by (cases ck)
  moreover obtain e where "refresh_candidate bs snap now w c ks = Inr e"
    unfolding refresh_candidate_def Let_def using compute_next_state_total [OF Cons.prems] by blast
  ultimately show ?case using Cons by simp
qed simp

lemma refresh_snapshot_total:
  assumes "0 < bk_min_samples bs"
  obtains snap' w' where "refresh_snapshot bs snap w = (Inr (), snap', w')"
proof -
  obtain now w1 where now: "bk_now_s bs w = (now, w1)" by force
  let ?snap = "seed_snapshot bs snap w1"
  obtain new where
    "refresh_loop bs ?snap now w1 (group_keys (enumerate_sample_keys bs ?snap now)) ?snap = Inr new"
    using refresh_loop_total [OF assms] by blast
  with now have "fst (refresh_snapshot bs snap w) = Inr ()"
    by (simp add: refresh_snapshot_def Let_def)
  with that show thesis by (cases "refresh_snapshot bs snap w") auto
qed

text \<open>What the limits must cover for no candidate to raise.\<close>

definition limits_cover :: "'w token_bucket \<Rightarrow> config \<Rightarrow> bool" where
  "limits_cover tb cfg \<longleftrightarrow>
     (\<forall>t \<in> set (tier_entries cfg). \<exists>e. tb_entry tb (te_provider t) (te_model t) = Inr e)"

lemma candidate_signals_of_total:
  assumes "tb_entry (rf_bucket rf) (ca_provider c) (ca_model c) = Inr e"
  obtains s snap' w' where "candidate_signals_of rf (c, base, rl) snap w = (Inr s, snap', w')"
    and "cs_base_weight s = base" and "cs_rpm_cap s = rl_rpm rl" and "cs_tpm_cap s = rl_tpm rl"
  using assms that
  by (auto simp: candidate_signals_of_def remaining_def mk_signals_def split_beta Let_def)

text \<open>The signals carry the weight and the limits of the configuration.\<close>

definition signals_match :: "(candidate_ref \<times> rat \<times> rate_limit_entry) list \<Rightarrow> signal_cache \<Rightarrow> bool" where
  "signals_match cs out \<longleftrightarrow> (\<forall>(c, s) \<in> set out.
     map_of cs c = Some (cs_base_weight s, \<lparr>rl_rpm = cs_rpm_cap s, rl_tpm = cs_tpm_cap s\<rparr>))"

lemma signals_match_Cons:
  "signals_match cs out \<Longrightarrow> c \<notin> fst ` set out \<Longrightarrow> signals_match ((c, v) # cs) out"
  by (force simp: signals_match_def)

lemma signals_loop_total:
  assumes "\<forall>c \<in> fst ` set cs. \<exists>e. tb_entry (rf_bucket rf) (ca_provider c) (ca_model c) = Inr e"
    and "distinct (map fst cs)" and "fst ` set cs \<inter> fst ` set out = {}"
  shows "\<exists>news snap' w'. signals_loop rf cs out snap w = (Inr (out @ news), snap', w') \<and>
    map fst news = filter (available rf) (map fst cs) \<and> signals_match cs news"
  using assms
proof (induction cs arbitrary: out snap w)
  case Nil
  then show ?case by (simp add: signals_match_def)
next
  case (Cons x cs)
  obtain c base rl where x: "x = (c, base, rl)" by (cases x)
  have c: "c \<notin> fst ` set cs" "c \<notin> fst ` set out" using Cons.prems(2,3) by (auto simp: x)
  have fresh: "signals_match (x # cs) news"
    if "map fst news = filter (available rf) (map fst cs)" and "signals_match cs news" for news
    unfolding x using that(2)
  proof (rule signals_match_Cons)
    show "c \<notin> fst ` set news" using arg_cong [OF that(1), of set] c by auto
  qed
  show ?case
  proof (cases "available rf c")
    case False
    with Cons.IH [of out snap w] Cons.prems fresh show ?thesis by (auto simp: x)
  next
    case True
    obtain e where "tb_entry (rf_bucket rf) (ca_provider c) (ca_model c) = Inr e"
      using Cons.prems(1) by (auto simp: x)
    then obtain s snap1 w1 where s: "candidate_signals_of rf (c, base, rl) snap w = (Inr s, snap1, w1)"
      and sels: "cs_base_weight s = base" "cs_rpm_cap s = rl_rpm rl" "cs_tpm_cap s = rl_tpm rl"
      by (rule candidate_signals_of_total)
    have upd: "AList.update c s out = out @ [(c, s)]" using c by (simp add: update_new)
    have "fst ` set cs \<inter> fst ` set (out @ [(c, s)]) = {}" using Cons.prems(3) c by (auto simp: x)
    then obtain news snap' w' where
      loop: "signals_loop rf cs (out @ [(c, s)]) snap1 w1 = (Inr ((out @ [(c, s)]) @ news), snap', w')"
      and news: "map fst news = filter (available rf) (map fst cs)" "signals_match cs news"
      using Cons.IH [of "out @ [(c, s)]" snap1 w1] Cons.prems by auto
    have "signals_match (x # cs) ((c, s) # news)"
      using fresh [OF news] sels by (auto simp: signals_match_def x)
    with True s upd loop news show ?thesis
      by (intro exI [of _ "(c, s) # news"] exI [of _ snap'] exI [of _ w']) (simp add: x)
  qed
qed

section \<open>Lemmas of the retry loop\<close>

lemma float_of_power: "float_of_int (2 ^ n) = (if n < 1024 then Inr (2 ^ n) else Inl OverflowError)"
proof (cases "n < 1024")
  case True
  then have "(2 :: int) ^ n < 2 ^ 1024" by (intro power_strict_increasing) simp_all
  with True show ?thesis by (simp add: float_of_int_def del: power_numeral)
next
  case False
  then have "(2 :: int) ^ 1024 \<le> 2 ^ n" by (intro power_increasing) simp_all
  with False show ?thesis by (simp add: float_of_int_def del: power_numeral)
qed

lemma nominal_backoff_eq:
  "nominal_backoff base (n + 1) =
     (if n < 1024 then Inr (min max_backoff_s (base * 2 ^ n)) else Inl OverflowError)"
  by (simp add: nominal_backoff_def float_of_power)

text \<open>Rounds that all fail, from \<open>n\<close> failures in a row on.\<close>

definition wait_within :: "rat \<Rightarrow> nat \<Rightarrow> rat \<Rightarrow> bool" where
  "wait_within base n wait \<longleftrightarrow>
     min max_backoff_s (base * 2 ^ n) / 2 \<le> wait \<and> wait < min max_backoff_s (base * 2 ^ n)"

lemma failing_round:
  assumes "fst (do_tick w) = Inl e" and "0 < base"
    and "\<And>w. 0 \<le> fst (rnd w) \<and> fst (rnd w) < (1 :: rat)"
  shows "if n < 1024 then \<exists>wait w'. loop_round base do_tick rnd n w = (Inr (wait, n + 1), w') \<and> wait_within base n wait
    else \<exists>w'. loop_round base do_tick rnd n w = (Inl OverflowError, w')"
proof -
  obtain w1 where tick: "do_tick w = (Inl e, w1)" using assms(1) by (cases "do_tick w") auto
  show ?thesis
  proof (cases "n < 1024")
    case True
    let ?b = "min max_backoff_s (base * 2 ^ n)" and ?u = "fst (rnd w1)"
    have "0 < ?b" using assms(2) by (simp add: max_backoff_s_def)
    then have "?b * 1 / 2 \<le> ?b * (1 / 2 + ?u * (1 / 2))" and "?b * (1 / 2 + ?u * (1 / 2)) < ?b * 1"
      using assms(3) [of w1] by (simp_all only: times_divide_eq_right [symmetric] mult_le_cancel_left_pos mult_less_cancel_left_pos) simp_all
    with True tick show ?thesis
      by (simp add: loop_round_def nominal_backoff_eq [of base n, simplified] wait_within_def split_beta Let_def)
  next
    case False
    with tick show ?thesis
      by (simp add: loop_round_def nominal_backoff_eq [of base n, simplified])
  qed
qed

lemma failing_rounds:
  assumes "\<And>w. \<exists>e. fst (do_tick w) = Inl e" and "0 < base"
    and "\<And>w. 0 \<le> fst (rnd w) \<and> fst (rnd w) < (1 :: rat)" and "n \<le> 1024"
    and "loop_rounds base do_tick rnd k n w = (waits, res, w')"
  shows "res = (if n + k \<le> 1024 then Inr (n + k) else Inl OverflowError) \<and>
    length waits = min k (1024 - n) \<and> (\<forall>i < length waits. wait_within base (n + i) (waits ! i))"
  using assms(4,5)
proof (induction k arbitrary: n w waits)
  case (Suc k)
  obtain e where e: "fst (do_tick w) = Inl e" using assms(1) by blast
  note round = failing_round [where n = n and rnd = rnd and base = base and do_tick = do_tick and w = w,
      OF e assms(2,3)]
  show ?case
  proof (cases "n < 1024")
    case True
    with round obtain wait w1 where step: "loop_round base do_tick rnd n w = (Inr (wait, n + 1), w1)"
      and wait: "wait_within base n wait"
      by auto
    obtain ws where ws: "loop_rounds base do_tick rnd k (n + 1) w1 = (ws, res, w')"
      and waits: "waits = wait # ws"
      using Suc.prems(2) by (auto simp: step split: prod.splits)
    have "n + 1 \<le> 1024" using True by simp
    from Suc.IH [OF this ws] True wait show ?thesis
      by (auto simp: waits nth_Cons split: nat.splits)
  next
    case False
    with round Suc.prems show ?thesis by (auto split: prod.splits)
  qed
qed simp

section \<open>What the task promises\<close>

text \<open>The signals a tick leaves in the cache.\<close>

definition covering_signals :: "'w refresh \<Rightarrow> signal_cache \<Rightarrow> bool" where
  "covering_signals rf out \<longleftrightarrow>
    map fst out = filter (available rf) (map fst (all_candidates (rf_config rf))) \<and>
    (\<forall>c s. map_of out c = Some s \<longrightarrow> (\<exists>t. first_entry (rf_config rf) c = Some t \<and>
       cs_base_weight s = te_weight t \<and> cs_rpm_cap s = rl_rpm (te_rate_limits t) \<and>
       cs_tpm_cap s = rl_tpm (te_rate_limits t)))"

lemma tick_covers:
  assumes "limits_cover (rf_bucket rf) (rf_config rf)" and "0 < bk_min_samples (rf_breakers rf)"
  shows "\<exists>out snap' w'. tick rf cache snap w = (Inr (), out, snap', w') \<and> covering_signals rf out"
proof -
  let ?cs = "all_candidates (rf_config rf)"
  obtain snap1 w1 where refresh: "refresh_snapshot (rf_breakers rf) snap w = (Inr (), snap1, w1)"
    by (rule refresh_snapshot_total [OF assms(2)])
  have "\<exists>e. tb_entry (rf_bucket rf) (ca_provider c) (ca_model c) = Inr e" if "c \<in> fst ` set ?cs" for c
  proof -
    have "map_of ?cs c \<noteq> None" using that by (simp add: map_of_eq_None_iff)
    then obtain v where "map_of ?cs c = Some v" by blast
    then obtain t where "first_entry (rf_config rf) c = Some t"
      by (auto simp: map_of_all_candidates)
    with first_entryD [OF this] assms(1) show ?thesis by (auto simp: limits_cover_def)
  qed
  then obtain out snap' w' where
    loop: "signals_loop rf ?cs [] snap1 w1 = (Inr out, snap', w')"
    and out: "map fst out = filter (available rf) (map fst ?cs)" "signals_match ?cs out"
    using signals_loop_total [of ?cs rf "[]" snap1 w1] by auto
  have "\<exists>t. first_entry (rf_config rf) c = Some t \<and> cs_base_weight s = te_weight t \<and>
      cs_rpm_cap s = rl_rpm (te_rate_limits t) \<and> cs_tpm_cap s = rl_tpm (te_rate_limits t)"
    if "map_of out c = Some s" for c s
    using out(2) map_of_SomeD [OF that]
    by (fastforce simp: signals_match_def map_of_all_candidates)
  with refresh loop out(1) show ?thesis
    by (simp add: tick_def build_signals_def update_cache_def covering_signals_def)
qed



text \<open>C29: While the refresh keeps failing, the waits back off: the wait after the \<open>i\<close>-th
  failure is between half and all of the base interval doubled \<open>i - 1\<close> times, cut at thirty
  seconds. But the loop only survives 1024 failures in a row: the power of two in the next
  backoff is too large for a float, the exception is raised outside the \<open>try\<close>, and the task
  ends for good.\<close>

theorem retry_backs_off_and_dies:
  assumes "\<And>w. \<exists>e. fst (do_tick w) = Inl e" and "0 < base"
    and "\<And>w. 0 \<le> fst (rnd w) \<and> fst (rnd w) < (1 :: rat)"
    and "loop_rounds base do_tick rnd k 0 w = (waits, res, w')"
  shows "res = (if k \<le> 1024 then Inr k else Inl OverflowError) \<and> length waits = min k 1024 \<and>
    (\<forall>i < length waits. min 30 (base * 2 ^ i) / 2 \<le> waits ! i \<and> waits ! i < min 30 (base * 2 ^ i))"
  using failing_rounds [OF assms(1-3) _ assms(4)]
  by (simp add: wait_within_def max_backoff_s_def)

section \<open>A task on the in-memory store\<close>

text \<open>Two tiers that share a candidate, with different weights; google has no vendor.\<close>

definition two_tiers :: config where
  "two_tiers =
     \<lparr>cfg_provider_mode = PM_mock, cfg_secrets_mode = SM_mock,
      cfg_tiers = [(''fast'', \<lparr>tc_candidates = demo_tier\<rparr>),
                   (''smart'', \<lparr>tc_candidates = [demo_entry ''openai'' ''gpt-4o'' 5]\<rparr>)],
      cfg_routing = default_routing_config, cfg_callers = []\<rparr>"

definition demo_refresh :: "mem_world refresh" where
  "demo_refresh =
     \<lparr>rf_config = two_tiers, rf_observer = mem_observer,
      rf_bucket = mem_bucket\<lparr>tb_limits :=
        map (\<lambda>t. (candidate_ref_key (mk_ref t), te_rate_limits t)) demo_tier\<rparr>,
      rf_breakers = mem_breaker, rf_available = Some {''openai'', ''anthropic''}\<rparr>"


text \<open>Redis is down: three rounds at a second, and the round after the 1024th.\<close>

theorem retry_backs_off_and_dies_witness:
  "(let (waits, res, _) = loop_rounds 1 (\<lambda>w. (Inl (RuntimeError ''redis''), w)) (\<lambda>w. (1 / 2, w)) 3 0 (0 :: nat)
    in res = Inr 3 \<and> waits ! 2 < 4) \<and>
   fst (snd (loop_rounds 1 (\<lambda>w. (Inl (RuntimeError ''redis''), w)) (\<lambda>w. (1 / 2, w)) 1025 0 (0 :: nat)))
     = Inl OverflowError"
proof -
  let ?tick = "\<lambda>w :: nat. (Inl (RuntimeError ''redis'') :: unit pyres, w)"
  let ?rnd = "\<lambda>w :: nat. (1 / 2 :: rat, w)"
  obtain waits res w' where three: "loop_rounds 1 ?tick ?rnd 3 0 0 = (waits, res, w')"
    by (metis prod_cases3)
  obtain waits' res' w'' where dead: "loop_rounds 1 ?tick ?rnd 1025 0 0 = (waits', res', w'')"
    by (metis prod_cases3)
  have "res = Inr 3 \<and> waits ! 2 < 4"
    using retry_backs_off_and_dies [of ?tick 1 ?rnd, OF _ _ _ three]
    by (auto dest!: spec [where x = 2])
  moreover have "res' = Inl OverflowError"
    using retry_backs_off_and_dies [of ?tick 1 ?rnd, OF _ _ _ dead] by auto
  ultimately show ?thesis using three dead by simp
qed

end
