(* ===== verification/Secrets.thy ===== *)
theory Secrets
  imports Models PyText
begin

text \<open>
  \<open>gateway/secrets.py\<close>: where credentials come from. The environment is a dictionary; the
  environment-backed manager reads it at call time, so it is an argument of every access.
\<close>

type_synonym environ = "(string, string) pydict"

datatype secrets_manager = Env_secrets | Mock_secrets "(string, string) pydict"

definition env_or :: "environ \<Rightarrow> string \<Rightarrow> string \<Rightarrow> string" where
  "env_or env key dflt = (case map_of env key of None \<Rightarrow> dflt | Some v \<Rightarrow> v)"

text \<open>An empty variable counts as absent.\<close>

fun secrets_get :: "environ \<Rightarrow> secrets_manager \<Rightarrow> string \<Rightarrow> string pyres" where
  "secrets_get env Env_secrets key =
     (let v = env_or env key '''' in if v = '''' then Inl (KeyError key) else Inr v)"
| "secrets_get env (Mock_secrets store) key =
     (case map_of store key of None \<Rightarrow> Inl (KeyError key) | Some v \<Rightarrow> Inr v)"

fun secrets_has :: "environ \<Rightarrow> secrets_manager \<Rightarrow> string \<Rightarrow> bool" where
  "secrets_has env Env_secrets key \<longleftrightarrow> env_or env key '''' \<noteq> ''''"
| "secrets_has env (Mock_secrets store) key \<longleftrightarrow> map_of store key \<noteq> None"

text \<open>\<open>MockSecretsManager.set\<close>; the other manager has no such method.\<close>

fun secrets_set :: "string \<Rightarrow> string \<Rightarrow> secrets_manager \<Rightarrow> secrets_manager" where
  "secrets_set key v (Mock_secrets store) = Mock_secrets (AList.update key v store)"
| "secrets_set key v Env_secrets = Env_secrets"

definition build_secrets_manager :: "secrets_mode \<Rightarrow> secrets_manager" where
  "build_secrets_manager mode =
     (case mode of SM_mock \<Rightarrow> Mock_secrets [] | SM_env \<Rightarrow> Env_secrets)"

text \<open>The contract of \<open>SecretsManager\<close>: \<open>has\<close> says when \<open>get\<close> does not raise.\<close>

locale secrets_contract =
  fixes get :: "'m \<Rightarrow> string \<Rightarrow> string pyres" and has :: "'m \<Rightarrow> string \<Rightarrow> bool"
  assumes has_get: "has m key \<longleftrightarrow> (\<exists>v. get m key = Inr v)"
    and get_raises: "get m key = Inl e \<Longrightarrow> e = KeyError key"
begin

lemma get_cases: "get m key = (if has m key then Inr (projr (get m key)) else Inl (KeyError key))"
  by (cases "get m key") (auto simp: has_get dest: get_raises)

end

interpretation managers: secrets_contract "secrets_get env" "secrets_has env"
proof
  show "secrets_has env m key \<longleftrightarrow> (\<exists>v. secrets_get env m key = Inr v)" for m key
    by (cases m) (auto simp: Let_def split: option.splits)
  show "e = KeyError key" if "secrets_get env m key = Inl e" for m key e
    using that by (cases m) (auto simp: Let_def split: option.splits if_splits)
qed

end
