(* ===== verification/Providers.thy ===== *)
theory Providers
  imports Secrets Router
begin

text \<open>
  \<open>gateway/providers/\<close>: the vendor factory and what the three adapters make of a request, an
  answer and an exception of their SDKs. The SDKs are not part of the repository: their
  clients are parameters, their exceptions and answers are records of what the adapters read.
\<close>

section \<open>The factory\<close>

definition REAL_VENDOR_KEY_NAMES :: "(string, string) pydict" where
  "REAL_VENDOR_KEY_NAMES =
     [(''openai'', ''OPENAI_API_KEY''), (''anthropic'', ''ANTHROPIC_API_KEY''),
      (''google'', ''GOOGLE_API_KEY'')]"

text \<open>
  The constructor of a real vendor: it reads its key and makes the SDK's client, \<open>mk_client\<close>,
  which may raise.
\<close>

definition mk_vendor ::
    "environ \<Rightarrow> (string \<Rightarrow> string \<Rightarrow> 'v pyres) \<Rightarrow> secrets_manager \<Rightarrow> string \<Rightarrow> string \<Rightarrow> 'v pyres" where
  "mk_vendor env mk_client sm name key_name = rbind (secrets_get env sm key_name) (mk_client name)"

fun real_vendors ::
    "environ \<Rightarrow> (string \<Rightarrow> string \<Rightarrow> 'v pyres) \<Rightarrow> secrets_manager \<Rightarrow> (string, string) pydict \<Rightarrow>
     (string, 'v) pydict \<Rightarrow> (string, 'v) pydict" where
  "real_vendors env mk_client sm [] out = out"
| "real_vendors env mk_client sm ((name, key_name) # builders) out =
     (if \<not> secrets_has env sm key_name then real_vendors env mk_client sm builders out
      else (case mk_vendor env mk_client sm name key_name of
              Inl _ \<Rightarrow> real_vendors env mk_client sm builders out
            | Inr v \<Rightarrow> real_vendors env mk_client sm builders (AList.update name v out)))"

definition build_vendors ::
    "environ \<Rightarrow> (string \<Rightarrow> 'v) \<Rightarrow> (string \<Rightarrow> string \<Rightarrow> 'v pyres) \<Rightarrow> config \<Rightarrow> secrets_manager \<Rightarrow>
     (string, 'v) pydict pyres" where
  "build_vendors env mk_mock mk_client cfg sm =
     (case cfg_provider_mode cfg of
        PM_mock \<Rightarrow> Inr (map (\<lambda>(name, _). (name, mk_mock name)) REAL_VENDOR_KEY_NAMES)
      | PM_real \<Rightarrow>
          (let out = real_vendors env mk_client sm REAL_VENDOR_KEY_NAMES []
           in if out = [] then Inl (RuntimeError ''no real vendors could be constructed'')
              else Inr out))"

section \<open>Messages\<close>

text \<open>The dictionaries handed to the SDKs, as role and content.\<close>

fun role_value :: "role \<Rightarrow> string" where
  "role_value System = ''system''"
| "role_value User = ''user''"
| "role_value Assistant = ''assistant''"
| "role_value Tool = ''tool''"

definition dump_message :: "message \<Rightarrow> string \<times> string" where
  "dump_message m = (role_value (msg_role m), msg_content m)"

definition two_newlines :: string where
  "two_newlines = [CHR 0x0A, CHR 0x0A]"

definition joined_system :: "string list \<Rightarrow> string option" where
  "joined_system parts = (if parts = [] then None else Some (py_join two_newlines parts))"

text \<open>\<open>_split_system\<close> of the Anthropic adapter.\<close>

fun split_system_loop ::
    "message list \<Rightarrow> string list \<Rightarrow> (string \<times> string) list \<Rightarrow> string list \<times> (string \<times> string) list" where
  "split_system_loop [] system_parts rest = (system_parts, rest)"
| "split_system_loop (m # ms) system_parts rest =
     (if msg_role m = System then split_system_loop ms (system_parts @ [msg_content m]) rest
      else split_system_loop ms system_parts (rest @ [dump_message m]))"

definition split_system :: "message list \<Rightarrow> string option \<times> (string \<times> string) list" where
  "split_system messages =
     (let (parts, rest) = split_system_loop messages [] [] in (joined_system parts, rest))"

text \<open>\<open>_convert_messages\<close> of the Google adapter: everything but the user is the model.\<close>

definition google_role :: "role \<Rightarrow> string" where
  "google_role r = (if r = User then ''user'' else ''model'')"

fun convert_messages_loop ::
    "message list \<Rightarrow> string list \<Rightarrow> (string \<times> string) list \<Rightarrow> string list \<times> (string \<times> string) list" where
  "convert_messages_loop [] system_parts contents = (system_parts, contents)"
| "convert_messages_loop (m # ms) system_parts contents =
     (if msg_role m = System
      then convert_messages_loop ms (system_parts @ [msg_content m]) contents
      else convert_messages_loop ms system_parts
             (contents @ [(google_role (msg_role m), msg_content m)]))"

definition convert_messages :: "message list \<Rightarrow> string option \<times> (string \<times> string) list" where
  "convert_messages messages =
     (let (parts, contents) = convert_messages_loop messages [] [] in (joined_system parts, contents))"

section \<open>Requests\<close>

text \<open>The keyword arguments of a call; an argument that is not passed is \<open>None\<close>.\<close>

record sdk_request =
  sq_model :: string
  sq_messages :: "(string \<times> string) list"
  sq_max_tokens :: int
  sq_system :: "string option"
  sq_temperature :: "rat option"
  sq_top_p :: "rat option"

definition openai_request :: "string \<Rightarrow> message list \<Rightarrow> chat_params \<Rightarrow> sdk_request" where
  "openai_request model messages params =
     \<lparr>sq_model = model, sq_messages = map dump_message messages,
      sq_max_tokens = cp_max_tokens params, sq_system = None,
      sq_temperature = cp_temperature params, sq_top_p = cp_top_p params\<rparr>"

definition anthropic_request :: "string \<Rightarrow> message list \<Rightarrow> chat_params \<Rightarrow> sdk_request" where
  "anthropic_request model messages params =
     (let (system, conv) = split_system messages
      in \<lparr>sq_model = model, sq_messages = conv, sq_max_tokens = cp_max_tokens params,
          sq_system = system, sq_temperature = cp_temperature params, sq_top_p = cp_top_p params\<rparr>)"

definition google_request :: "string \<Rightarrow> message list \<Rightarrow> chat_params \<Rightarrow> sdk_request" where
  "google_request model messages params =
     (let (system, contents) = convert_messages messages
      in \<lparr>sq_model = model, sq_messages = contents, sq_max_tokens = cp_max_tokens params,
          sq_system = system, sq_temperature = cp_temperature params, sq_top_p = cp_top_p params\<rparr>)"

section \<open>Exceptions\<close>

text \<open>
  The exceptions of the OpenAI and Anthropic SDKs that the adapters tell apart, each for
  itself and not for its subclasses; \<open>API_status\<close> is any other \<open>APIStatusError\<close>.
\<close>

datatype sdk_error =
    Asyncio_timeout
  | API_timeout
  | Rate_limit
  | Authentication
  | Bad_request
  | Internal_server
  | API_connection
  | API_status int
  | Not_sdk py_exn

text \<open>An exception with its class name and its text.\<close>

record 'e raised =
  rz_error :: 'e
  rz_name :: string
  rz_text :: string

definition failed_with :: "error_class \<Rightarrow> 'e raised \<Rightarrow> vendor_reply" where
  "failed_with c r = Provider_failed (provider_error_init c (rz_name r) (Some (rz_text r)))"

fun sdk_error_class :: "sdk_error \<Rightarrow> error_class option" where
  "sdk_error_class Asyncio_timeout = Some Timeout"
| "sdk_error_class API_timeout = Some Timeout"
| "sdk_error_class Rate_limit = Some RateLimited"
| "sdk_error_class Authentication = Some AuthError"
| "sdk_error_class Bad_request = Some BadRequest"
| "sdk_error_class Internal_server = Some Transient5xx"
| "sdk_error_class API_connection = Some Transient5xx"
| "sdk_error_class (API_status code) =
     Some (if 500 \<le> code \<and> code < 600 then Transient5xx
           else if code = 429 then RateLimited else BadRequest)"
| "sdk_error_class (Not_sdk e) = None"

definition translate_sdk_error :: "sdk_error raised \<Rightarrow> vendor_reply" where
  "translate_sdk_error r =
     (case (sdk_error_class (rz_error r), rz_error r) of
        (Some c, _) \<Rightarrow> failed_with c r
      | (None, Not_sdk e) \<Rightarrow> Crashed e
      | (None, _) \<Rightarrow> Crashed (RuntimeError (rz_text r)))"

text \<open>
  \<open>google-genai\<close> has one \<open>APIError\<close>, with a \<open>code\<close> or a \<open>status_code\<close>; the adapter turns
  every other exception into a transient one.
\<close>

datatype genai_error = Genai_timeout | Genai_api "int option" "int option" | Genai_other

definition int_or :: "int option \<Rightarrow> int \<Rightarrow> int" where
  "int_or x d = (case x of None \<Rightarrow> d | Some n \<Rightarrow> if n = 0 then d else n)"

fun genai_error_class :: "genai_error \<Rightarrow> error_class" where
  "genai_error_class Genai_timeout = Timeout"
| "genai_error_class (Genai_api code status_code) =
     (let status = int_or code (int_or status_code 0)
      in if status = 429 then RateLimited
         else if status = 401 \<or> status = 403 then AuthError
         else if 500 \<le> status then Transient5xx
         else BadRequest)"
| "genai_error_class Genai_other = Transient5xx"

section \<open>Answers\<close>

definition mk_chat_result ::
    "string \<Rightarrow> string option \<Rightarrow> int \<Rightarrow> int \<Rightarrow> string option \<Rightarrow> vendor_reply" where
  "mk_chat_result text finish_reason input_tokens output_tokens vendor_request_id =
     (let r = \<lparr>cr_text = text, cr_finish_reason = finish_reason, cr_input_tokens = input_tokens,
                cr_output_tokens = output_tokens, cr_vendor_request_id = vendor_request_id\<rparr>
      in if valid_chat_result r then Replied r else Crashed (ValidationError ''ChatResult''))"

definition text_or_empty :: "string option \<Rightarrow> string" where
  "text_or_empty t = (case t of None \<Rightarrow> '''' | Some s \<Rightarrow> s)"

text \<open>A choice is its finish reason and its content; missing token counts are 0.\<close>

record openai_answer =
  oa_choices :: "(string option \<times> string option) list"
  oa_prompt_tokens :: "int option"
  oa_completion_tokens :: "int option"
  oa_id :: "string option"

definition openai_reply :: "openai_answer \<Rightarrow> vendor_reply" where
  "openai_reply resp =
     (case oa_choices resp of
        [] \<Rightarrow> Crashed (IndexError ''choices'')
      | (finish, content) # _ \<Rightarrow>
          if finish = Some ''content_filter''
          then Provider_failed (provider_error_init ContentFiltered ''openai content_filter'' None)
          else mk_chat_result (text_or_empty content) finish (int_or (oa_prompt_tokens resp) 0)
                 (int_or (oa_completion_tokens resp) 0) (oa_id resp))"

text \<open>A block is its type and its text.\<close>

record anthropic_answer =
  aa_content :: "(string option \<times> string option) list"
  aa_stop_reason :: "string option"
  aa_input_tokens :: "int option"
  aa_output_tokens :: "int option"
  aa_id :: "string option"

definition anthropic_reply :: "anthropic_answer \<Rightarrow> vendor_reply" where
  "anthropic_reply resp =
     (let text = concat (map (\<lambda>(block_type, text). text_or_empty text)
                   (filter (\<lambda>(block_type, _). block_type = Some ''text'') (aa_content resp)))
      in if aa_stop_reason resp = Some ''refusal''
         then Provider_failed (provider_error_init ContentFiltered ''anthropic refusal'' None)
         else mk_chat_result text (aa_stop_reason resp) (int_or (aa_input_tokens resp) 0)
                (int_or (aa_output_tokens resp) 0) (aa_id resp))"

text \<open>A candidate is the texts of its parts and its finish reason, as \<open>str\<close> shows it.\<close>

record google_answer =
  ga_text :: "string option"
  ga_candidates :: "(string option list \<times> string option) list"
  ga_prompt_token_count :: "int option"
  ga_candidates_token_count :: "int option"
  ga_response_id :: "string option"

definition google_text :: "google_answer \<Rightarrow> string" where
  "google_text resp =
     (case ga_text resp of
        Some t \<Rightarrow> t
      | None \<Rightarrow> concat (map (\<lambda>(parts, _). concat (map text_or_empty parts)) (ga_candidates resp)))"

definition google_reply :: "google_answer \<Rightarrow> vendor_reply" where
  "google_reply resp =
     (let finish_reason = (case ga_candidates resp of [] \<Rightarrow> None | (_, fr) # _ \<Rightarrow> fr);
          text = google_text resp
      in case finish_reason of
           Some fr \<Rightarrow>
             if contains ''SAFETY'' (ascii_upper fr)
             then Provider_failed (provider_error_init ContentFiltered (''google safety: '' @ fr) None)
             else mk_chat_result text finish_reason (int_or (ga_prompt_token_count resp) 0)
                    (int_or (ga_candidates_token_count resp) 0) (ga_response_id resp)
         | None \<Rightarrow> mk_chat_result text finish_reason (int_or (ga_prompt_token_count resp) 0)
                    (int_or (ga_candidates_token_count resp) 0) (ga_response_id resp))"

section \<open>The adapters\<close>

text \<open>
  \<open>create\<close> is the awaited call of the SDK's client under its timeouts: an exception or an
  answer.
\<close>

definition openai_chat ::
    "(sdk_request \<Rightarrow> rat \<Rightarrow> 'w \<Rightarrow> (sdk_error raised + openai_answer) \<times> 'w) \<Rightarrow> 'w vendor" where
  "openai_chat create model messages params timeout_s w =
     (case create (openai_request model messages params) timeout_s w of
        (Inl r, w) \<Rightarrow> (translate_sdk_error r, w)
      | (Inr resp, w) \<Rightarrow> (openai_reply resp, w))"

definition anthropic_chat ::
    "(sdk_request \<Rightarrow> rat \<Rightarrow> 'w \<Rightarrow> (sdk_error raised + anthropic_answer) \<times> 'w) \<Rightarrow> 'w vendor" where
  "anthropic_chat create model messages params timeout_s w =
     (case create (anthropic_request model messages params) timeout_s w of
        (Inl r, w) \<Rightarrow> (translate_sdk_error r, w)
      | (Inr resp, w) \<Rightarrow> (anthropic_reply resp, w))"

definition google_chat ::
    "(sdk_request \<Rightarrow> rat \<Rightarrow> 'w \<Rightarrow> (genai_error raised + google_answer) \<times> 'w) \<Rightarrow> 'w vendor" where
  "google_chat generate model messages params timeout_s w =
     (case generate (google_request model messages params) timeout_s w of
        (Inl r, w) \<Rightarrow> (failed_with (genai_error_class (rz_error r)) r, w)
      | (Inr resp, w) \<Rightarrow> (google_reply resp, w))"

section \<open>Lemmas\<close>

lemma split_system_loop_filter:
  "split_system_loop ms ps rest =
     (ps @ map msg_content (filter (\<lambda>m. msg_role m = System) ms),
      rest @ map dump_message (filter (\<lambda>m. msg_role m \<noteq> System) ms))"
  by (induction ms ps rest rule: split_system_loop.induct) simp_all

lemma convert_messages_loop_filter:
  "convert_messages_loop ms ps contents =
     (ps @ map msg_content (filter (\<lambda>m. msg_role m = System) ms),
      contents @ map (\<lambda>m. (google_role (msg_role m), msg_content m))
        (filter (\<lambda>m. msg_role m \<noteq> System) ms))"
  by (induction ms ps contents rule: convert_messages_loop.induct) simp_all

text \<open>A vendor can be built when its key is there and the SDK accepts it.\<close>

definition buildable ::
    "environ \<Rightarrow> (string \<Rightarrow> string \<Rightarrow> 'v pyres) \<Rightarrow> secrets_manager \<Rightarrow> string \<times> string \<Rightarrow> bool" where
  "buildable env mk_client sm b \<longleftrightarrow> (\<exists>key v. secrets_get env sm (snd b) = Inr key \<and> mk_client (fst b) key = Inr v)"

lemma real_vendors_keys:
  "distinct (map fst bs) \<Longrightarrow> fst ` set bs \<inter> fst ` set out = {} \<Longrightarrow>
   map fst (real_vendors env mk_client sm bs out) =
     map fst out @ map fst (filter (buildable env mk_client sm) bs)"
proof (induction bs arbitrary: out)
  case (Cons b bs)
  obtain name key_name where b: "b = (name, key_name)" by force
  have new: "AList.update name v out = out @ [(name, v)]" for v
    using Cons.prems(2) by (simp add: b update_new)
  show ?case
  proof (cases "secrets_get env sm key_name")
    case (Inl e)
    then have "\<not> secrets_has env sm key_name" by (simp add: managers.has_get)
    with Inl Cons show ?thesis by (simp add: b buildable_def)
  next
    case (Inr key)
    then have has: "secrets_has env sm key_name" by (simp add: managers.has_get)
    show ?thesis
    proof (cases "mk_client name key")
      case (Inl e)
      with Inr has Cons show ?thesis by (simp add: b buildable_def mk_vendor_def)
    next
      case (Inr v)
      have "fst ` set bs \<inter> fst ` set (out @ [(name, v)]) = {}" using Cons.prems by (auto simp: b)
      with Cons.IH [of "out @ [(name, v)]"] Cons.prems(1) Inr \<open>secrets_get env sm key_name = Inr key\<close> has
      show ?thesis by (simp add: b buildable_def mk_vendor_def new)
    qed
  qed
qed simp

section \<open>What the adapters promise\<close>

text \<open>C28: No adapter loses or reorders a message: OpenAI gets all of them, Anthropic and Google
  get the system messages joined, in order, as the system prompt and all others in order, and
  a conversation without system messages gets none. All pass on the sampling parameters as
  they are.\<close>

theorem adapters_keep_messages:
  "sq_messages (openai_request m ms ps) = map dump_message ms \<and>
   sq_messages (anthropic_request m ms ps) = map dump_message (filter (\<lambda>x. msg_role x \<noteq> System) ms) \<and>
   sq_messages (google_request m ms ps) =
     map (\<lambda>x. (google_role (msg_role x), msg_content x)) (filter (\<lambda>x. msg_role x \<noteq> System) ms) \<and>
   (\<forall>q \<in> {anthropic_request m ms ps, google_request m ms ps}.
      sq_system q = joined_system (map msg_content (filter (\<lambda>x. msg_role x = System) ms))) \<and>
   (\<forall>q \<in> {openai_request m ms ps, anthropic_request m ms ps, google_request m ms ps}.
      sq_model q = m \<and> sq_max_tokens q = cp_max_tokens ps \<and>
      sq_temperature q = cp_temperature ps \<and> sq_top_p q = cp_top_p ps)"
  by (simp add: openai_request_def anthropic_request_def google_request_def split_system_def
      convert_messages_def split_system_loop_filter convert_messages_loop_filter)

theorem adapters_keep_messages_witness:
  "sq_system (anthropic_request ''sonnet''
      [\<lparr>msg_role = System, msg_content = ''a''\<rparr>, \<lparr>msg_role = User, msg_content = ''b''\<rparr>,
       \<lparr>msg_role = System, msg_content = ''c''\<rparr>] \<lparr>cp_max_tokens = 1, cp_temperature = None, cp_top_p = None\<rparr>)
     = Some (''a'' @ two_newlines @ ''c'')"
  using adapters_keep_messages [of "''sonnet''" "[\<lparr>msg_role = System, msg_content = ''a''\<rparr>,
      \<lparr>msg_role = User, msg_content = ''b''\<rparr>, \<lparr>msg_role = System, msg_content = ''c''\<rparr>]"
      "\<lparr>cp_max_tokens = 1, cp_temperature = None, cp_top_p = None\<rparr>"]
  by (simp add: joined_system_def)

text \<open>Which failures of a vendor's SDK the router may fail over: exactly timeouts, lost
  connections, 429 and server errors become retryable provider errors; every other exception
  of the SDK becomes a non-retryable one. The public message is the exception's class name
  and its text goes to the operators' detail only. Google's adapter lets nothing else through,
  the others let exceptions that are not the SDK's escape.\<close>

theorem sdk_failures_classified:
  "(translate_sdk_error r = Crashed x \<longleftrightarrow> rz_error r = Not_sdk x) \<and>
   ((\<forall>x. rz_error r \<noteq> Not_sdk x) \<longrightarrow> (\<exists>e. translate_sdk_error r = Provider_failed e \<and>
      (pe_class e \<in> set RETRYABLE_ERROR_TYPES \<longleftrightarrow>
         rz_error r \<in> {Asyncio_timeout, API_timeout, Rate_limit, Internal_server, API_connection} \<or>
         (\<exists>n. rz_error r = API_status n \<and> (n = 429 \<or> 500 \<le> n \<and> n < 600))) \<and>
      pe_message e = (if rz_name r = '''' then class_name (pe_class e) else rz_name r) \<and>
      pe_vendor_detail e = Some (rz_text r))) \<and>
   (genai_error_class g \<in> set RETRYABLE_ERROR_TYPES \<longleftrightarrow>
      (\<forall>c s. g = Genai_api c s \<longrightarrow> int_or c (int_or s 0) = 429 \<or> 500 \<le> int_or c (int_or s 0)))"
proof (intro conjI)
  show "translate_sdk_error r = Crashed x \<longleftrightarrow> rz_error r = Not_sdk x"
    by (cases "rz_error r") (simp_all add: translate_sdk_error_def failed_with_def)
  show "(\<forall>x. rz_error r \<noteq> Not_sdk x) \<longrightarrow> (\<exists>e. translate_sdk_error r = Provider_failed e \<and>
      (pe_class e \<in> set RETRYABLE_ERROR_TYPES \<longleftrightarrow>
         rz_error r \<in> {Asyncio_timeout, API_timeout, Rate_limit, Internal_server, API_connection} \<or>
         (\<exists>n. rz_error r = API_status n \<and> (n = 429 \<or> 500 \<le> n \<and> n < 600))) \<and>
      pe_message e = (if rz_name r = '''' then class_name (pe_class e) else rz_name r) \<and>
      pe_vendor_detail e = Some (rz_text r))"
    by (cases "rz_error r")
      (simp_all add: translate_sdk_error_def failed_with_def provider_error_init_def RETRYABLE_ERROR_TYPES_def)
  show "genai_error_class g \<in> set RETRYABLE_ERROR_TYPES \<longleftrightarrow>
      (\<forall>c s. g = Genai_api c s \<longrightarrow> int_or c (int_or s 0) = 429 \<or> 500 \<le> int_or c (int_or s 0))"
    by (cases g) (auto simp: RETRYABLE_ERROR_TYPES_def Let_def)
qed

theorem sdk_failures_classified_witness:
  "\<exists>e. translate_sdk_error \<lparr>rz_error = API_status 403, rz_name = ''PermissionDeniedError'',
      rz_text = ''key sk-123 may not ...''\<rparr> = Provider_failed e \<and>
     pe_class e \<notin> set RETRYABLE_ERROR_TYPES \<and> pe_message e = ''PermissionDeniedError''"
  using sdk_failures_classified [of "\<lparr>rz_error = API_status 403, rz_name = ''PermissionDeniedError'',
      rz_text = ''key sk-123 may not ...''\<rparr>" OverflowError Genai_timeout]
  by auto

text \<open>In real mode the factory gives exactly the vendors whose key is present and whose
  client can be made, in the order of the key table; it raises, with a \<open>RuntimeError\<close> and
  never a \<open>KeyError\<close>, exactly when there is none.\<close>

theorem build_vendors_enabled:
  assumes "cfg_provider_mode cfg = PM_real"
    and "names = map fst (filter (buildable env mk_client sm) REAL_VENDOR_KEY_NAMES)"
  shows "if names = [] then \<exists>text. build_vendors env mk_mock mk_client cfg sm = Inl (RuntimeError text)
    else \<exists>out. build_vendors env mk_mock mk_client cfg sm = Inr out \<and> map fst out = names"
proof -
  let ?out = "real_vendors env mk_client sm REAL_VENDOR_KEY_NAMES []"
  have "distinct (map fst REAL_VENDOR_KEY_NAMES)" by (simp add: REAL_VENDOR_KEY_NAMES_def)
  from real_vendors_keys [OF this, of "[]" env mk_client sm] have "map fst ?out = names"
    by (simp add: assms(2))
  moreover from this have "?out = [] \<longleftrightarrow> names = []" by auto
  ultimately show ?thesis by (simp add: build_vendors_def assms(1) Let_def)
qed

theorem build_vendors_enabled_witness:
  "\<exists>out. build_vendors [(''OPENAI_API_KEY'', ''''), (''GOOGLE_API_KEY'', ''k'')] (\<lambda>name. name)
       (\<lambda>name key. Inr (name @ key))
       \<lparr>cfg_provider_mode = PM_real, cfg_secrets_mode = SM_env, cfg_tiers = [],
        cfg_routing = default_routing_config, cfg_callers = []\<rparr> Env_secrets = Inr out \<and>
     map fst out = [''google'']"
proof -
  let ?cfg = "\<lparr>cfg_provider_mode = PM_real, cfg_secrets_mode = SM_env, cfg_tiers = [],
        cfg_routing = default_routing_config, cfg_callers = []\<rparr>"
  have "map fst (filter (buildable [(''OPENAI_API_KEY'', ''''), (''GOOGLE_API_KEY'', ''k'')]
      (\<lambda>name key. Inr (name @ key)) Env_secrets) REAL_VENDOR_KEY_NAMES) = [''google'']"
    by (simp add: REAL_VENDOR_KEY_NAMES_def buildable_def env_or_def)
  from build_vendors_enabled [OF _ this [symmetric], of ?cfg] show ?thesis by simp
qed

end
