(* ===== verification/ConfigStore.thy ===== *)
theory ConfigStore
  imports Db
begin

text \<open>
  \<open>gateway/config_store.py\<close> and \<open>gateway/config/\<close>: the configuration between the three tables
  and the routing code, with its cache in Redis. The cache's commands and the JSON text of a
  configuration are parameters with the laws of the locales below. The operations here run one
  at a time; what they do from one \<open>await\<close> to the next, and the lock between them, is the
  subject of the theory \<open>Refill\<close>.
\<close>

section \<open>From the tables to a configuration\<close>

text \<open>\<open>TierEntry(...)\<close> with the provider of the row and the fields of its JSON.\<close>

definition mk_tier_entry :: "string \<Rightarrow> tier_model \<Rightarrow> tier_entry pyres" where
  "mk_tier_entry provider entry =
     (let t = \<lparr>te_provider = provider, te_model = tm_model entry, te_weight = tm_weight entry,
               te_rate_limits = \<lparr>rl_rpm = tm_rpm entry, rl_tpm = tm_tpm entry\<rparr>\<rparr>
      in if valid_tier_entry t then Inr t else Inl (ValidationError ''TierEntry''))"

fun tier_candidates :: "string \<Rightarrow> (string, tier_map) pydict \<Rightarrow> tier_entry list pyres" where
  "tier_candidates tier_name [] = Inr []"
| "tier_candidates tier_name ((provider, tm) # rest) =
     (case map_of tm tier_name of
        None \<Rightarrow> tier_candidates tier_name rest
      | Some entry \<Rightarrow>
          rbind (mk_tier_entry provider entry) (\<lambda>t.
            rbind (tier_candidates tier_name rest) (\<lambda>ts. Inr (t # ts))))"

fun load_tiers ::
    "(string, tier_map) pydict \<Rightarrow> (string \<times> string option) list \<Rightarrow> (string, tier_config) pydict \<Rightarrow>
     (string, tier_config) pydict pyres" where
  "load_tiers models [] tiers = Inr tiers"
| "load_tiers models ((tier_name, _) # rows) tiers =
     rbind (tier_candidates tier_name models)
       (\<lambda>cs. load_tiers models rows (AList.update tier_name \<lparr>tc_candidates = cs\<rparr> tiers))"

text \<open>What \<open>load_from_db\<close> makes of the rows once the three reads have returned.\<close>

definition assemble_config ::
    "routing_config \<Rightarrow> (string \<times> string option) list \<Rightarrow> (string \<times> tier_map) list \<Rightarrow> config pyres" where
  "assemble_config routing tier_rows tier_model_rows =
     (let models = fold (\<lambda>(p, tm). AList.update p tm) tier_model_rows []
      in rbind (load_tiers models tier_rows []) (\<lambda>tiers.
           if valid_routing_config routing
           then Inr \<lparr>cfg_provider_mode = PM_mock, cfg_secrets_mode = SM_mock,
                  cfg_tiers = tiers, cfg_routing = routing, cfg_callers = []\<rparr>
           else Inl (ValidationError ''RoutingConfig'')))"

definition load_from_db :: "collation \<Rightarrow> database \<Rightarrow> config pyres" where
  "load_from_db co db =
     rbind (fst (fetch_routing_config db)) (\<lambda>routing_row.
       case routing_row of
         None \<Rightarrow> Inl (ConfigStoreError ''routing_config table has no row'')
       | Some routing \<Rightarrow>
           rbind (fst (fetch_tiers co db)) (\<lambda>tier_rows.
           rbind (fst (fetch_tier_models co db)) (\<lambda>tier_model_rows.
             assemble_config routing tier_rows tier_model_rows)))"

section \<open>From a configuration to the tables\<close>

definition tier_model_of :: "tier_entry \<Rightarrow> tier_model" where
  "tier_model_of c =
     \<lparr>tm_model = te_model c, tm_weight = te_weight c, tm_rpm = rl_rpm (te_rate_limits c),
      tm_tpm = rl_tpm (te_rate_limits c)\<rparr>"

text \<open>\<open>provider_map[cand.provider][tier_name] = ...\<close>, with the inner dictionary made on demand.\<close>

definition provider_map_put ::
    "string \<Rightarrow> tier_entry \<Rightarrow> (string, tier_map) pydict \<Rightarrow> (string, tier_map) pydict" where
  "provider_map_put tier_name c pm =
     (let inner = (case map_of pm (te_provider c) of None \<Rightarrow> [] | Some d \<Rightarrow> d)
      in AList.update (te_provider c) (AList.update tier_name (tier_model_of c) inner) pm)"

text \<open>The first loop of \<open>_write_to_db\<close>: it upserts the tiers while it collects the map.\<close>

fun write_tiers ::
    "(string, tier_config) pydict \<Rightarrow> (string, tier_map) pydict \<Rightarrow> database \<Rightarrow>
     (string, tier_map) pydict pyres \<times> database" where
  "write_tiers [] pm db = (Inr pm, db)"
| "write_tiers ((tier_name, tier_cfg) # tiers) pm db =
     (case upsert_tier tier_name None db of
        (Inl e, db) \<Rightarrow> (Inl e, db)
      | (Inr _, db) \<Rightarrow>
          write_tiers tiers (fold (provider_map_put tier_name) (tc_candidates tier_cfg) pm) db)"

fun write_models :: "(string, tier_map) pydict \<Rightarrow> database \<Rightarrow> unit pyres \<times> database" where
  "write_models [] db = (Inr (), db)"
| "write_models ((provider, tier_cfg_map) # pm) db =
     (case upsert_tier_models provider tier_cfg_map db of
        (Inl e, db) \<Rightarrow> (Inl e, db)
      | (Inr _, db) \<Rightarrow> write_models pm db)"

definition write_to_db :: "config \<Rightarrow> database \<Rightarrow> unit pyres \<times> database" where
  "write_to_db cfg db =
     (case write_tiers (cfg_tiers cfg) [] db of
        (Inl e, db) \<Rightarrow> (Inl e, db)
      | (Inr pm, db) \<Rightarrow>
          (case write_models pm db of
             (Inl e, db) \<Rightarrow> (Inl e, db)
           | (Inr _, db) \<Rightarrow> upsert_routing_config (cfg_routing cfg) db))"

section \<open>The cache\<close>

text \<open>
  \<open>cc_get\<close>, \<open>cc_setex\<close>, \<open>cc_delete\<close> on the key \<open>gw:config:current\<close>; \<open>cc_dump\<close> and \<open>cc_load\<close>
  are the JSON text and its validation (\<open>None\<close>: an exception).
\<close>

record ('c, 'p) config_cache =
  cc_get :: "'c \<Rightarrow> 'p option"
  cc_setex :: "rat \<Rightarrow> 'p \<Rightarrow> 'c \<Rightarrow> 'c"
  cc_delete :: "'c \<Rightarrow> 'c"
  cc_dump :: "config \<Rightarrow> 'p"
  cc_load :: "'p \<Rightarrow> config option"
  cc_ttl_s :: rat

definition cached_config :: "('c, 'p) config_cache \<Rightarrow> 'c \<Rightarrow> config option" where
  "cached_config cc c = (case cc_get cc c of None \<Rightarrow> None | Some payload \<Rightarrow> cc_load cc payload)"

definition write_to_redis :: "('c, 'p) config_cache \<Rightarrow> config \<Rightarrow> 'c \<Rightarrow> 'c" where
  "write_to_redis cc cfg c = cc_setex cc (cc_ttl_s cc) (cc_dump cc cfg) c"

text \<open>
  \<open>load_or_refresh\<close>: the cache is looked at twice, before and after waiting for the lock;
  nothing happens in between here.
\<close>

definition load_or_refresh ::
    "('c, 'p) config_cache \<Rightarrow> collation \<Rightarrow> bool \<Rightarrow> database \<Rightarrow> 'c \<Rightarrow> config pyres \<times> 'c" where
  "load_or_refresh cc co force db c =
     (case (if force then None else cached_config cc c) of
        Some cfg \<Rightarrow> (Inr cfg, c)
      | None \<Rightarrow>
          (case (if force then None else cached_config cc c) of
             Some cfg \<Rightarrow> (Inr cfg, c)
           | None \<Rightarrow>
               (case load_from_db co db of
                  Inl e \<Rightarrow> (Inl e, c)
                | Inr cfg \<Rightarrow> (Inr cfg, write_to_redis cc cfg c))))"

definition write_config :: "('c, 'p) config_cache \<Rightarrow> config \<Rightarrow> database \<Rightarrow> 'c \<Rightarrow> unit pyres \<times> database \<times> 'c" where
  "write_config cc cfg db c =
     (case write_to_db cfg db of
        (Inl e, db) \<Rightarrow> (Inl e, db, c)
      | (Inr _, db) \<Rightarrow> (Inr (), db, cc_delete cc c))"

text \<open>\<open>ConfigHolder.reload\<close> with the task it schedules: a failed load keeps the old value.\<close>

definition reload ::
    "('c, 'p) config_cache \<Rightarrow> collation \<Rightarrow> database \<Rightarrow> config \<Rightarrow> 'c \<Rightarrow> config \<times> 'c" where
  "reload cc co db held c =
     (case load_or_refresh cc co True db c of
        (Inr new, c) \<Rightarrow> (new, c)
      | (Inl _, c) \<Rightarrow> (held, c))"

section \<open>Lemmas of the provider map\<close>

definition lookup2 :: "('a, ('b, 'v) pydict) pydict \<Rightarrow> 'a \<Rightarrow> 'b \<Rightarrow> 'v option" where
  "lookup2 d a b = Option.bind (map_of d a) (\<lambda>inner. map_of inner b)"

lemma lookup2_Nil [simp]: "lookup2 [] p n = None"
  by (simp add: lookup2_def)

lemma lookup2_put:
  "lookup2 (provider_map_put n c pm) p n' =
     (if p = te_provider c \<and> n' = n then Some (tier_model_of c) else lookup2 pm p n')"
  by (auto simp: lookup2_def provider_map_put_def Let_def split: option.splits bind_splits)

text \<open>The last candidate of a provider stands.\<close>

definition last_of :: "string \<Rightarrow> tier_entry list \<Rightarrow> tier_entry option" where
  "last_of p cs = find (\<lambda>c. te_provider c = p) (rev cs)"

lemma last_of_provider: "last_of p cs = Some c \<Longrightarrow> te_provider c = p \<and> c \<in> set cs"
  by (auto simp: last_of_def find_Some_iff) (metis length_rev nth_mem set_rev)

lemma lookup2_put_all:
  "lookup2 (fold (provider_map_put n) cs pm) p n' =
     (case (if n' = n then last_of p cs else None) of
        Some c \<Rightarrow> Some (tier_model_of c)
      | None \<Rightarrow> lookup2 pm p n')"
  by (induction cs rule: rev_induct) (auto simp: lookup2_put last_of_def)

lemma keys_put:
  "fst ` set (fold (provider_map_put n) cs pm) = te_provider ` set cs \<union> fst ` set pm"
  "distinct (map fst pm) \<Longrightarrow> distinct (map fst (fold (provider_map_put n) cs pm))"
proof (induction cs arbitrary: pm)
  case (Cons c cs)
  { case 1 show ?case
      using Cons(1) by (auto simp: provider_map_put_def Let_def update_keys dom_update) }
  { case 2 then show ?case
      using Cons(2) by (simp add: provider_map_put_def Let_def distinct_update) }
qed simp_all

text \<open>The map of a whole configuration.\<close>

definition provider_map :: "(string, tier_config) pydict \<Rightarrow> (string, tier_map) pydict \<Rightarrow> (string, tier_map) pydict" where
  "provider_map tiers pm =
     fold (\<lambda>(n, tc). fold (provider_map_put n) (tc_candidates tc)) tiers pm"

definition tier_providers :: "(string, tier_config) pydict \<Rightarrow> string set" where
  "tier_providers tiers = (\<Union>(n, tc) \<in> set tiers. te_provider ` set (tc_candidates tc))"

lemma provider_map_keys:
  "fst ` set (provider_map tiers pm) = tier_providers tiers \<union> fst ` set pm"
  "distinct (map fst pm) \<Longrightarrow> distinct (map fst (provider_map tiers pm))"
proof (induction tiers arbitrary: pm)
  case (Cons x tiers)
  obtain n tc where x: "x = (n, tc)" by force
  have step: "provider_map (x # tiers) pm =
      provider_map tiers (fold (provider_map_put n) (tc_candidates tc) pm)" for pm
    by (simp add: provider_map_def x)
  { case 1 show ?case
      unfolding step Cons(1) keys_put by (auto simp: x tier_providers_def) }
  { case 2 then show ?case
      unfolding step by (intro Cons(2) keys_put(2)) }
qed (simp_all add: provider_map_def tier_providers_def)

lemma lookup2_provider_map:
  assumes "distinct (map fst tiers)"
  shows "lookup2 (provider_map tiers pm) p n =
    (case Option.bind (map_of tiers n) (\<lambda>tc. last_of p (tc_candidates tc)) of
       Some c \<Rightarrow> Some (tier_model_of c)
     | None \<Rightarrow> lookup2 pm p n)"
  using assms
proof (induction tiers arbitrary: pm)
  case (Cons x tiers)
  obtain n' tc where x: "x = (n', tc)" by force
  have d: "n' \<notin> fst ` set tiers" "distinct (map fst tiers)" using Cons.prems by (auto simp: x)
  then have "map_of tiers n' = None" by (simp add: map_of_eq_None_iff)
  moreover have "provider_map (x # tiers) pm =
      provider_map tiers (fold (provider_map_put n') (tc_candidates tc) pm)"
    by (simp add: provider_map_def x)
  ultimately show ?case
    using Cons.IH [OF d(2)] by (auto simp: x lookup2_put_all split: option.splits)
qed (simp add: provider_map_def)

section \<open>Lemmas of writing and loading\<close>

lemma write_tiers_eq:
  "db_connected db \<Longrightarrow>
   write_tiers tiers pm db = (Inr (provider_map tiers pm),
     db\<lparr>db_tiers := fold (\<lambda>(n, _). AList.update n None) tiers (db_tiers db)\<rparr>)"
  by (induction tiers arbitrary: pm db)
    (auto simp: provider_map_def upsert_tier_def with_pool_def)

lemma write_models_eq:
  "db_connected db \<Longrightarrow>
   write_models pm db =
     (Inr (), db\<lparr>db_tier_models := fold (\<lambda>(p, tm). AList.update p tm) pm (db_tier_models db)\<rparr>)"
  by (induction pm arbitrary: db) (auto simp: upsert_tier_models_def with_pool_def)

definition routing_fits :: "routing_config \<Rightarrow> bool" where
  "routing_fits r \<longleftrightarrow> int4 (refresh_interval_ms r) \<and> int4 (health_window_s r)"

text \<open>The tables after a write.\<close>

definition written_tables :: "config \<Rightarrow> database \<Rightarrow> database" where
  "written_tables cfg db =
     db\<lparr>db_tiers := fold (\<lambda>(n, _). AList.update n None) (cfg_tiers cfg) (db_tiers db),
        db_tier_models := fold (\<lambda>(p, tm). AList.update p tm) (provider_map (cfg_tiers cfg) [])
          (db_tier_models db)\<rparr>"

lemma write_to_db_eq:
  assumes "db_connected db"
  shows "write_to_db cfg db =
    (if routing_fits (cfg_routing cfg)
     then (Inr (), (written_tables cfg db)\<lparr>db_routing := Some (cfg_routing cfg)\<rparr>)
     else (Inl (DatabaseError ''routing_config''), written_tables cfg db))"
  using assms
  by (simp add: write_to_db_def write_tiers_eq write_models_eq upsert_routing_config_def with_pool_def
      written_tables_def routing_fits_def)

definition entry_of :: "string \<Rightarrow> tier_model \<Rightarrow> tier_entry" where
  "entry_of p e = \<lparr>te_provider = p, te_model = tm_model e, te_weight = tm_weight e,
     te_rate_limits = \<lparr>rl_rpm = tm_rpm e, rl_tpm = tm_tpm e\<rparr>\<rparr>"

lemma entry_of_tier_model_of [simp]: "entry_of (te_provider c) (tier_model_of c) = c"
  by (simp add: entry_of_def tier_model_of_def)

lemma mk_tier_entry_eq:
  "mk_tier_entry p e =
     (if valid_tier_entry (entry_of p e) then Inr (entry_of p e) else Inl (ValidationError ''TierEntry''))"
  by (simp add: mk_tier_entry_def entry_of_def)

text \<open>The entries of a tier, in the order of the rows.\<close>

definition entries_for :: "string \<Rightarrow> (string, tier_map) pydict \<Rightarrow> tier_entry list" where
  "entries_for n rows =
     List.map_filter (\<lambda>(p, tm). map_option (entry_of p) (map_of tm n)) rows"

lemma entries_for_simps [simp]:
  "entries_for n [] = []"
  "entries_for n ((p, tm) # rows) =
     (case map_of tm n of None \<Rightarrow> [] | Some e \<Rightarrow> [entry_of p e]) @ entries_for n rows"
  by (simp_all add: entries_for_def map_filter_simps split: option.split)

definition valid_rows :: "(string, tier_map) pydict \<Rightarrow> bool" where
  "valid_rows rows \<longleftrightarrow>
     (\<forall>(p, tm) \<in> set rows. \<forall>n e. map_of tm n = Some e \<longrightarrow> valid_tier_entry (entry_of p e))"

lemma tier_candidates_eq:
  "valid_rows rows \<Longrightarrow> tier_candidates n rows = Inr (entries_for n rows)"
  by (induction n rows rule: tier_candidates.induct)
    (auto simp: valid_rows_def mk_tier_entry_eq split: option.splits)

lemma entries_for_providers: "te_provider ` set (entries_for n rows) \<subseteq> fst ` set rows"
proof (induction rows)
  case (Cons row rows)
  obtain p tm where "row = (p, tm)" by force
  with Cons show ?case by (cases "map_of tm n") (simp_all add: entry_of_def subset_insertI2)
qed simp

lemma set_entries_for:
  "distinct (map fst rows) \<Longrightarrow>
   x \<in> set (entries_for n rows) \<longleftrightarrow>
     (\<exists>e. lookup2 rows (te_provider x) n = Some e \<and> x = entry_of (te_provider x) e)"
proof (induction rows)
  case (Cons row rows)
  obtain p tm where row: "row = (p, tm)" by force
  have "te_provider x \<noteq> p" if "x \<in> set (entries_for n rows)"
    using that entries_for_providers [of n rows] Cons.prems by (auto simp: row)
  moreover have "map_of rows p = None" using Cons.prems by (simp add: row map_of_eq_None_iff)
  ultimately show ?case
    using Cons by (auto simp: row lookup2_def entry_of_def split: option.splits)
qed (simp add: lookup2_def)

lemma distinct_entries_for:
  "distinct (map fst rows) \<Longrightarrow> distinct (map te_provider (entries_for n rows))"
proof (induction rows)
  case (Cons row rows)
  obtain p tm where row: "row = (p, tm)" by force
  have "p \<notin> te_provider ` set (entries_for n rows)"
    using entries_for_providers [of n rows] Cons.prems by (auto simp: row)
  with Cons show ?case by (auto simp: row entry_of_def split: option.splits)
qed simp

lemma load_tiers_eq:
  "valid_rows models \<Longrightarrow>
   load_tiers models rows tiers = Inr (fold (\<lambda>(n, tc). AList.update n tc)
     (map (\<lambda>(n, _). (n, \<lparr>tc_candidates = entries_for n models\<rparr>)) rows) tiers)"
  by (induction models rows tiers rule: load_tiers.induct) (auto simp: tier_candidates_eq)

text \<open>What the primary keys and the code's own writes keep of the tables.\<close>

definition tables_ok :: "database \<Rightarrow> bool" where
  "tables_ok db \<longleftrightarrow> db_connected db \<and> distinct (map fst (db_tiers db)) \<and>
     distinct (map fst (db_tier_models db)) \<and> valid_rows (db_tier_models db)"

definition ordered_models :: "collation \<Rightarrow> database \<Rightarrow> (string, tier_map) pydict" where
  "ordered_models co db =
     map (\<lambda>p. (p, the (map_of (db_tier_models db) p))) (co_names co (map fst (db_tier_models db)))"

definition loaded :: "collation \<Rightarrow> database \<Rightarrow> routing_config \<Rightarrow> config" where
  "loaded co db routing =
     \<lparr>cfg_provider_mode = PM_mock, cfg_secrets_mode = SM_mock,
      cfg_tiers = map (\<lambda>n. (n, \<lparr>tc_candidates = entries_for n (ordered_models co db)\<rparr>))
        (co_names co (map fst (db_tiers db))),
      cfg_routing = routing, cfg_callers = []\<rparr>"

context collating
begin

lemma ordered_models:
  assumes "distinct (map fst (db_tier_models db))"
  shows "distinct (map fst (ordered_models co db))"
    and "map_of (ordered_models co db) = map_of (db_tier_models db)"
    and "set (ordered_models co db) = set (db_tier_models db)"
proof -
  show d: "distinct (map fst (ordered_models co db))"
    using assms by (simp add: ordered_models_def comp_def)
  show "map_of (ordered_models co db) = map_of (db_tier_models db)"
  proof
    show "map_of (ordered_models co db) p = map_of (db_tier_models db) p" for p
    proof (cases "map_of (db_tier_models db) p")
      case None
      then have "p \<notin> set (map fst (db_tier_models db))" by (simp add: map_of_eq_None_iff)
      then show ?thesis using None unfolding ordered_models_def map_of_names by simp
    next
      case (Some a)
      then have "p \<in> set (map fst (db_tier_models db))"
        using map_of_eq_None_iff [of "db_tier_models db" p] by (metis list.set_map option.distinct(1))
      then show ?thesis using Some unfolding ordered_models_def map_of_names by simp
    qed
  qed
  with d assms show "set (ordered_models co db) = set (db_tier_models db)"
    by (simp add: map_of_inject_set)
qed

lemma load_from_db_eq:
  assumes "tables_ok db" and "db_routing db = Some routing" and "valid_routing_config routing"
  shows "load_from_db co db = Inr (loaded co db routing)"
proof -
  let ?models = "ordered_models co db"
  have conn: "db_connected db" and names: "distinct (co_names co (map fst (db_tiers db)))"
    and keys: "distinct (map fst (db_tier_models db))"
    using assms(1) by (simp_all add: tables_ok_def)
  have "fold (\<lambda>(p, tm). AList.update p tm) ?models [] = ?models"
    using fold_update_same [of "[]" ?models] ordered_models(1) [OF keys] by simp
  moreover have "valid_rows ?models"
    using assms(1) ordered_models(3) [OF keys] by (simp add: tables_ok_def valid_rows_def)
  moreover have "fold (\<lambda>(n, tc). AList.update n tc) (cfg_tiers (loaded co db routing)) [] =
      cfg_tiers (loaded co db routing)"
    using fold_update_same [of "[]" "cfg_tiers (loaded co db routing)"] names
    by (simp add: loaded_def comp_def)
  ultimately show ?thesis
    using conn assms(2,3)
    by (simp add: load_from_db_def assemble_config_def fetch_routing_config_def fetch_tiers_def fetch_tier_models_def
        with_pool_def load_tiers_eq ordered_models_def [symmetric] Let_def comp_def loaded_def)
qed

end

section \<open>Loading validates\<close>

lemma tier_candidates_valid:
  "tier_candidates n rows = Inr cs \<Longrightarrow> list_all valid_tier_entry cs"
  by (induction n rows arbitrary: cs rule: tier_candidates.induct)
    (auto simp: mk_tier_entry_def Let_def split: option.splits if_splits)

lemma load_tiers_valid:
  "load_tiers models rows tiers = Inr tiers' \<Longrightarrow> distinct (map fst tiers) \<Longrightarrow>
   list_all (\<lambda>(_, t). valid_tier_config t) tiers \<Longrightarrow>
   distinct (map fst tiers') \<and> list_all (\<lambda>(_, t). valid_tier_config t) tiers'"
proof (induction models rows tiers rule: load_tiers.induct)
  case (2 models n fb rows tiers)
  then obtain cs where cs: "tier_candidates n models = Inr cs" by auto
  have upd: "list_all (\<lambda>(_, t). valid_tier_config t)
      (AList.update n \<lparr>tc_candidates = cs\<rparr> tiers)"
    using 2(4) tier_candidates_valid [OF cs]
    by (induction tiers) (auto simp: valid_tier_config_def)
  show ?case
    using 2(1) [of cs] 2(2,3) upd by (simp add: cs distinct_update)
qed simp

lemma load_from_db_validates:
  assumes "load_from_db co db = Inr cfg"
  shows "valid_config cfg" and "db_routing db = Some (cfg_routing cfg)"
    and "cfg_provider_mode cfg = PM_mock" and "cfg_secrets_mode cfg = SM_mock"
proof -
  from assms obtain routing tiers where load: "load_tiers
        (fold (\<lambda>(p, tm). AList.update p tm) (ordered_models co db) [])
        (map (\<lambda>n. (n, the (map_of (db_tiers db) n))) (co_names co (map fst (db_tiers db)))) [] = Inr tiers"
    and rest: "valid_routing_config routing" "db_routing db = Some routing"
    and cfg: "cfg = \<lparr>cfg_provider_mode = PM_mock, cfg_secrets_mode = SM_mock,
         cfg_tiers = tiers, cfg_routing = routing, cfg_callers = []\<rparr>"
    by (auto simp: load_from_db_def assemble_config_def fetch_routing_config_def fetch_tiers_def fetch_tier_models_def
        with_pool_def Let_def ordered_models_def split: option.splits if_splits)
  from load_tiers_valid [OF load] rest
  show "valid_config cfg" "db_routing db = Some (cfg_routing cfg)"
    "cfg_provider_mode cfg = PM_mock" "cfg_secrets_mode cfg = SM_mock"
    by (simp_all add: cfg valid_config_def)
qed

text \<open>C34: Whatever the tables hold, a configuration that \<open>load_from_db\<close> returns is valid: no tier
  name twice, no negative weight, no limit or interval that is not positive. Rows that
  cannot give one end in an exception, and a missing routing row in \<open>ConfigStoreError\<close>.
\<close>

theorem load_from_db_valid:
  "case load_from_db co db of
     Inr cfg \<Rightarrow> valid_config cfg \<and> db_routing db = Some (cfg_routing cfg) \<and>
       cfg_provider_mode cfg = PM_mock \<and> cfg_secrets_mode cfg = SM_mock
   | Inl e \<Rightarrow> db_connected db \<and> db_routing db = None \<longrightarrow>
       e = ConfigStoreError ''routing_config table has no row''"
proof (cases "load_from_db co db")
  case (Inl e)
  then show ?thesis
    by (auto simp: load_from_db_def fetch_routing_config_def with_pool_def)
qed (simp add: load_from_db_validates)

section \<open>Writing and loading back\<close>

text \<open>
  What a write leaves of the table: a provider the configuration names is replaced, every
  other provider keeps its row.
\<close>

definition kept_entries :: "config \<Rightarrow> database \<Rightarrow> string \<Rightarrow> tier_entry list" where
  "kept_entries cfg db n =
     filter (\<lambda>e. te_provider e \<notin> tier_providers (cfg_tiers cfg)) (entries_for n (db_tier_models db))"

definition tier_entries_of :: "config \<Rightarrow> string \<Rightarrow> tier_entry list" where
  "tier_entries_of cfg n =
     (case map_of (cfg_tiers cfg) n of None \<Rightarrow> [] | Some tc \<Rightarrow> tc_candidates tc)"

text \<open>Of several candidates of one provider in a tier the last is written.\<close>

definition last_entries :: "tier_entry list \<Rightarrow> tier_entry list" where
  "last_entries cs = filter (\<lambda>c. last_of (te_provider c) cs = Some c) cs"

lemma set_last_entries: "x \<in> set (last_entries cs) \<longleftrightarrow> last_of (te_provider x) cs = Some x"
  by (auto simp: last_entries_def dest: last_of_provider)

lemma written_models:
  assumes "distinct (map fst old)"
    and new: "new = fold (\<lambda>(p, tm). AList.update p tm) (provider_map tiers []) old"
  shows "distinct (map fst new)"
    and "lookup2 new p n =
      (if p \<in> tier_providers tiers then lookup2 (provider_map tiers []) p n else lookup2 old p n)"
proof -
  have d: "distinct (map fst (provider_map tiers []))" by (rule provider_map_keys(2)) simp
  show "distinct (map fst new)" unfolding new by (rule distinct_fold_update) (rule assms(1))
  have "map_of (provider_map tiers []) p = None \<longleftrightarrow> p \<notin> tier_providers tiers"
    by (simp add: map_of_eq_None_iff provider_map_keys(1))
  then show "lookup2 new p n =
      (if p \<in> tier_providers tiers then lookup2 (provider_map tiers []) p n else lookup2 old p n)"
    unfolding lookup2_def new map_of_fold_update [OF d]
    by (cases "map_of (provider_map tiers []) p") auto
qed

lemma written_entries:
  assumes "distinct (map fst (cfg_tiers cfg))" and "distinct (map fst (db_tier_models db))"
  shows "x \<in> set (entries_for n (db_tier_models (written_tables cfg db))) \<longleftrightarrow>
    x \<in> set (last_entries (tier_entries_of cfg n) @ kept_entries cfg db n)"
proof -
  let ?tiers = "cfg_tiers cfg"
  let ?old = "db_tier_models db"
  let ?new = "db_tier_models (written_tables cfg db)"
  have new: "?new = fold (\<lambda>(p, tm). AList.update p tm) (provider_map ?tiers []) ?old"
    by (simp add: written_tables_def)
  note w = written_models [OF assms(2) new]
  have named: "te_provider x \<in> tier_providers ?tiers" if "x \<in> set (last_entries (tier_entries_of cfg n))"
  proof -
    from that have "x \<in> set (tier_entries_of cfg n)" by (simp add: last_entries_def)
    then obtain tc where tc: "map_of ?tiers n = Some tc" "x \<in> set (tc_candidates tc)"
      by (cases "map_of ?tiers n") (simp_all add: tier_entries_of_def)
    then show ?thesis
      unfolding tier_providers_def by (intro UN_I [OF map_of_SomeD [OF tc(1)]]) simp
  qed
  have last: "last_of (te_provider x) cs = Some c \<and> x = entry_of (te_provider x) (tier_model_of c) \<longleftrightarrow>
      last_of (te_provider x) cs = Some x \<and> c = x" for cs c
    using last_of_provider [of "te_provider x" cs c] by (metis entry_of_tier_model_of)
  show ?thesis
  proof (cases "te_provider x \<in> tier_providers ?tiers")
    case True
    have "x \<in> set (entries_for n ?new) \<longleftrightarrow>
        (\<exists>c. Option.bind (map_of ?tiers n) (\<lambda>tc. last_of (te_provider x) (tc_candidates tc)) = Some c \<and>
           x = entry_of (te_provider x) (tier_model_of c))"
      by (auto simp: set_entries_for [OF w(1)] w(2) True lookup2_provider_map [OF assms(1)] split: option.splits)
    also have "\<dots> \<longleftrightarrow> x \<in> set (last_entries (tier_entries_of cfg n))"
      by (cases "map_of ?tiers n")
        (simp_all add: set_last_entries tier_entries_of_def last last_of_def [of _ "[]"])
    finally show ?thesis using True by (simp add: kept_entries_def)
  next
    case False
    then have "x \<in> set (entries_for n ?new) \<longleftrightarrow> x \<in> set (entries_for n ?old)"
      by (simp add: set_entries_for [OF w(1)] set_entries_for [OF assms(2)] w(2))
    with False named show ?thesis by (auto simp: kept_entries_def)
  qed
qed

lemma valid_rows_lookup:
  "distinct (map fst rows) \<Longrightarrow>
   valid_rows rows \<longleftrightarrow> (\<forall>p n e. lookup2 rows p n = Some e \<longrightarrow> valid_tier_entry (entry_of p e))"
  by (fastforce simp: valid_rows_def lookup2_def bind_eq_Some_conv dest: map_of_SomeD
      intro: map_of_is_SomeI)

lemma update_names:
  "distinct (map fst d) \<Longrightarrow> distinct (map fst (fold (\<lambda>(n, _). AList.update n v) kvs d))"
  "fst ` set (fold (\<lambda>(n, _). AList.update n v) kvs d) = fst ` set kvs \<union> fst ` set d"
  by (induction kvs arbitrary: d) (simp_all add: distinct_update dom_update split_beta)

lemma written_tables_ok:
  assumes "tables_ok db" and "valid_config cfg"
  shows "tables_ok (written_tables cfg db)"
proof -
  let ?new = "db_tier_models (written_tables cfg db)"
  have old: "distinct (map fst (db_tier_models db))" "valid_rows (db_tier_models db)"
    and names: "distinct (map fst (db_tiers db))"
    using assms(1) by (simp_all add: tables_ok_def)
  have new: "?new = fold (\<lambda>(p, tm). AList.update p tm) (provider_map (cfg_tiers cfg) []) (db_tier_models db)"
    by (simp add: written_tables_def)
  note w = written_models [OF old(1) new]
  have tiers: "distinct (map fst (cfg_tiers cfg))" using assms(2) by (simp add: valid_config_def)
  have "valid_tier_entry (entry_of p e)" if e: "lookup2 ?new p n = Some e" for p n e
  proof (cases "p \<in> tier_providers (cfg_tiers cfg)")
    case True
    with e obtain tc c where "map_of (cfg_tiers cfg) n = Some tc" "last_of p (tc_candidates tc) = Some c"
      "e = tier_model_of c"
      by (auto simp: w(2) lookup2_provider_map [OF tiers] bind_eq_Some_conv split: option.splits)
    then show ?thesis using valid_config_tierD [OF assms(2)] last_of_provider by fastforce
  next
    case False
    with e have "lookup2 (db_tier_models db) p n = Some e" by (simp add: w(2))
    then show ?thesis using old by (auto simp: valid_rows_lookup)
  qed
  then have "valid_rows ?new" by (auto simp: valid_rows_lookup [OF w(1)])
  with w(1) assms(1) show ?thesis
    by (simp add: tables_ok_def) (simp add: written_tables_def update_names)
qed

text \<open>C14: Writing a valid configuration and loading it again gives its routing settings and every
  tier it names. In each tier the loaded candidates are the last one the configuration has for
  each provider, unchanged, together with the entries the table had for providers the
  configuration does not name. So a second model of the same provider in a tier replaces the
  first one, and a provider or a tier that is left out of a configuration is not removed by
  writing it.
\<close>

theorem write_then_load:
  assumes "collating co" and "tables_ok db"
    and "valid_config cfg" and "routing_fits (cfg_routing cfg)"
  shows "\<exists>db' cfg'. write_to_db cfg db = (Inr (), db') \<and> load_from_db co db' = Inr cfg' \<and>
    cfg_routing cfg' = cfg_routing cfg \<and>
    fst ` set (cfg_tiers cfg') = fst ` set (cfg_tiers cfg) \<union> fst ` set (db_tiers db) \<and>
    (\<forall>n tc. map_of (cfg_tiers cfg') n = Some tc \<longrightarrow>
       set (tc_candidates tc) = set (last_entries (tier_entries_of cfg n) @ kept_entries cfg db n) \<and>
       distinct (map te_provider (tc_candidates tc)))"
proof -
  let ?db = "(written_tables cfg db)\<lparr>db_routing := Some (cfg_routing cfg)\<rparr>"
  let ?cfg = "loaded co ?db (cfg_routing cfg)"
  note ok = written_tables_ok [OF assms(2,3)]
  then have ok': "tables_ok ?db" by (simp add: tables_ok_def)
  then have keys: "distinct (map fst (db_tier_models ?db))" by (simp add: tables_ok_def)
  have old: "distinct (map fst (db_tier_models db))" and conn: "db_connected db"
    and tiers: "distinct (map fst (cfg_tiers cfg))"
    using assms(2,3) by (simp_all add: tables_ok_def valid_config_def)
  note om = collating.ordered_models [OF assms(1) keys]
  have load: "load_from_db co ?db = Inr ?cfg"
    using collating.load_from_db_eq [OF assms(1) ok' _ valid_config_routing [OF assms(3)]] by simp
  have tier: "set (entries_for n (ordered_models co ?db)) =
      set (last_entries (tier_entries_of cfg n) @ kept_entries cfg db n)" for n
  proof -
    have "x \<in> set (entries_for n (ordered_models co ?db)) \<longleftrightarrow>
        x \<in> set (entries_for n (db_tier_models (written_tables cfg db)))" for x
      using om keys by (simp add: set_entries_for lookup2_def)
    with written_entries [OF tiers old] show ?thesis by blast
  qed
  have names: "set (co_names co (map fst (db_tiers ?db))) =
      fst ` set (cfg_tiers cfg) \<union> fst ` set (db_tiers db)"
    by (simp add: collating.set_names [OF assms(1)]) (simp add: written_tables_def update_names)
  show ?thesis
  proof (intro exI conjI allI impI)
    show "write_to_db cfg db = (Inr (), ?db)" using assms(4) by (simp add: write_to_db_eq [OF conn])
    show "load_from_db co ?db = Inr ?cfg" by (rule load)
    show "cfg_routing ?cfg = cfg_routing cfg" by (simp add: loaded_def)
    show "fst ` set (cfg_tiers ?cfg) = fst ` set (cfg_tiers cfg) \<union> fst ` set (db_tiers db)"
      using names by (simp add: loaded_def image_image)
    fix n tc
    assume "map_of (cfg_tiers ?cfg) n = Some tc"
    then have "tc = \<lparr>tc_candidates = entries_for n (ordered_models co ?db)\<rparr>"
      by (auto simp: loaded_def collating.map_of_names [OF assms(1)] split: if_splits)
    with tier om(1) show "set (tc_candidates tc) = set (last_entries (tier_entries_of cfg n) @ kept_entries cfg db n)"
      and "distinct (map te_provider (tc_candidates tc))"
      by (simp_all add: distinct_entries_for)
  qed
qed

text \<open>C35: \<open>write\<close> is not one transaction: the tables are written one statement at a time. When the
  routing settings do not fit their columns the call raises, the routing row and the cached
  configuration stay as they are, and yet the tiers and candidates in the tables are already
  those of the configuration that was refused.
\<close>

theorem failed_write_is_partial:
  assumes "db_connected db" and "\<not> routing_fits (cfg_routing cfg)"
  shows "\<exists>e. write_config cc cfg db c = (Inl e, written_tables cfg db, c) \<and>
    db_routing (written_tables cfg db) = db_routing db \<and>
    db_tier_models (written_tables cfg db) =
      db_tier_models (snd (write_to_db (cfg\<lparr>cfg_routing := (cfg_routing cfg)\<lparr>refresh_interval_ms := 1, health_window_s := 1\<rparr>\<rparr>) db))"
proof -
  have "routing_fits ((cfg_routing cfg)\<lparr>refresh_interval_ms := 1, health_window_s := 1\<rparr>)"
    by (simp add: routing_fits_def int4_def)
  with assms show ?thesis
    by (simp add: write_config_def write_to_db_eq) (simp add: written_tables_def)
qed

section \<open>The cache in Redis\<close>

text \<open>
  What the gateway relies on: \<open>content\<close> is the payload under the key with the seconds it still
  has; what was dumped from a valid configuration loads as that configuration, and what loads
  has been validated.
\<close>

locale config_caching =
  fixes cc :: "('c, 'p) config_cache"
    and content :: "'c \<Rightarrow> ('p \<times> rat) option"
    and pass :: "rat \<Rightarrow> 'c \<Rightarrow> 'c"
  assumes get_content: "cc_get cc c = map_option fst (content c)"
    and setex_content: "0 < t \<Longrightarrow> content (cc_setex cc t p c) = Some (p, t)"
    and delete_content: "content (cc_delete cc c) = None"
    and pass_content: "0 \<le> d \<Longrightarrow> content (pass d c) =
      (case content c of Some (p, t) \<Rightarrow> if d < t then Some (p, t - d) else None | None \<Rightarrow> None)"
    and load_dump: "valid_config cfg \<Longrightarrow> cc_load cc (cc_dump cc cfg) = Some cfg"
    and load_valid: "cc_load cc p = Some cfg \<Longrightarrow> valid_config cfg"

text \<open>
  One replica's use of the store in time, together with other writers of the tables.
  \<open>loads\<close> are the configurations that were read from the tables since the last
  successful \<open>write\<close>, each with its time.
\<close>

inductive config_reach ::
    "('c, 'p) config_cache \<Rightarrow> (rat \<Rightarrow> 'c \<Rightarrow> 'c) \<Rightarrow> collation \<Rightarrow>
     'c \<Rightarrow> database \<Rightarrow> rat \<Rightarrow> (rat \<times> config) set \<Rightarrow> bool"
  for cc :: "('c, 'p) config_cache" and pass co where
  cold: "cc_get cc c = None \<Longrightarrow> config_reach cc pass co c db now {}"
| wait: "config_reach cc pass co c db now loads \<Longrightarrow> 0 \<le> d \<Longrightarrow>
    config_reach cc pass co (pass d c) db (now + d) loads"
| others: "config_reach cc pass co c db now loads \<Longrightarrow> config_reach cc pass co c db' now loads"
| load: "config_reach cc pass co c db now loads \<Longrightarrow> load_or_refresh cc co force db c = (r, c') \<Longrightarrow>
    loads' = (case r of
        Inr cfg \<Rightarrow> (if force \<or> cached_config cc c = None then insert (now, cfg) loads else loads)
      | Inl _ \<Rightarrow> loads) \<Longrightarrow>
    config_reach cc pass co c' db now loads'"
| written: "config_reach cc pass co c db now loads \<Longrightarrow> write_config cc cfg db c = (Inr (), db', c') \<Longrightarrow>
    config_reach cc pass co c' db' now {}"
| refused: "config_reach cc pass co c db now loads \<Longrightarrow> write_config cc cfg db c = (Inl e, db', c') \<Longrightarrow>
    config_reach cc pass co c' db' now loads"

lemma load_or_refresh_cases:
  assumes "load_or_refresh cc co force db c = (r, c')"
  obtains (hit) cfg where "\<not> force" "cached_config cc c = Some cfg" "r = Inr cfg" "c' = c"
  | (fails) e where "force \<or> cached_config cc c = None" "load_from_db co db = Inl e" "r = Inl e" "c' = c"
  | (fills) cfg where "force \<or> cached_config cc c = None" "load_from_db co db = Inr cfg" "r = Inr cfg"
      "c' = cc_setex cc (cc_ttl_s cc) (cc_dump cc cfg) c"
proof (cases "force \<or> cached_config cc c = None")
  case True
  then have none: "(if force then None else cached_config cc c) = None" by auto
  have run: "load_or_refresh cc co force db c =
      (case load_from_db co db of
         Inl e \<Rightarrow> (Inl e, c)
       | Inr cfg \<Rightarrow> (Inr cfg, write_to_redis cc cfg c))"
    unfolding load_or_refresh_def none by simp
  show ?thesis
  proof (cases "load_from_db co db")
    case (Inl e)
    then show ?thesis using assms run that(2) [OF True Inl] by simp
  next
    case (Inr cfg)
    then show ?thesis using assms run that(3) [OF True Inr] by (simp add: write_to_redis_def)
  qed
next
  case False
  then obtain cfg where "\<not> force" and hit: "cached_config cc c = Some cfg" by auto
  moreover from this assms have "r = Inr cfg \<and> c' = c" by (simp add: load_or_refresh_def)
  ultimately show ?thesis using that(1) by blast
qed

context config_caching
begin

lemma cached_recently:
  assumes "config_reach cc pass co c db now loads" and "0 < cc_ttl_s cc" and "content c = Some (p, left)"
  shows "\<exists>t cfg. (t, cfg) \<in> loads \<and> valid_config cfg \<and> p = cc_dump cc cfg \<and>
    0 < left \<and> now + left \<le> t + cc_ttl_s cc"
  using assms(1,3)
proof (induction arbitrary: p left rule: config_reach.induct)
  case (cold c db now)
  then show ?case by (simp add: get_content)
next
  case (wait c db now loads d)
  then show ?case by (fastforce simp: pass_content split: option.splits if_splits)
next
  case (load c db now loads force r c' loads')
  from load(2) show ?case
  proof (cases rule: load_or_refresh_cases)
    case (fills cfg)
    then have "valid_config cfg" by (simp add: load_from_db_validates)
    with fills load(3,5) assms(2) show ?thesis by (auto simp: setex_content)
  qed (use load in auto)
next
  case (written c db now loads cfg db' c')
  then show ?case by (auto simp: write_config_def delete_content split: prod.splits sum.splits)
next
  case (refused c db now loads cfg e db' c')
  then show ?case by (auto simp: write_config_def split: prod.splits sum.splits)
qed auto

lemma served_valid:
  assumes "load_or_refresh cc co force db c = (Inr cfg, c')"
  shows "valid_config cfg"
  using assms
proof (cases rule: load_or_refresh_cases)
  case (hit cfg')
  then show ?thesis by (auto simp: cached_config_def load_valid split: option.splits)
next
  case (fills cfg')
  then show ?thesis by (simp add: load_from_db_validates)
qed simp

lemma served_fresh:
  assumes "config_reach cc pass co c db now loads" and "0 < cc_ttl_s cc"
    and "load_or_refresh cc co force db c = (Inr cfg, c')"
  shows "load_from_db co db = Inr cfg \<or>
    (\<not> force \<and> (\<exists>t. (t, cfg) \<in> loads \<and> now < t + cc_ttl_s cc))"
  using assms(3)
proof (cases rule: load_or_refresh_cases)
  case (hit cfg')
  then obtain p left where p: "content c = Some (p, left)" and cfg: "cc_load cc p = Some cfg"
    by (auto simp: cached_config_def get_content split: option.splits)
  from cached_recently [OF assms(1,2) p] obtain t cfg'' where t: "(t, cfg'') \<in> loads" "valid_config cfg''"
      "p = cc_dump cc cfg''" "0 < left" "now + left \<le> t + cc_ttl_s cc"
    by blast
  with cfg load_dump have "cfg'' = cfg" by simp
  with t hit(1) show ?thesis by (intro disjI2 conjI exI [of _ t]) auto
qed auto

end


section \<open>A concrete store\<close>

text \<open>A cache that holds the configuration itself with its remaining time.\<close>

definition plain_cache :: "((config \<times> rat) option, config) config_cache" where
  "plain_cache = \<lparr>cc_get = map_option fst, cc_setex = (\<lambda>t p _. if 0 < t then Some (p, t) else None),
     cc_delete = (\<lambda>_. None), cc_dump = id,
     cc_load = (\<lambda>cfg. if valid_config cfg then Some cfg else None), cc_ttl_s = 60\<rparr>"

definition plain_pass :: "rat \<Rightarrow> (config \<times> rat) option \<Rightarrow> (config \<times> rat) option" where
  "plain_pass d c = (case c of Some (p, t) \<Rightarrow> if d < t then Some (p, t - d) else None | None \<Rightarrow> None)"

interpretation plain_cache: config_caching plain_cache id plain_pass
  by unfold_locales (simp_all add: plain_cache_def plain_pass_def split: if_splits)

definition demo_candidate :: "string \<Rightarrow> string \<Rightarrow> tier_entry" where
  "demo_candidate p m =
     \<lparr>te_provider = p, te_model = m, te_weight = 1, te_rate_limits = \<lparr>rl_rpm = 60, rl_tpm = 1000\<rparr>\<rparr>"

definition demo_config :: config where
  "demo_config =
     \<lparr>cfg_provider_mode = PM_mock, cfg_secrets_mode = SM_mock,
      cfg_tiers = [(''fast'', \<lparr>tc_candidates =
        [demo_candidate ''openai'' ''gpt-4o'', demo_candidate ''anthropic'' ''haiku'', demo_candidate ''anthropic'' ''sonnet'']\<rparr>)],
      cfg_routing = default_routing_config, cfg_callers = []\<rparr>"

text \<open>The table before has a provider \<open>google\<close>, which the configuration does not name.\<close>

definition demo_tables :: database where
  "demo_tables = demo_db\<lparr>db_tiers := [(''fast'', None), (''slow'', None)],
     db_tier_models := [(''google'', [(''fast'', tier_model_of (demo_candidate ''google'' ''gemini''))])],
     db_routing := Some default_routing_config\<rparr>"

definition demo_written :: database where
  "demo_written = snd (write_to_db demo_config demo_tables)"

lemma demo_config_facts:
  "tables_ok demo_tables" "valid_config demo_config" "routing_fits (cfg_routing demo_config)"
  "last_entries (tier_entries_of demo_config ''fast'') =
     [demo_candidate ''openai'' ''gpt-4o'', demo_candidate ''anthropic'' ''sonnet'']"
  "kept_entries demo_config demo_tables ''fast'' = [demo_candidate ''google'' ''gemini'']"
  "fst ` set (cfg_tiers demo_config) \<union> fst ` set (db_tiers demo_tables) = {''fast'', ''slow''}"
proof -
  have "valid_tier_entry (entry_of ''google'' (tier_model_of (demo_candidate ''google'' ''gemini'')))" by code_simp
  then show "tables_ok demo_tables"
    by (simp add: tables_ok_def demo_tables_def demo_db_def valid_rows_def)
  show "valid_config demo_config" "routing_fits (cfg_routing demo_config)"
    "last_entries (tier_entries_of demo_config ''fast'') =
       [demo_candidate ''openai'' ''gpt-4o'', demo_candidate ''anthropic'' ''sonnet'']"
    "fst ` set (cfg_tiers demo_config) \<union> fst ` set (db_tiers demo_tables) = {''fast'', ''slow''}"
    by code_simp+
  show "kept_entries demo_config demo_tables ''fast'' = [demo_candidate ''google'' ''gemini'']"
    unfolding kept_entries_def tier_providers_def by code_simp
qed

theorem write_then_load_witness:
  "\<exists>cfg' tc. load_from_db c_collation demo_written = Inr cfg' \<and>
     fst ` set (cfg_tiers cfg') = {''fast'', ''slow''} \<and>
     map_of (cfg_tiers cfg') ''fast'' = Some tc \<and>
     set (tc_candidates tc) =
       {demo_candidate ''anthropic'' ''sonnet'', demo_candidate ''openai'' ''gpt-4o'', demo_candidate ''google'' ''gemini''}"
proof -
  from write_then_load [OF c_order.collating_axioms demo_config_facts(1-3)]
  obtain db' cfg' where w: "write_to_db demo_config demo_tables = (Inr (), db')"
      "load_from_db c_collation db' = Inr cfg'"
      "fst ` set (cfg_tiers cfg') = {''fast'', ''slow''}"
    and tiers: "\<forall>n tc. map_of (cfg_tiers cfg') n = Some tc \<longrightarrow>
       set (tc_candidates tc) = set (last_entries (tier_entries_of demo_config n) @ kept_entries demo_config demo_tables n) \<and>
       distinct (map te_provider (tc_candidates tc))"
    unfolding demo_config_facts(6) by (elim exE conjE) (rule that)
  then obtain tc where tc: "map_of (cfg_tiers cfg') ''fast'' = Some tc"
    using map_of_eq_None_iff [of "cfg_tiers cfg'" "''fast''"] by (metis insertI1 not_None_eq)
  with tiers have "set (tc_candidates tc) = set (last_entries (tier_entries_of demo_config ''fast'') @
      kept_entries demo_config demo_tables ''fast'')"
    by blast
  also have "\<dots> = {demo_candidate ''anthropic'' ''sonnet'', demo_candidate ''openai'' ''gpt-4o'', demo_candidate ''google'' ''gemini''}"
    unfolding demo_config_facts(4,5) by (simp add: insert_commute)
  finally have "set (tc_candidates tc) = \<dots>" .
  moreover have "demo_written = db'" by (simp add: demo_written_def w(1))
  ultimately show ?thesis using w(2,3) tc by blast
qed

theorem failed_write_is_partial_witness:
  "\<exists>e. write_config plain_cache
       (demo_config\<lparr>cfg_routing := default_routing_config\<lparr>health_window_s := 3000000000\<rparr>\<rparr>) demo_tables None =
     (Inl e, written_tables demo_config demo_tables, None) \<and>
   map fst (db_tier_models (written_tables demo_config demo_tables)) = [''google'', ''openai'', ''anthropic'']"
proof -
  let ?cfg = "demo_config\<lparr>cfg_routing := default_routing_config\<lparr>health_window_s := 3000000000\<rparr>\<rparr>"
  have "db_connected demo_tables" "\<not> routing_fits (cfg_routing ?cfg)"
    "map fst (db_tier_models (written_tables demo_config demo_tables)) = [''google'', ''openai'', ''anthropic'']"
    by code_simp+
  moreover have "written_tables ?cfg demo_tables = written_tables demo_config demo_tables"
    by (simp add: written_tables_def)
  ultimately show ?thesis
    using failed_write_is_partial [of demo_tables ?cfg plain_cache None] by auto
qed

text \<open>After thirty seconds the cache still serves what another replica has since changed.\<close>

definition demo_loaded :: config where
  "demo_loaded = demo_config\<lparr>cfg_tiers :=
     [(''fast'', \<lparr>tc_candidates =
        [demo_candidate ''anthropic'' ''sonnet'', demo_candidate ''google'' ''gemini'', demo_candidate ''openai'' ''gpt-4o'']\<rparr>),
      (''slow'', \<lparr>tc_candidates = []\<rparr>)]\<rparr>"

lemma demo_loads:
  "load_or_refresh plain_cache c_collation False demo_written None = (Inr demo_loaded, Some (demo_loaded, 60))"
  "load_or_refresh plain_cache c_collation False demo_tables (Some (demo_loaded, 30)) =
     (Inr demo_loaded, Some (demo_loaded, 30))"
  "load_from_db c_collation demo_tables \<noteq> Inr demo_loaded"
  by code_simp+


theorem load_from_db_valid_witness:
  "valid_config demo_loaded \<and>
   load_from_db c_collation demo_db = Inl (ConfigStoreError ''routing_config table has no row'')"
proof -
  have loads: "load_from_db c_collation demo_written = Inr demo_loaded" by code_simp
  have "db_connected demo_db" "db_routing demo_db = None" "\<not> (\<exists>cfg. load_from_db c_collation demo_db = Inr cfg)"
    by (simp_all add: demo_db_def load_from_db_def fetch_routing_config_def with_pool_def)
  moreover from this obtain e where "load_from_db c_collation demo_db = Inl e"
    by (cases "load_from_db c_collation demo_db") auto
  ultimately show ?thesis
    using load_from_db_valid [where co = c_collation and db = demo_written]
      load_from_db_valid [where co = c_collation and db = demo_db]
    by (simp add: loads)
qed

end
