(* ===== verification/Serving.thy ===== *)
theory Serving
  imports Boot
begin

text \<open>
  How a request of a started gateway can end: what the wiring of the theory \<open>Boot\<close> gives the
  failover loop of the theory \<open>Router\<close>. The vendors' services and the price table are
  outside; what the loop needs of them is stated as \<open>vendors_behave\<close> and \<open>costs_nonneg\<close>.
\<close>

section \<open>What the loop needs\<close>

text \<open>
  A vendor answers with counts that are not negative and a text that fits a message, or raises a
  \<open>ProviderError\<close>.
\<close>

definition reply_ok :: "vendor_reply \<Rightarrow> bool" where
  "reply_ok r \<longleftrightarrow>
     (case r of
        Replied result \<Rightarrow> valid_chat_result result \<and> length (cr_text result) \<le> 200000
      | Provider_failed _ \<Rightarrow> True
      | Crashed _ \<Rightarrow> False)"

definition vendors_behave :: "(string, 'w vendor) pydict \<Rightarrow> bool" where
  "vendors_behave vendors \<longleftrightarrow>
     (\<forall>p chat m ms params t w. map_of vendors p = Some chat \<longrightarrow> reply_ok (fst (chat m ms params t w)))"

definition costs_nonneg :: "pricing_table \<Rightarrow> bool" where
  "costs_nonneg pt \<longleftrightarrow> (\<forall>p m i n. 0 \<le> i \<longrightarrow> 0 \<le> n \<longrightarrow> 0 \<le> fst (cost_usd pt p m i n))"

definition route_ready :: "'w router \<Rightarrow> bool" where
  "route_ready rt \<longleftrightarrow> limits_cover (rt_bucket rt) (rt_config rt) \<and>
     0 < target_latency_s (rt_engine_routing rt) \<and> vendors_behave (rt_vendors rt) \<and>
     costs_nonneg (rt_pricing rt)"

text \<open>A candidate that a vendor is missing for has no signals.\<close>

definition signals_have_vendors :: "'w router \<Rightarrow> bool" where
  "signals_have_vendors rt \<longleftrightarrow>
     (\<forall>w. \<forall>c \<in> fst ` set (rt_engine_cache rt w). ca_provider c \<in> fst ` set (rt_vendors rt))"

definition ctx_ok :: "'w router \<Rightarrow> route_ctx \<Rightarrow> bool" where
  "ctx_ok rt cx \<longleftrightarrow> set (rx_candidates cx) \<subseteq> set (tier_entries (rt_config rt)) \<and>
     valid_caller_name (cl_name (rx_caller cx)) \<and>
     (case rx_client_trace_id cx of None \<Rightarrow> True | Some s \<Rightarrow> length s \<le> 128)"

section \<open>Lemmas of a round\<close>

lemma mk_record_total:
  assumes "ctx_ok rt cx" and "costs_nonneg (rt_pricing rt)" and "0 \<le> i" and "0 \<le> n"
  shows "\<exists>rec. mk_record rt cx c (int k) latency status i n v = Inr rec"
  using assms
  by (auto simp: mk_record_def mk_attempt_record_def valid_attempt_record_def ctx_ok_def costs_nonneg_def
      Let_def)

lemma mk_response_total:
  assumes "reply_ok (Replied result)"
  shows "\<exists>response. mk_response cx result = Inr response"
  using assms by (simp add: mk_response_def mk_message_def reply_ok_def valid_chat_result_def)

lemma on_provider_error_safe:
  assumes "ctx_ok rt cx" and "costs_nonneg (rt_pricing rt)"
  shows "fst (on_provider_error rt cx st c elapsed e w) \<noteq> Finish (Escaped x)"
  using mk_record_total [OF assms, of 0 0 c "length (rs_attempts st)" elapsed "status_for (pe_class e)" None]
  by (auto simp: on_provider_error_def split_beta Let_def split: if_splits)

lemma on_result_safe:
  assumes "ctx_ok rt cx" and "costs_nonneg (rt_pricing rt)" and "reply_ok (Replied result)"
  shows "fst (on_result rt cx st c elapsed result w) \<noteq> Finish (Escaped x)"
proof -
  have "0 \<le> cr_input_tokens result" "0 \<le> cr_output_tokens result"
    using assms(3) by (simp_all add: reply_ok_def valid_chat_result_def)
  from mk_record_total [OF assms(1,2) this] obtain rec where
    "mk_record rt cx c (int (length (rs_attempts st))) elapsed ''ok'' (cr_input_tokens result)
       (cr_output_tokens result) (cr_vendor_request_id result) = Inr rec" by blast
  moreover obtain response where "mk_response cx result = Inr response"
    using mk_response_total [OF assms(3)] by blast
  ultimately show ?thesis by (simp add: on_result_def Let_def)
qed

lemma call_vendor_safe:
  assumes "ctx_ok rt cx" and "route_ready rt"
  shows "fst (call_vendor rt cx st c timeout w) \<noteq> Finish (Escaped x)"
proof -
  have costs: "costs_nonneg (rt_pricing rt)" and vendors: "vendors_behave (rt_vendors rt)"
    using assms(2) by (simp_all add: route_ready_def)
  obtain t0 w1 where t0: "rt_now rt w = (t0, w1)" by force
  show ?thesis
  proof (cases "map_of (rt_vendors rt) (ca_provider c)")
    case None
    then show ?thesis by (simp add: call_vendor_def t0)
  next
    case (Some chat)
    obtain reply w2 where reply: "chat (ca_model c) (rx_messages cx) (rx_params cx) timeout w1 = (reply, w2)"
      by force
    have ok: "reply_ok reply"
      using vendors Some reply unfolding vendors_behave_def by (metis fst_conv)
    obtain t1 w3 where t1: "rt_now rt w2 = (t1, w3)" by force
    show ?thesis
    proof (cases reply)
      case (Replied result)
      with on_result_safe [OF assms(1) costs, of result] ok show ?thesis
        by (simp add: call_vendor_def t0 t1 Some reply)
    next
      case (Provider_failed e)
      with on_provider_error_safe [OF assms(1) costs] show ?thesis
        by (simp add: call_vendor_def t0 t1 Some reply)
    next
      case (Crashed y)
      with ok show ?thesis by (simp add: reply_ok_def)
    qed
  qed
qed

text \<open>A pick does not raise, and who is picked has signals.\<close>

lemma pick_total:
  assumes "0 < target_latency_s routing"
  shows "\<exists>res w'. pick routing cache ts exclude rng w = (Inr res, w')"
  using collect_total [OF assms, of cache exclude ts] by (auto simp: pick_def split_beta Let_def)

lemma pick_has_signals:
  assumes "pick routing cache ts exclude rng w = (Inr (Some c), w')"
  shows "c \<in> fst ` set cache"
proof -
  obtain cws where cws: "collect routing cache exclude ts = Inr cws" "cws \<noteq> []"
    and c: "c = walk (fst (rng w) * sum_list (map snd cws)) 0 (fst (last cws)) cws"
    using assms by (auto simp: pick_def split_beta Let_def split: sum.splits if_splits)
  from cws(2) have "fst (last cws) \<in> fst ` set cws" by simp
  then have "c \<in> fst ` set cws"
    unfolding c by (metis insertE walk_in)
  then obtain v where "0 < v" "weight routing cache c = Inr v"
    using collect_elements [OF cws(1)] by auto
  then have "map_of cache c \<noteq> None" by (auto simp: weight_def split: option.splits)
  then show ?thesis by (simp add: map_of_eq_None_iff)
qed

lemma route_step_safe:
  assumes "ctx_ok rt cx" and "route_ready rt"
  shows "fst (route_step rt cx st w) \<noteq> Finish (Escaped x)"
proof -
  obtain now w1 where now: "rt_now rt w = (now, w1)" by force
  have "0 < target_latency_s (rt_engine_routing rt)" using assms(2) by (simp add: route_ready_def)
  from pick_total [OF this] obtain res w2 where
    pick: "pick (rt_engine_routing rt) (rt_engine_cache rt w1) (rx_candidates cx) (rs_exclude st)
      (rt_rng rt) w1 = (Inr res, w2)" by metis
  show ?thesis
  proof (cases res)
    case None
    then show ?thesis by (simp add: route_step_def now pick exhausted_def deadline_exceeded_def)
  next
    case (Some c)
    with pick_sound pick have "c \<in> mk_ref ` set (rx_candidates cx)" by fastforce
    then obtain t where t: "t \<in> set (rx_candidates cx)" and c: "c = mk_ref t" by blast
    with assms obtain e where e: "tb_entry (rt_bucket rt) (ca_provider c) (ca_model c) = Inr e"
      by (auto simp: ctx_ok_def route_ready_def limits_cover_def)
    obtain ok a b w3 where
      "ratelimit_acquire (rt_bucket rt) (ca_provider c) (ca_model c) e (rx_est cx) w2 = ((ok, a, b), w3)"
      by (metis prod.exhaust)
    with e have
      "try_acquire (rt_bucket rt) (ca_provider c) (ca_model c) (rx_est cx) w2 = (Inr (ok, a, b), w3)"
      by (simp add: try_acquire_def)
    with call_vendor_safe [OF assms] Some now pick show ?thesis
      by (simp add: route_step_def exhausted_def deadline_exceeded_def)
  qed
qed

text \<open>Nobody is reported as tried without a vendor.\<close>

definition none_missing :: "route_state \<Rightarrow> bool" where
  "none_missing st \<longleftrightarrow> ''vendor_missing'' \<notin> snd ` set (rs_tried st)"

definition no_vendor_missing :: "route_outcome \<Rightarrow> bool" where
  "no_vendor_missing out \<longleftrightarrow>
     (case out of Refused e \<Rightarrow> ''vendor_missing'' \<notin> snd ` set (re_tried e) | _ \<Rightarrow> True)"

lemma status_for_attempted [simp]:
  "status_for c \<noteq> ''vendor_missing''" "''vendor_missing'' \<noteq> status_for c"
  by (cases c; simp add: status_for_def STATUS_FOR_ERROR_KIND_def)+

lemma call_vendor_none_missing:
  assumes "none_missing st" and "ca_provider c \<in> fst ` set (rt_vendors rt)"
    and "call_vendor rt cx st c timeout w = (r, w')"
  shows "case r of Again st' \<Rightarrow> none_missing st' | Finish out \<Rightarrow> no_vendor_missing out"
proof -
  have "map_of (rt_vendors rt) (ca_provider c) \<noteq> None" using assms(2) by (simp add: map_of_eq_None_iff)
  with assms(1,3) show ?thesis
    by (auto simp: call_vendor_def on_provider_error_def on_result_def none_missing_def
        no_vendor_missing_def give_up_on_def Let_def
        split: prod.splits vendor_reply.splits sum.splits if_splits)
qed

lemma route_step_none_missing:
  assumes "none_missing st" and "signals_have_vendors rt" and "route_step rt cx st w = (r, w')"
  shows "case r of Again st' \<Rightarrow> none_missing st' | Finish out \<Rightarrow> no_vendor_missing out"
proof -
  obtain now w1 where now: "rt_now rt w = (now, w1)" by force
  let ?pick = "pick (rt_engine_routing rt) (rt_engine_cache rt w1) (rx_candidates cx) (rs_exclude st)
    (rt_rng rt) w1"
  obtain res w2 where pick: "?pick = (res, w2)" by force
  show ?thesis
  proof (cases "rx_deadline cx - now < 3 / 2 \<or> (\<forall>c. res \<noteq> Inr (Some c))")
    case True
    with assms(1,3) now pick show ?thesis
      by (auto simp: route_step_def none_missing_def no_vendor_missing_def deadline_exceeded_def
          exhausted_def split: sum.splits option.splits if_splits)
  next
    case False
    then obtain c where res: "res = Inr (Some c)" and time: "\<not> rx_deadline cx - now < 3 / 2" by blast
    from pick_has_signals [OF pick [unfolded res]] assms(2)
    have vendor: "ca_provider c \<in> fst ` set (rt_vendors rt)" by (auto simp: signals_have_vendors_def)
    obtain got w3 where got: "try_acquire (rt_bucket rt) (ca_provider c) (ca_model c) (rx_est cx) w2 = (got, w3)"
      by force
    note call = call_vendor_none_missing [OF assms(1) vendor]
    show ?thesis
    proof (cases got)
      case (Inl x)
      with assms(3) now pick res time got show ?thesis
        by (auto simp: route_step_def no_vendor_missing_def)
    next
      case (Inr g)
      obtain ok a b where g: "g = (ok, a, b)" by (cases g)
      show ?thesis
      proof (cases ok)
        case True
        then have "call_vendor rt cx st c (attempt_timeout rt (rx_deadline cx - now)) w3 = (r, w')"
          using assms(3) now pick res time got Inr g by (simp add: route_step_def)
        then show ?thesis by (rule call)
      next
        case False
        then have "r = Again (give_up_on c ''bucket_empty'' st)"
          using assms(3) now pick res time got Inr g by (simp add: route_step_def)
        with assms(1) show ?thesis by (simp add: none_missing_def give_up_on_def)
      qed
    qed
  qed
qed

section \<open>A whole request\<close>

lemma start_ctx_ok:
  assumes "map_of (cfg_tiers (rt_config rt)) (rq_model req) = Some tc" and "valid_caller_name (cl_name caller)"
  shows "ctx_ok rt (start_ctx rt req caller tc now params i)"
proof -
  have "set (tc_candidates tc) \<subseteq> set (tier_entries (rt_config rt))"
    using map_of_SomeD [OF assms(1)] by (force simp: tier_entries_def)
  moreover have "case rx_client_trace_id (start_ctx rt req caller tc now params i) of
      None \<Rightarrow> True | Some s \<Rightarrow> length s \<le> 128"
    by (auto simp: start_ctx_def Let_def split: option.splits)
  ultimately show ?thesis using assms(2) by (simp add: ctx_ok_def)
qed

lemma route_safe:
  assumes "route_ready rt" and "signals_have_vendors rt" and "valid_caller_name (cl_name caller)"
    and "0 < rq_max_tokens req"
  shows "(\<forall>x. fst (route rt req caller w) \<noteq> Escaped x) \<and> no_vendor_missing (fst (route rt req caller w))"
proof (cases "map_of (cfg_tiers (rt_config rt)) (rq_model req)")
  case None
  then show ?thesis by (simp add: route_def no_vendor_missing_def)
next
  case (Some tc)
  obtain now params i v where
    run: "route rt req caller w = route_loop rt (start_ctx rt req caller tc now params i) start_state v"
    using route_starts [OF Some assms(4)] by metis
  let ?cx = "start_ctx rt req caller tc now params i"
  obtain out w' where out: "route_loop rt ?cx start_state v = (out, w')" by force
  have init: "none_missing start_state" by (simp add: none_missing_def start_state_def)
  obtain st u where st: "none_missing st" and last: "route_step rt ?cx st u = (Finish out, w')"
    using route_loop_last_round [where P = none_missing, OF out init]
      route_step_none_missing [OF _ assms(2)] by fastforce
  have "out \<noteq> Escaped x" for x
    using route_step_safe [OF start_ctx_ok [OF Some assms(3)] assms(1)] last by (metis fst_conv)
  moreover have "no_vendor_missing out"
    using route_step_none_missing [OF st assms(2) last] by simp
  ultimately show ?thesis by (simp add: run out)
qed

lemma started_router:
  assumes "config_caching cc content pass"
    and "lifespan_start dp env cc co db c w = (Inr (gw, cache, snap), c', w')"
    and "vendors_behave (rt_vendors (gw_router gw))" and "costs_nonneg (dp_pricing dp)"
  shows "route_ready (gw_router gw)"
  using assms(2)
proof (rule lifespan_start_cases)
  fix dsn cfg0 cfg
  assume load: "load_or_refresh cc co False (db_connect db) c = (Inr cfg0, c')"
    and over: "apply_env_overrides cfg0 (map_of env ''GATEWAY_PROVIDER_MODE'')
       (map_of env ''GATEWAY_SECRETS_MODE'') = Inr cfg"
    and wire: "wire dp env cfg w = (Inr (gw, cache, snap), w')"
  have valid: "valid_config cfg"
    using override_valid(1) [OF over config_caching.served_valid [OF assms(1) load]] .
  obtain vendors seed where rt: "gw_router gw = mk_router dp cfg vendors (mk_refresh dp cfg vendors) seed"
    using wire_cases [OF wire] by auto
  have "limits_cover (rt_bucket (gw_router gw)) (rt_config (gw_router gw))"
    by (simp add: rt mk_router_def) (rule limits_of_cover, simp add: mk_refresh_def)
  moreover have "0 < target_latency_s (rt_engine_routing (gw_router gw))"
    using valid_config_routing [OF valid] by (simp add: rt mk_router_def valid_routing_config_def)
  ultimately show ?thesis
    using assms(3,4) by (simp add: route_ready_def rt mk_router_def)
qed


lemma demo_vendors_behave: "vendors_behave demo_vendors"
  unfolding vendors_behave_def
proof (intro allI impI)
  fix p m ms params t w and chat :: "mem_world vendor"
  assume "map_of demo_vendors p = Some chat"
  then have "chat = demo_vendor (Replied demo_answer)"
    by (auto simp: demo_vendors_def dest!: map_of_SomeD)
  then show "reply_ok (fst (chat m ms params t w))"
    by (simp add: demo_vendor_def reply_ok_def valid_chat_result_def demo_answer_def)
qed

lemma demo_costs: "costs_nonneg (load_pricing demo_prices)"
proof -
  have "pt_index (load_pricing demo_prices) = [((''openai'', ''gpt-4o''),
      \<lparr>pr_input_cost_per_token = 1 / 400000, pr_output_cost_per_token = 1 / 100000,
       pr_max_input_tokens = Some 128000\<rparr>)]"
    by code_simp
  then show ?thesis by (simp add: costs_nonneg_def cost_usd_def)
qed


end
