(* ===== verification/App.thy ===== *)
theory App
  imports Serving Accounting
begin

text \<open>
  The HTTP endpoints of \<open>gateway/app.py\<close> and the collectors of \<open>gateway/metrics.py\<close>. A request
  body has passed the validation of the theory \<open>Models\<close> before its handler runs. The state
  of the application is a record that every handler takes and returns.
\<close>

section \<open>Collectors\<close>

text \<open>
  A labelled counter or gauge is a function of its labels, a histogram keeps what it observed.
  Gauges that were never set have no value.
\<close>

record collectors =
  co_requests_total :: "string \<times> string \<times> string \<Rightarrow> int"
  co_request_latency :: "string \<times> string \<Rightarrow> rat list"
  co_attempts_total :: "string \<times> string \<times> string \<Rightarrow> int"
  co_cost_usd_total :: "string \<times> string \<times> string \<Rightarrow> rat"
  co_routing_weight :: "string \<times> string \<Rightarrow> rat option"
  co_breaker_state :: "string \<times> string \<Rightarrow> int option"
  co_bucket_remaining :: "string \<times> string \<times> string \<Rightarrow> int option"

definition no_collectors :: collectors where
  "no_collectors =
     \<lparr>co_requests_total = (\<lambda>_. 0), co_request_latency = (\<lambda>_. []), co_attempts_total = (\<lambda>_. 0),
      co_cost_usd_total = (\<lambda>_. 0), co_routing_weight = (\<lambda>_. None), co_breaker_state = (\<lambda>_. None),
      co_bucket_remaining = (\<lambda>_. None)\<rparr>"

text \<open>\<open>REQUESTS_TOTAL\<close> and \<open>REQUEST_LATENCY\<close> of one request.\<close>

definition count_request :: "string \<Rightarrow> string \<Rightarrow> string \<Rightarrow> rat \<Rightarrow> collectors \<Rightarrow> collectors" where
  "count_request caller tier outcome elapsed m =
     m\<lparr>co_requests_total := (co_requests_total m)
          ((caller, tier, outcome) := co_requests_total m (caller, tier, outcome) + 1),
       co_request_latency := (co_request_latency m)
          ((tier, outcome) := co_request_latency m (tier, outcome) @ [elapsed])\<rparr>"

text \<open>\<open>ATTEMPTS_TOTAL\<close> and \<open>COST_USD_TOTAL\<close> of one attempt; a valid record's cost is not negative, as \<open>inc\<close> requires.\<close>

definition count_attempt :: "string \<Rightarrow> string \<Rightarrow> attempt_record \<Rightarrow> collectors \<Rightarrow> collectors" where
  "count_attempt caller tier a m =
     (let m = m\<lparr>co_attempts_total := (co_attempts_total m)
            ((ar_provider a, ar_model a, ar_status a) :=
               co_attempts_total m (ar_provider a, ar_model a, ar_status a) + 1)\<rparr>
      in if ar_status a = ''ok''
         then m\<lparr>co_cost_usd_total := (co_cost_usd_total m)
            ((caller, tier, ar_provider a) := co_cost_usd_total m (caller, tier, ar_provider a) + ar_cost_usd a)\<rparr>
         else m)"

section \<open>Replies\<close>

text \<open>
  \<open>Failed status detail\<close> is an \<open>HTTPException\<close>, with the entries of its detail that are
  strings and its \<open>retryable\<close> flag if it has one; \<open>Crash\<close> is any other exception, which the
  server turns into a plain 500.
\<close>

datatype 'a http_reply =
    Ok 'a
  | Failed int "(string, string) pydict" "bool option"
  | Crash py_exn

record app_state =
  as_cache :: auth_cache
  as_db :: database
  as_queue :: queue_state
  as_collectors :: collectors

definition router_error_kind_value :: "router_error_kind \<Rightarrow> string" where
  "router_error_kind_value k =
     (case k of RK_INVALID_REQUEST \<Rightarrow> ''invalid_request'' | RK_AUTH \<Rightarrow> ''auth''
      | RK_UPSTREAM_UNAVAILABLE \<Rightarrow> ''upstream_unavailable'' | RK_DEADLINE_EXCEEDED \<Rightarrow> ''deadline_exceeded'')"

definition http_status_for :: "router_error_kind \<Rightarrow> int" where
  "http_status_for k =
     (case k of RK_INVALID_REQUEST \<Rightarrow> 400 | RK_AUTH \<Rightarrow> 401 | RK_UPSTREAM_UNAVAILABLE \<Rightarrow> 503
      | RK_DEADLINE_EXCEEDED \<Rightarrow> 504)"

definition failed_with_body :: "int \<Rightarrow> error_body \<Rightarrow> 'a http_reply" where
  "failed_with_body status body =
     Failed status [(''type'', eb_type body), (''message'', eb_message body)] (Some (eb_retryable body))"

section \<open>Callers\<close>

definition unauthorized :: "'a http_reply" where
  "unauthorized = Failed 401 [(''type'', ''auth''), (''message'', ''invalid or missing API key'')] None"

text \<open>\<open>_resolve_caller\<close>: a caller, or the reply that ends the request.\<close>

definition resolve_caller ::
    "'w gateway \<Rightarrow> string option \<Rightarrow> app_state \<Rightarrow> ('a http_reply + caller) \<times> app_state" where
  "resolve_caller gw authorization s =
     (let (r, cache, db) = resolve_bearer (gw_auth gw) authorization (as_cache s) (as_db s);
          s = s\<lparr>as_cache := cache, as_db := db\<rparr>
      in case r of
           Inl e \<Rightarrow> (Inl (Crash e), s)
         | Inr None \<Rightarrow> (Inl unauthorized, s)
         | Inr (Some caller) \<Rightarrow> (Inr caller, s))"

section \<open>Completions\<close>

type_synonym chat_reply = "chat_response http_reply"

definition cap_exhausted :: "'a http_reply" where
  "cap_exhausted =
     Failed 429 [(''type'', ''caller_rate_limit''), (''message'', ''daily token cap exhausted'')] (Some False)"

text \<open>The daily cap: \<open>None\<close> lets the request through.\<close>

definition check_cap :: "caller \<Rightarrow> app_state \<Rightarrow> 'a http_reply option \<times> app_state" where
  "check_cap caller s =
     (case cl_daily_token_cap caller of
        None \<Rightarrow> (None, s)
      | Some cap \<Rightarrow>
          (let (r, db) = caller_tokens_used_today (db_now (as_db s)) (cl_name caller) (as_db s);
               s = s\<lparr>as_db := db\<rparr>
           in case r of
                Inl e \<Rightarrow> (Some (Crash e), s)
              | Inr used \<Rightarrow> (if cap \<le> used then Some cap_exhausted else None, s)))"

lemma cap_exhausted_neq [simp]: "Ok r \<noteq> cap_exhausted" "Crash e \<noteq> cap_exhausted"
  by (simp_all add: cap_exhausted_def)

definition account ::
    "'w gateway \<Rightarrow> caller \<Rightarrow> chat_request \<Rightarrow> attempt_record list \<Rightarrow> app_state \<Rightarrow> app_state" where
  "account gw caller req attempts s =
     fold (\<lambda>a s. s\<lparr>as_collectors := count_attempt (cl_name caller) (rq_model req) a (as_collectors s),
                   as_queue := enqueue (gw_accounting gw) a (as_queue s)\<rparr>) attempts s"

text \<open>\<open>chat_completions\<close>, from the header and a valid body; \<open>w\<close> is the router's world.\<close>

definition chat_completions ::
    "'w gateway \<Rightarrow> string option \<Rightarrow> chat_request \<Rightarrow> app_state \<Rightarrow> 'w \<Rightarrow>
     chat_response http_reply \<times> app_state \<times> 'w" where
  "chat_completions gw authorization req s w =
     (case resolve_caller gw authorization s of
        (Inl reply, s) \<Rightarrow> (reply, s, w)
      | (Inr caller, s) \<Rightarrow>
          (case check_cap caller s of
             (Some reply, s) \<Rightarrow> (reply, s, w)
           | (None, s) \<Rightarrow>
               (let (t0, w) = rt_now (gw_router gw) w
                in case route (gw_router gw) req caller w of
                     (Escaped e, w) \<Rightarrow> (Crash e, s, w)
                   | (Refused e, w) \<Rightarrow>
                       (let (t1, w) = rt_now (gw_router gw) w
                        in (failed_with_body (http_status_for (re_kind e)) (re_body e),
                            s\<lparr>as_collectors := count_request (cl_name caller) (rq_model req)
                                (router_error_kind_value (re_kind e)) (t1 - t0) (as_collectors s)\<rparr>, w))
                   | (Routed result, w) \<Rightarrow>
                       (let (t1, w) = rt_now (gw_router gw) w;
                            s = s\<lparr>as_collectors := count_request (cl_name caller) (rq_model req) ''ok''
                                (t1 - t0) (as_collectors s)\<rparr>
                        in (Ok (rr_response result), account gw caller req (rr_attempts result) s, w)))))"

section \<open>Usage and probes\<close>

text \<open>\<open>v1_usage\<close>; the query parameter \<open>caller\<close> is ignored.\<close>

definition v1_usage ::
    "'w gateway \<Rightarrow> collation \<Rightarrow> string option \<Rightarrow> string option \<Rightarrow> app_state \<Rightarrow>
     usage_item list http_reply \<times> app_state" where
  "v1_usage gw co authorization query_caller s =
     (case resolve_caller gw authorization s of
        (Inl reply, s) \<Rightarrow> (reply, s)
      | (Inr resolved, s) \<Rightarrow>
          (case usage_summary co (Some (cl_name resolved)) None (as_db s) of
             (Inl e, db) \<Rightarrow> (Crash e, s\<lparr>as_db := db\<rparr>)
           | (Inr items, db) \<Rightarrow> (Ok items, s\<lparr>as_db := db\<rparr>)))"

definition healthz :: "(string, string) pydict http_reply" where
  "healthz = Ok [(''status'', ''ok'')]"

definition readyz :: "(string, string) pydict http_reply" where
  "readyz = Ok [(''status'', ''ready'')]"

section \<open>Metrics\<close>

text \<open>\<open>hmac.compare_digest\<close> of two strings: both must be ASCII.\<close>

definition compare_digest :: "string \<Rightarrow> string \<Rightarrow> bool pyres" where
  "compare_digest a b =
     (if list_all (\<lambda>c. (of_char c :: nat) < 128) (a @ b) then Inr (a = b)
      else Inl (TypeError ''comparing strings with non-ASCII characters is not supported''))"

definition BREAKER_GAUGE :: "breaker_state \<Rightarrow> int" where
  "BREAKER_GAUGE b = (case b of CLOSED \<Rightarrow> 0 | HALF_OPEN \<Rightarrow> 1 | OPEN \<Rightarrow> 2)"

text \<open>The gauge keeps the order of the states.\<close>

lemma BREAKER_GAUGE_order [simp]: "BREAKER_GAUGE s \<le> BREAKER_GAUGE t \<longleftrightarrow> s \<le> t"
  by (cases s; cases t) (simp_all add: BREAKER_GAUGE_def less_eq_breaker_state_def)

text \<open>The gauges of one candidate that has signals.\<close>

definition candidate_gauges ::
    "routing_config \<Rightarrow> tier_entry \<Rightarrow> candidate_signals \<Rightarrow> collectors \<Rightarrow> collectors pyres" where
  "candidate_gauges routing t sig m =
     rbind (health_score (cs_error_rate sig) (cs_mean_latency_s sig) (target_latency_s routing)) (\<lambda>h.
       let b = budget_score (cs_rpm_remaining sig) (cs_rpm_cap sig) (cs_tpm_remaining sig) (cs_tpm_cap sig);
           w = effective_weight (cs_base_weight sig) h b (cs_breaker sig) (min_weight_floor routing);
           p = te_provider t; mo = te_model t
       in Inr (m\<lparr>co_routing_weight := (co_routing_weight m)((p, mo) \<mapsto> w),
                 co_breaker_state := (co_breaker_state m)((p, mo) \<mapsto> BREAKER_GAUGE (cs_breaker sig)),
                 co_bucket_remaining := (co_bucket_remaining m)
                   ((p, mo, ''rpm'') \<mapsto> cs_rpm_remaining sig, (p, mo, ''tpm'') \<mapsto> cs_tpm_remaining sig)\<rparr>))"

fun refresh_gauges :: "routing_config \<Rightarrow> signal_cache \<Rightarrow> tier_entry list \<Rightarrow> collectors \<Rightarrow> collectors pyres" where
  "refresh_gauges routing cache [] m = Inr m"
| "refresh_gauges routing cache (t # ts) m =
     (case signals_for cache (mk_ref t) of
        None \<Rightarrow> refresh_gauges routing cache ts m
      | Some sig \<Rightarrow> rbind (candidate_gauges routing t sig m) (refresh_gauges routing cache ts))"

text \<open>\<open>cfg\<close> is what the holder has, which a reload may have changed, \<open>cache\<close> the engine's.\<close>

definition refresh_observability_gauges :: "config \<Rightarrow> signal_cache \<Rightarrow> collectors \<Rightarrow> collectors pyres" where
  "refresh_observability_gauges cfg cache m = refresh_gauges (cfg_routing cfg) cache (tier_entries cfg) m"

definition metrics_unauth :: "'a http_reply" where
  "metrics_unauth = Failed 401 [(''detail'', ''metrics auth required'')] None"

definition metrics_provided :: "string option \<Rightarrow> string" where
  "metrics_provided authorization =
     (case authorization of
        None \<Rightarrow> ''''
      | Some h \<Rightarrow> if h \<noteq> '''' \<and> starts_with ''Bearer '' h then py_strip (drop (length ''Bearer '') h) else '''')"

text \<open>\<open>metrics\<close>: the collectors that are rendered.\<close>

definition metrics_endpoint ::
    "environ \<Rightarrow> secrets_manager \<Rightarrow> config \<Rightarrow> signal_cache \<Rightarrow> string option \<Rightarrow> collectors \<Rightarrow>
     collectors http_reply" where
  "metrics_endpoint env sm cfg cache authorization m =
     (if \<not> secrets_has env sm METRICS_TOKEN_KEY then metrics_unauth
      else (case secrets_get env sm METRICS_TOKEN_KEY of
              Inl e \<Rightarrow> Crash e
            | Inr expected \<Rightarrow>
                (case compare_digest expected (metrics_provided authorization) of
                   Inl e \<Rightarrow> Crash e
                 | Inr False \<Rightarrow> metrics_unauth
                 | Inr True \<Rightarrow>
                     (case refresh_observability_gauges cfg cache m of
                        Inl e \<Rightarrow> Crash e
                      | Inr m \<Rightarrow> Ok m))))"

section \<open>Lemmas of the handlers\<close>

lemma account_parts [simp]:
  "as_queue (account gw caller req attempts s) = fold (enqueue (gw_accounting gw)) attempts (as_queue s)"
  "as_collectors (account gw caller req attempts s) =
     fold (count_attempt (cl_name caller) (rq_model req)) attempts (as_collectors s)"
  "as_db (account gw caller req attempts s) = as_db s"
  "as_cache (account gw caller req attempts s) = as_cache s"
  by (induction attempts arbitrary: s) (simp_all add: account_def)

lemma count_attempt_sel [simp]:
  "co_requests_total (count_attempt caller tier a m) = co_requests_total m"
  "co_request_latency (count_attempt caller tier a m) = co_request_latency m"
  "co_attempts_total (count_attempt caller tier a m) = (co_attempts_total m)
     ((ar_provider a, ar_model a, ar_status a) :=
        co_attempts_total m (ar_provider a, ar_model a, ar_status a) + 1)"
  "co_cost_usd_total (count_attempt caller tier a m) =
     (if ar_status a = ''ok'' then (co_cost_usd_total m)
        ((caller, tier, ar_provider a) := co_cost_usd_total m (caller, tier, ar_provider a) + ar_cost_usd a)
      else co_cost_usd_total m)"
  by (simp_all add: count_attempt_def Let_def)

lemma count_attempts:
  "co_requests_total (fold (count_attempt caller tier) attempts m) = co_requests_total m"
  "co_attempts_total (fold (count_attempt caller tier) attempts m) k =
     co_attempts_total m k +
     int (length (filter (\<lambda>a. (ar_provider a, ar_model a, ar_status a) = k) attempts))"
  by (induction attempts arbitrary: m) auto

lemma count_failed_cost:
  "list_all failed_attempt fails \<Longrightarrow>
   co_cost_usd_total (fold (count_attempt caller tier) fails m) = co_cost_usd_total m"
  by (induction fails arbitrary: m) (auto simp: failed_attempt_def)

lemma resolve_caller_cases:
  assumes "resolve_caller gw authorization s = (r, s')"
  shows "as_queue s' = as_queue s" and "as_collectors s' = as_collectors s" and
    "\<And>caller. r = Inr caller \<Longrightarrow>
       resolve_bearer (gw_auth gw) authorization (as_cache s) (as_db s) = (Inr (Some caller), as_cache s', as_db s')"
    and "\<And>reply. r = Inl reply \<Longrightarrow> reply = unauthorized \<or> (\<exists>e. reply = Crash e)"
  using assms by (auto simp: resolve_caller_def Let_def split: prod.splits sum.splits option.splits)

lemma check_cap_cases:
  assumes "check_cap caller s = (r, s')"
  shows "s' = s" and "\<And>reply. r = Some reply \<Longrightarrow> reply = cap_exhausted \<or> (\<exists>e. reply = Crash e)"
    and "\<And>cap. r = None \<Longrightarrow> cl_daily_token_cap caller = Some cap \<Longrightarrow>
      \<exists>used. fst (caller_tokens_used_today (db_now (as_db s)) (cl_name caller) (as_db s)) = Inr used \<and> used < cap"
proof -
  have db: "d = as_db s" if "caller_tokens_used_today t n (as_db s) = (u, d)" for t n u d
    using arg_cong [OF that, of snd] by simp
  show "s' = s"
    using assms by (auto simp: check_cap_def dest!: db split: option.splits prod.splits sum.splits if_splits)
  show "\<And>reply. r = Some reply \<Longrightarrow> reply = cap_exhausted \<or> (\<exists>e. reply = Crash e)"
    and "\<And>cap. r = None \<Longrightarrow> cl_daily_token_cap caller = Some cap \<Longrightarrow>
      \<exists>used. fst (caller_tokens_used_today (db_now (as_db s)) (cl_name caller) (as_db s)) = Inr used \<and> used < cap"
    using assms by (auto simp: check_cap_def Let_def split: option.splits prod.splits sum.splits if_splits)
qed

text \<open>The four ways a completion ends.\<close>

lemma chat_cases:
  assumes "chat_completions gw authorization req s w = (reply, s', w')"
  obtains (rejected) "reply = unauthorized \<or> reply = cap_exhausted \<or> (\<exists>e. reply = Crash e)"
      "as_queue s' = as_queue s" "as_collectors s' = as_collectors s" "w' = w"
  | (escaped) caller s1 v v' e where "resolve_caller gw authorization s = (Inr caller :: chat_reply + caller, s1)"
      "check_cap caller s1 = (None :: chat_reply option, s1)" "route (gw_router gw) req caller v = (Escaped e, v')"
      "reply = Crash e" "s' = s1" "as_queue s' = as_queue s" "as_collectors s' = as_collectors s"
  | (refused) caller s1 v v' e t where "resolve_caller gw authorization s = (Inr caller :: chat_reply + caller, s1)"
      "check_cap caller s1 = (None :: chat_reply option, s1)" "route (gw_router gw) req caller v = (Refused e, v')"
      "reply = failed_with_body (http_status_for (re_kind e)) (re_body e)"
      "as_queue s' = as_queue s"
      "as_collectors s' = count_request (cl_name caller) (rq_model req)
         (router_error_kind_value (re_kind e)) t (as_collectors s)"
  | (answered) caller s1 v v' result t where "resolve_caller gw authorization s = (Inr caller :: chat_reply + caller, s1)"
      "check_cap caller s1 = (None :: chat_reply option, s1)" "route (gw_router gw) req caller v = (Routed result, v')"
      "reply = Ok (rr_response result)" "as_cache s' = as_cache s1" "as_db s' = as_db s1"
      "as_queue s' = fold (enqueue (gw_accounting gw)) (rr_attempts result) (as_queue s)"
      "as_collectors s' = fold (count_attempt (cl_name caller) (rq_model req)) (rr_attempts result)
         (count_request (cl_name caller) (rq_model req) ''ok'' t (as_collectors s))"
proof -
  obtain r s1 where r: "resolve_caller gw authorization s = (r :: chat_reply + caller, s1)"
    by force
  note resolved = resolve_caller_cases [OF r]
  show thesis
  proof (cases r)
    case (Inl reply1)
    then have "reply = reply1" "s' = s1" "w' = w" using assms r by (simp_all add: chat_completions_def)
    with resolved(1,2) resolved(4) [OF Inl] show thesis by (intro rejected) auto
  next
    case (Inr caller)
    note caller = r [unfolded Inr]
    obtain cap s2 where "check_cap caller s1 = (cap :: chat_reply option, s2)" by force
    moreover from check_cap_cases(1) [OF this] have "s2 = s1" .
    ultimately have cap: "check_cap caller s1 = (cap, s1)" by simp
    show thesis
    proof (cases cap)
      case (Some reply1)
      then have "reply = reply1" "s' = s1" "w' = w"
        using assms caller cap by (simp_all add: chat_completions_def)
      with resolved(1,2) check_cap_cases(2) [OF cap Some] show thesis by (intro rejected) auto
    next
      case None
      note pass = cap [unfolded None]
      obtain t0 v where t0: "rt_now (gw_router gw) w = (t0, v)" by force
      obtain out v' where route: "route (gw_router gw) req caller v = (out, v')" by force
      obtain t1 v'' where t1: "rt_now (gw_router gw) v' = (t1, v'')" by force
      note run = assms caller pass t0 route t1 resolved(1,2)
      show thesis
      proof (cases out)
        case (Routed result)
        with run show thesis
          by (intro answered [OF caller pass route [unfolded Routed]]) (auto simp: chat_completions_def)
      next
        case (Refused e)
        with run show thesis
          by (intro refused [OF caller pass route [unfolded Refused]]) (auto simp: chat_completions_def)
      next
        case (Escaped e)
        with run show thesis
          by (intro escaped [OF caller pass route [unfolded Escaped]]) (auto simp: chat_completions_def)
      qed
    qed
  qed
qed

lemma routed_known_tier:
  "route rt req caller w = (Routed res, w') \<Longrightarrow> \<exists>tc. map_of (cfg_tiers (rt_config rt)) (rq_model req) = Some tc"
  by (cases "map_of (cfg_tiers (rt_config rt)) (rq_model req)") (auto simp: route_def)

section \<open>What the endpoints promise\<close>



text \<open>The daily cap: once the rows of the caller's day in the table use the cap up, every request of
  the caller is refused with 429 before the router, the queue or a counter is touched; below
  the cap it is never refused with 429. What counts are rows that have been written, not
  requests in flight or in the accounting queue.\<close>

theorem daily_cap_blocks:
  assumes "resolve_caller gw authorization s = (Inr caller :: chat_reply + caller, s1)"
    and "cl_daily_token_cap caller = Some cap" and "db_connected (as_db s1)"
    and "used = sum_list (map (\<lambda>(r, ts). row_tokens r)
      (filter (\<lambda>(r, ts). ar_caller r = cl_name caller \<and> today_start (db_now (as_db s1)) \<le> ts)
        (db_requests (as_db s1))))"
  shows "(cap \<le> used \<longrightarrow> chat_completions gw authorization req s w = (cap_exhausted, s1, w)) \<and>
    (used < cap \<longrightarrow> fst (chat_completions gw authorization req s w) \<noteq> cap_exhausted)"
proof -
  have used: "caller_tokens_used_today (db_now (as_db s1)) (cl_name caller) (as_db s1) = (Inr used, as_db s1)"
    using assms(3) by (simp add: caller_tokens_used_today_def with_pool_def assms(4))
  have cap: "check_cap caller s1 = (if cap \<le> used then Some cap_exhausted else None :: chat_reply option, s1)"
    by (simp add: check_cap_def assms(2) used)
  have other: "failed_with_body (http_status_for k) body \<noteq> (cap_exhausted :: chat_reply)" for k body
    by (cases k) (simp_all add: failed_with_body_def cap_exhausted_def http_status_for_def)
  have "Ok r \<noteq> cap_exhausted" "Crash e \<noteq> cap_exhausted" for r e by (simp_all add: cap_exhausted_def)
  with other show ?thesis
    by (simp add: chat_completions_def assms(1) cap split_beta Let_def split: route_outcome.split)
qed

text \<open>The usage endpoint shows callers their own usage and nobody else's, whatever the query
  parameter asks for: the lines split the rows of the resolved caller, and two requests that
  differ in the parameter only get the same reply.\<close>

theorem usage_is_own:
  assumes "collating co" and "v1_usage gw co authorization query s = (Ok items, s')"
  shows "(\<exists>caller. resolve_bearer (gw_auth gw) authorization (as_cache s) (as_db s) =
      (Inr (Some caller), as_cache s', as_db s') \<and>
      (\<forall>i \<in> set items. ui_caller i = cl_name caller) \<and>
      sum_list (map ui_tokens items) =
        sum_list (map row_tokens (usage_rows (Some (cl_name caller)) None (as_db s')))) \<and>
    v1_usage gw co authorization query' s = (Ok items, s')"
proof -
  obtain r s1 where r: "resolve_caller gw authorization s = (r :: usage_item list http_reply + caller, s1)"
    by force
  have "r \<noteq> Inl reply" for reply
    using assms(2) r resolve_caller_cases(4) [OF r] by (auto simp: v1_usage_def unauthorized_def)
  then obtain caller where "r = Inr caller" by (cases r) auto
  note caller = r [unfolded this]
  with assms(2) have sum: "usage_summary co (Some (cl_name caller)) None (as_db s1) = (Inr items, as_db s')"
    and cache: "as_cache s' = as_cache s1"
    by (auto simp: v1_usage_def split: prod.splits sum.splits)
  have db: "as_db s' = as_db s1" using arg_cong [OF sum, of snd] by simp
  have "db_connected (as_db s1)"
    using sum by (auto simp: usage_summary_def with_pool_def split: if_splits)
  from usage_summary_partition [OF assms(1) this refl, of "Some (cl_name caller)" None] sum
  have "partition_report (Some (cl_name caller)) (usage_rows (Some (cl_name caller)) None (as_db s1)) items"
    by auto
  then have "\<forall>i \<in> set items. ui_caller i = cl_name caller"
    "sum_list (map ui_tokens items) =
       sum_list (map row_tokens (usage_rows (Some (cl_name caller)) None (as_db s')))"
    by (auto simp: partition_report_def db)
  moreover have "v1_usage gw co authorization query' s = (Ok items, s')"
    using assms(2) by (simp add: v1_usage_def)
  ultimately show ?thesis using resolve_caller_cases(3) [OF caller refl] cache db by auto
qed

section \<open>What the metrics promise\<close>

definition ascii_only :: "string \<Rightarrow> bool" where
  "ascii_only s \<longleftrightarrow> list_all (\<lambda>c. (of_char c :: nat) < 128) s"

text \<open>C33: The metrics are closed unless the token opens them: with the secrets of a start, the endpoint
  only shows its collectors when the environment has a token and the header carries it behind
  \<open>Bearer\<close>. Without a token configured, without a header or with another ASCII token the reply
  is 401. But a header with a character outside ASCII, when a token is configured, ends in an
  exception and not in a 401.
\<close>

theorem metrics_fail_closed:
  assumes "token = env_or env METRICS_TOKEN_KEY ''''" and "ascii_only token"
    and "reply = metrics_endpoint env (boot_secrets env cfg0) cfg cache authorization m"
  shows "(if token = '''' then reply = metrics_unauth
     else if \<not> ascii_only (metrics_provided authorization) then \<exists>text. reply = Crash (TypeError text)
     else if metrics_provided authorization \<noteq> token then reply = metrics_unauth
     else (\<exists>m'. reply = Ok m') \<or> (\<exists>e. reply = Crash e)) \<and>
    (\<forall>m'. reply = Ok m' \<longrightarrow> token \<noteq> '''' \<and> (\<exists>h. authorization = Some h \<and> starts_with ''Bearer '' h \<and>
       py_strip (drop (length ''Bearer '') h) = token))"
proof -
  have key: "METRICS_TOKEN_KEY \<in> set SEEDED_KEYS" by (simp add: SEEDED_KEYS_def)
  note secrets = boot_secrets_get [OF key] boot_secrets_has [OF key]
  have digest: "compare_digest token (metrics_provided authorization) =
      (if ascii_only (metrics_provided authorization) then Inr (token = metrics_provided authorization)
       else Inl (TypeError ''comparing strings with non-ASCII characters is not supported''))"
    using assms(2) by (simp add: compare_digest_def ascii_only_def)
  have run: "reply = (if token = '''' then metrics_unauth
      else if \<not> ascii_only (metrics_provided authorization)
      then Crash (TypeError ''comparing strings with non-ASCII characters is not supported'')
      else if metrics_provided authorization \<noteq> token then metrics_unauth
      else case refresh_observability_gauges cfg cache m of Inl e \<Rightarrow> Crash e | Inr m \<Rightarrow> Ok m)"
    using digest by (simp add: assms(3) metrics_endpoint_def secrets assms(1) [symmetric])
  have "\<exists>h. authorization = Some h \<and> starts_with ''Bearer '' h \<and> py_strip (drop (length ''Bearer '') h) = token"
    if "metrics_provided authorization = token" and "token \<noteq> ''''"
    using that by (auto simp: metrics_provided_def split: option.splits if_splits)
  with run show ?thesis by (auto simp: metrics_unauth_def split: sum.splits if_splits)
qed

text \<open>What the gauges of a candidate with signals show.\<close>

definition gauges_show :: "routing_config \<Rightarrow> signal_cache \<Rightarrow> tier_entry \<Rightarrow> collectors \<Rightarrow> bool" where
  "gauges_show routing cache t m \<longleftrightarrow> (\<forall>s. signals_for cache (mk_ref t) = Some s \<longrightarrow>
     (\<exists>w. weight routing cache (mk_ref t) = Inr w \<and> co_routing_weight m (te_provider t, te_model t) = Some w) \<and>
     co_breaker_state m (te_provider t, te_model t) = Some (BREAKER_GAUGE (cs_breaker s)) \<and>
     co_bucket_remaining m (te_provider t, te_model t, ''rpm'') = Some (cs_rpm_remaining s) \<and>
     co_bucket_remaining m (te_provider t, te_model t, ''tpm'') = Some (cs_tpm_remaining s))"

lemma candidate_gauges_show:
  assumes "candidate_gauges routing t sig m = Inr m'" and "signals_for cache (mk_ref t) = Some sig"
  shows "gauges_show routing cache t m'"
    and "gauges_show routing cache u m \<Longrightarrow> gauges_show routing cache u m'"
    and "signals_for cache \<lparr>ca_provider = p, ca_model = mo\<rparr> = None \<Longrightarrow>
      co_routing_weight m' (p, mo) = co_routing_weight m (p, mo)"
proof -
  from assms(1) obtain h where h: "health_score (cs_error_rate sig) (cs_mean_latency_s sig) (target_latency_s routing) = Inr h"
    by (auto simp: candidate_gauges_def)
  note w = weight_def [of routing cache "mk_ref t"]
  show shown: "gauges_show routing cache t m'"
    using assms h by (auto simp: gauges_show_def candidate_gauges_def w signals_for_def Let_def)
  show "gauges_show routing cache u m'" if u: "gauges_show routing cache u m"
  proof (cases "mk_ref u = mk_ref t")
    case True
    then have same: "te_provider u = te_provider t" "te_model u = te_model t" by (simp_all add: mk_ref_def)
    show ?thesis using shown unfolding gauges_show_def True same .
  next
    case False
    then have "(te_provider u, te_model u) \<noteq> (te_provider t, te_model t)" by (auto simp: mk_ref_def)
    with u assms(1) h show ?thesis by (auto simp: gauges_show_def candidate_gauges_def Let_def)
  qed
  show "co_routing_weight m' (p, mo) = co_routing_weight m (p, mo)"
    if "signals_for cache \<lparr>ca_provider = p, ca_model = mo\<rparr> = None"
  proof -
    have "(p, mo) \<noteq> (te_provider t, te_model t)" using that assms(2) by (auto simp: mk_ref_def)
    then show ?thesis using assms(1) h by (auto simp: candidate_gauges_def Let_def)
  qed
qed

lemma refresh_gauges_show:
  "refresh_gauges routing cache ts m = Inr m' \<Longrightarrow>
   (\<forall>t \<in> set ts. gauges_show routing cache t m') \<and>
   (\<forall>t. gauges_show routing cache t m \<longrightarrow> gauges_show routing cache t m') \<and>
   (\<forall>p mo. signals_for cache \<lparr>ca_provider = p, ca_model = mo\<rparr> = None \<longrightarrow>
      co_routing_weight m' (p, mo) = co_routing_weight m (p, mo))"
proof (induction routing cache ts m rule: refresh_gauges.induct)
  case (2 routing cache t ts m)
  show ?case
  proof (cases "signals_for cache (mk_ref t)")
    case None
    then have "gauges_show routing cache t m'" by (simp add: gauges_show_def)
    with 2 None show ?thesis by simp
  next
    case (Some sig)
    with 2(3) obtain m1 where m1: "candidate_gauges routing t sig m = Inr m1"
      and rest: "refresh_gauges routing cache ts m1 = Inr m'" by auto
    note step = candidate_gauges_show [OF m1 Some]
    note IH = 2(2) [OF Some rest]
    show ?thesis
      using IH step by simp
  qed
qed simp

text \<open>The gauges show what the engine uses: after a scrape every configured candidate with signals
  has as its routing weight the weight the engine picks by, its breaker as 0, 1 or 2, and the
  remaining budget of its signals; the other candidates' gauges are as before.\<close>

theorem gauges_show_engine:
  assumes "refresh_observability_gauges cfg cache m = Inr m'"
  shows "(\<forall>t \<in> set (tier_entries cfg). \<forall>s. signals_for cache (mk_ref t) = Some s \<longrightarrow>
      (\<exists>w. weight (cfg_routing cfg) cache (mk_ref t) = Inr w \<and>
         co_routing_weight m' (te_provider t, te_model t) = Some w) \<and>
      co_breaker_state m' (te_provider t, te_model t) = Some (BREAKER_GAUGE (cs_breaker s)) \<and>
      co_bucket_remaining m' (te_provider t, te_model t, ''rpm'') = Some (cs_rpm_remaining s) \<and>
      co_bucket_remaining m' (te_provider t, te_model t, ''tpm'') = Some (cs_tpm_remaining s)) \<and>
    (\<forall>p mo. signals_for cache \<lparr>ca_provider = p, ca_model = mo\<rparr> = None \<longrightarrow>
       co_routing_weight m' (p, mo) = co_routing_weight m (p, mo))"
  using refresh_gauges_show [OF assms [unfolded refresh_observability_gauges_def]]
  unfolding gauges_show_def by blast

section \<open>A gateway that serves\<close>

text \<open>The started gateway of the theory \<open>Boot\<close> with the routers of the theory \<open>Router\<close> behind it.\<close>

definition demo_front :: "mem_world router \<Rightarrow> mem_world gateway" where
  "demo_front rt = demo_gateway\<lparr>gw_router := rt\<rparr>"

lemma demo_front_sel [simp]:
  "gw_router (demo_front rt) = rt" "gw_auth (demo_front rt) = demo_resolver"
  "gw_accounting (demo_front rt) = db_accounting 10000 200"
  by (simp_all add: demo_front_def demo_gateway_def)

definition web_key :: string where
  "web_key = ''v2:hmac-sha256:saltweb-key''"

text \<open>One caller with or without a cap, who used fifteen tokens today.\<close>

definition web_db :: "int option \<Rightarrow> database" where
  "web_db cap = demo_db\<lparr>db_callers := [(''web'',
       \<lparr>cw_key_hash = web_key, cw_daily_token_cap = cap, cw_enabled = True\<rparr>)],
     db_requests := [((demo_row ''a'' 5)\<lparr>ar_caller := ''web''\<rparr>, 90000), (demo_row ''b'' 7, 90000)]\<rparr>"

definition web_app :: "int option \<Rightarrow> app_state" where
  "web_app cap = \<lparr>as_cache = [], as_db = web_db cap, as_queue = new_queue, as_collectors = no_collectors\<rparr>"

definition web_caller :: "int option \<Rightarrow> caller" where
  "web_caller cap = demo_caller\<lparr>cl_daily_token_cap := cap\<rparr>"

definition web_app' :: "int option \<Rightarrow> app_state" where
  "web_app' cap = (web_app cap)\<lparr>as_cache := [(web_key, 90000, Some (web_caller cap))]\<rparr>"

lemma web_resolves:
  assumes "cap \<in> {None, Some 10, Some 20}"
  shows "resolve_caller (demo_front rt) (Some ''Bearer web-key'') (web_app cap) = (Inr (web_caller cap), web_app' cap)"
proof -
  have "resolve_bearer demo_resolver (Some ''Bearer web-key'') [] (web_db None) =
      (Inr (Some (web_caller None)), [(web_key, 90000, Some (web_caller None))], web_db None)"
    "resolve_bearer demo_resolver (Some ''Bearer web-key'') [] (web_db (Some 10)) =
      (Inr (Some (web_caller (Some 10))), [(web_key, 90000, Some (web_caller (Some 10)))], web_db (Some 10))"
    "resolve_bearer demo_resolver (Some ''Bearer web-key'') [] (web_db (Some 20)) =
      (Inr (Some (web_caller (Some 20))), [(web_key, 90000, Some (web_caller (Some 20)))], web_db (Some 20))"
    by code_simp+
  with assms show ?thesis by (auto simp: resolve_caller_def web_app_def web_app'_def)
qed

lemma web_caller_None [simp]: "web_caller None = demo_caller"
  by (simp add: web_caller_def demo_caller_def)

lemma web_chat:
  assumes "rt_now rt = mem_clock"
  shows "route rt req demo_caller w = (Routed result, v) \<Longrightarrow>
      \<exists>s'. chat_completions (demo_front rt) (Some ''Bearer web-key'') req (web_app None) w =
        (Ok (rr_response result), s', v)"
    and "route rt req demo_caller w = (Refused e, v) \<Longrightarrow>
      \<exists>s'. chat_completions (demo_front rt) (Some ''Bearer web-key'') req (web_app None) w =
        (failed_with_body (http_status_for (re_kind e)) (re_body e), s', v)"
proof -
  have cap: "check_cap demo_caller s = (None :: chat_reply option, s)" for s
    by (simp add: check_cap_def demo_caller_def)
  show "route rt req demo_caller w = (Routed result, v) \<Longrightarrow>
      \<exists>s'. chat_completions (demo_front rt) (Some ''Bearer web-key'') req (web_app None) w =
        (Ok (rr_response result), s', v)"
    and "route rt req demo_caller w = (Refused e, v) \<Longrightarrow>
      \<exists>s'. chat_completions (demo_front rt) (Some ''Bearer web-key'') req (web_app None) w =
        (failed_with_body (http_status_for (re_kind e)) (re_body e), s', v)"
    by (simp_all add: chat_completions_def web_resolves cap assms mem_clock_def)
qed



text \<open>A cap of ten is used up, one of twenty is not.\<close>

theorem daily_cap_blocks_witness:
  "chat_completions (demo_front failover) (Some ''Bearer web-key'') demo_request (web_app (Some 10)) mem_empty =
     (cap_exhausted, web_app' (Some 10), mem_empty) \<and>
   fst (chat_completions (demo_front failover) (Some ''Bearer web-key'') demo_request (web_app (Some 20)) mem_empty) \<noteq>
     cap_exhausted"
proof -
  have used: "sum_list (map (\<lambda>(r, ts). row_tokens r)
      (filter (\<lambda>(r, ts). ar_caller r = cl_name (web_caller cap) \<and>
         today_start (db_now (as_db (web_app' cap))) \<le> ts) (db_requests (as_db (web_app' cap))))) = 15"
    and conn: "db_connected (as_db (web_app' cap))" and name: "cl_daily_token_cap (web_caller cap) = cap" for cap
    by (simp_all add: web_app'_def web_app_def web_db_def demo_db_def web_caller_def demo_caller_def
        demo_row_def today_start_def row_tokens_def)
  have "resolve_caller (demo_front failover) (Some ''Bearer web-key'') (web_app (Some 10)) =
      (Inr (web_caller (Some 10)) :: chat_reply + caller, web_app' (Some 10))"
    "resolve_caller (demo_front failover) (Some ''Bearer web-key'') (web_app (Some 20)) =
      (Inr (web_caller (Some 20)) :: chat_reply + caller, web_app' (Some 20))"
    by (simp_all add: web_resolves)
  from daily_cap_blocks [OF this(1) name conn used [symmetric], of demo_request mem_empty]
    daily_cap_blocks [OF this(2) name conn used [symmetric], of demo_request mem_empty]
  show ?thesis by simp
qed

theorem usage_is_own_witness:
  "\<exists>items s'. v1_usage (demo_front failover) c_collation (Some ''Bearer web-key'') (Some ''dev'') (web_app None) =
     (Ok items, s') \<and> sum_list (map ui_tokens items) = 15 \<and> (\<forall>i \<in> set items. ui_caller i = ''web'')"
proof -
  have conn: "db_connected (web_db None)" and rows: "usage_rows (Some ''web'') None (web_db None) =
      [(demo_row ''a'' 5)\<lparr>ar_caller := ''web''\<rparr>]"
    by code_simp+
  have run: "v1_usage (demo_front failover) c_collation (Some ''Bearer web-key'') (Some ''dev'') (web_app None) =
      (case usage_summary c_collation (Some ''web'') None (web_db None) of
         (Inl e, db) \<Rightarrow> (Crash e, (web_app' None)\<lparr>as_db := db\<rparr>)
       | (Inr items, db) \<Rightarrow> (Ok items, (web_app' None)\<lparr>as_db := db\<rparr>))"
    by (simp add: v1_usage_def web_resolves) (simp add: web_app'_def web_app_def demo_caller_def)
  from usage_summary_partition [OF c_order.collating_axioms conn rows [symmetric]]
  obtain items where "usage_summary c_collation (Some ''web'') None (web_db None) = (Inr items, web_db None)"
    by blast
  with run have usage: "v1_usage (demo_front failover) c_collation (Some ''Bearer web-key'') (Some ''dev'') (web_app None) =
      (Ok items, (web_app' None)\<lparr>as_db := web_db None\<rparr>)" by simp
  from usage_is_own [OF c_order.collating_axioms this] obtain c where
    c: "resolve_bearer demo_resolver (Some ''Bearer web-key'') [] (web_db None) =
        (Inr (Some c), as_cache (web_app' None), web_db None)"
    and own: "\<forall>i \<in> set items. ui_caller i = cl_name c"
      "sum_list (map ui_tokens items) = sum_list (map row_tokens (usage_rows (Some (cl_name c)) None (web_db None)))"
    by (auto simp: web_app_def web_app'_def)
  have "resolve_bearer demo_resolver (Some ''Bearer web-key'') [] (web_db None) =
      (Inr (Some demo_caller), [(web_key, 90000, Some demo_caller)], web_db None)" by code_simp
  with c have "cl_name c = ''web''" by (auto simp: demo_caller_def)
  with own usage show ?thesis by (auto simp: rows row_tokens_def demo_row_def)
qed

theorem metrics_fail_closed_witness:
  "metrics_endpoint demo_env (boot_secrets demo_env demo_loaded) demo_loaded demo_cache None no_collectors =
     (metrics_unauth :: collectors http_reply) \<and>
   (\<exists>text. metrics_endpoint demo_env (boot_secrets demo_env demo_loaded) demo_loaded demo_cache
      (Some (''Bearer '' @ [CHR 0xE9])) no_collectors = Crash (TypeError text))"
proof -
  have token: "''m-token'' = env_or demo_env METRICS_TOKEN_KEY ''''" and ascii: "ascii_only ''m-token''"
    and provided: "metrics_provided None = ''''" "metrics_provided (Some (''Bearer '' @ [CHR 0xE9])) = [CHR 0xE9]"
    and plain: "ascii_only ''''" "\<not> ascii_only [CHR 0xE9]"
    by code_simp+
  note closed = metrics_fail_closed [OF token ascii refl, of demo_loaded demo_loaded demo_cache _ no_collectors]
  show ?thesis
    using closed [of None] closed [of "Some (''Bearer '' @ [CHR 0xE9])"] unfolding provided
    by (simp add: plain)
qed

theorem gauges_show_engine_witness:
  "\<exists>m'. refresh_observability_gauges (rt_config failover) demo_cache no_collectors = Inr m' \<and>
     co_routing_weight m' (''anthropic'', ''sonnet'') = Some (1 / 2) \<and>
     co_breaker_state m' (''google'', ''gemini'') = Some 2"
proof -
  have total: "0 < target_latency_s routing \<Longrightarrow> \<exists>m'. refresh_gauges routing cache ts m = Inr m'" for routing cache ts m
    by (induction routing cache ts m rule: refresh_gauges.induct)
      (auto simp: candidate_gauges_def health_score_pos Let_def split: option.split)
  have "0 < target_latency_s (cfg_routing (rt_config failover))" by (simp add: demo_router_def)
  from total [OF this] obtain m' where
    m': "refresh_observability_gauges (rt_config failover) demo_cache no_collectors = Inr m'"
    unfolding refresh_observability_gauges_def by blast
  have "tier_entries (rt_config failover) = demo_tier" by (simp add: tier_entries_def demo_router_def)
  moreover have "weight (cfg_routing (rt_config failover)) demo_cache (mk_ref (demo_entry ''anthropic'' ''sonnet'' 1)) = Inr (1 / 2)"
    "signals_for demo_cache (mk_ref (demo_entry ''anthropic'' ''sonnet'' 1)) = Some (demo_signals 3 CLOSED)"
    "signals_for demo_cache (mk_ref (demo_entry ''google'' ''gemini'' 1)) = Some (demo_signals 0 OPEN)"
    by (simp add: demo_router_def, code_simp, code_simp+)
  ultimately show ?thesis
    using gauges_show_engine [OF m'] m'
    by (auto simp: demo_tier_def demo_entry_def demo_signals_def BREAKER_GAUGE_def)
qed

end
