(* ===== verification/Scripting.thy ===== *)
theory Scripting
  imports TokenBucket
begin

text \<open>
  How \<open>RedisState\<close> of \<open>gateway/redis_state.py\<close> gets its Lua scripts run: they are loaded once,
  called by their hash with \<open>EVALSHA\<close>, and sent again with \<open>EVAL\<close> when the server has
  forgotten them. The server's script cache is not part of the repository; its commands are a
  record of parameters with the laws of the locale \<open>script_server\<close>. The theorem says that
  the fallback can be left out of every other theory: a call does what the script says, once.
\<close>

section \<open>The scripts and the commands\<close>

text \<open>The two bodies, and what running one does to the data of the server.\<close>

datatype lua_script = RATELIMIT_LUA | CLAMP_LUA

fun run_lua :: "'d redis \<Rightarrow> lua_script \<Rightarrow> string \<Rightarrow> rat list \<Rightarrow> 'd \<Rightarrow> int list \<times> 'd" where
  "run_lua R RATELIMIT_LUA key [now_ms, rpm_cap, tpm_cap, refill_rpm_pm, refill_tpm_pm, req_tokens] d =
     (let ((ok, rpm, tpm), d) =
            ratelimit_lua R key now_ms rpm_cap tpm_cap refill_rpm_pm refill_tpm_pm req_tokens d
      in ([if ok then 1 else 0, rpm, tpm], d))"
| "run_lua R CLAMP_LUA key [rpm_observed, tpm_observed] d =
     (let ((rpm, tpm), d) = clamp_lua R key rpm_observed tpm_observed d in ([rpm, tpm], d))"
| "run_lua R b key args d = ([], d)"

text \<open>
  The commands on the server's world: \<open>SCRIPT LOAD\<close> gives the hash of a body, \<open>EVALSHA\<close>
  answers or says \<open>NOSCRIPT\<close> (\<open>None\<close>).
\<close>

record 'w script_commands =
  sc_script_load :: "lua_script \<Rightarrow> 'w \<Rightarrow> string \<times> 'w"
  sc_evalsha :: "string \<Rightarrow> string \<Rightarrow> rat list \<Rightarrow> 'w \<Rightarrow> int list option \<times> 'w"
  sc_eval :: "lua_script \<Rightarrow> string \<Rightarrow> rat list \<Rightarrow> 'w \<Rightarrow> int list \<times> 'w"

section \<open>\<open>RedisState\<close>\<close>

record loaded_scripts =
  ls_ratelimit :: string
  ls_clamp :: string

text \<open>\<open>self._scripts\<close> is the state of the object.\<close>

type_synonym redis_state = "loaded_scripts option"

definition load_scripts ::
    "'w script_commands \<Rightarrow> redis_state \<Rightarrow> 'w \<Rightarrow> loaded_scripts \<times> redis_state \<times> 'w" where
  "load_scripts S st w =
     (case st of
        None \<Rightarrow>
          (let (ratelimit, w) = sc_script_load S RATELIMIT_LUA w;
               (clamp, w) = sc_script_load S CLAMP_LUA w;
               scripts = \<lparr>ls_ratelimit = ratelimit, ls_clamp = clamp\<rparr>
           in (scripts, Some scripts, w))
      | Some scripts \<Rightarrow> (scripts, st, w))"

definition eval_script ::
    "'w script_commands \<Rightarrow> lua_script \<Rightarrow> string \<Rightarrow> string \<Rightarrow> rat list \<Rightarrow> 'w \<Rightarrow> int list \<times> 'w" where
  "eval_script S body sha key args w =
     (case sc_evalsha S sha key args w of
        (Some raw, w) \<Rightarrow> (raw, w)
      | (None, w) \<Rightarrow> sc_eval S body key args w)"

text \<open>The Python side reads the answer by index.\<close>

fun acquire_answer :: "int list \<Rightarrow> (bool \<times> int \<times> int) pyres" where
  "acquire_answer (ok # rpm # tpm # _) = Inr (ok \<noteq> 0, rpm, tpm)"
| "acquire_answer _ = Inl (IndexError ''raw'')"

fun clamp_answer :: "int list \<Rightarrow> (int \<times> int) pyres" where
  "clamp_answer (rpm # tpm # _) = Inr (rpm, tpm)"
| "clamp_answer _ = Inl (IndexError ''raw'')"

definition state_ratelimit_acquire ::
    "'w script_commands \<Rightarrow> redis_state \<Rightarrow> string \<Rightarrow> int \<Rightarrow> int \<Rightarrow> int \<Rightarrow> rat \<Rightarrow> rat \<Rightarrow> int \<Rightarrow> 'w \<Rightarrow>
     (bool \<times> int \<times> int) pyres \<times> redis_state \<times> 'w" where
  "state_ratelimit_acquire S st key now_ms rpm_cap tpm_cap refill_rpm refill_tpm request_tokens w =
     (let (scripts, st, w) = load_scripts S st w;
          (raw, w) = eval_script S RATELIMIT_LUA (ls_ratelimit scripts) key
            [of_int now_ms, of_int rpm_cap, of_int tpm_cap, refill_rpm, refill_tpm,
             of_int request_tokens] w
      in (acquire_answer raw, st, w))"

definition state_ratelimit_clamp ::
    "'w script_commands \<Rightarrow> redis_state \<Rightarrow> string \<Rightarrow> int \<Rightarrow> int \<Rightarrow> 'w \<Rightarrow>
     (int \<times> int) pyres \<times> redis_state \<times> 'w" where
  "state_ratelimit_clamp S st key rpm_observed tpm_observed w =
     (let (scripts, st, w) = load_scripts S st w;
          (raw, w) = eval_script S CLAMP_LUA (ls_clamp scripts) key
            [of_int rpm_observed, of_int tpm_observed] w
      in (clamp_answer raw, st, w))"

section \<open>The laws of the server\<close>

text \<open>
  \<open>d\<close> is the data of a world, apart from its script cache, and \<open>sha\<close> the hash of a body.
  Loading leaves the data alone; a call by hash either runs the body with that hash or does
  nothing; \<open>EVAL\<close> always runs the body.
\<close>

locale script_server =
  fixes S :: "'w script_commands" and R :: "'d redis"
    and sha :: "lua_script \<Rightarrow> string" and d :: "'w \<Rightarrow> 'd"
  assumes load_sha: "fst (sc_script_load S b w) = sha b"
    and load_data: "d (snd (sc_script_load S b w)) = d w"
    and evalsha_runs: "sc_evalsha S (sha b) key args w = (Some raw, w') \<Longrightarrow>
      run_lua R b key args (d w) = (raw, d w')"
    and evalsha_noscript: "sc_evalsha S (sha b) key args w = (None, w') \<Longrightarrow> d w' = d w"
    and eval_runs: "sc_eval S b key args w = (raw, w') \<Longrightarrow> run_lua R b key args (d w) = (raw, d w')"
begin

text \<open>The object holds no hashes or the right ones.\<close>

definition holds_hashes :: "redis_state \<Rightarrow> bool" where
  "holds_hashes st \<longleftrightarrow>
     (case st of
        None \<Rightarrow> True
      | Some ls \<Rightarrow> ls_ratelimit ls = sha RATELIMIT_LUA \<and> ls_clamp ls = sha CLAMP_LUA)"

lemma load_scripts_loads:
  assumes "holds_hashes st" and "load_scripts S st w = (scripts, st', w')"
  shows "ls_ratelimit scripts = sha RATELIMIT_LUA" and "ls_clamp scripts = sha CLAMP_LUA"
    and "holds_hashes st'" and "d w' = d w"
  using assms load_sha load_data
  by (auto simp: load_scripts_def holds_hashes_def split_beta Let_def split: option.splits)

lemma eval_script_runs:
  assumes "eval_script S b (sha b) key args w = (raw, w')"
  shows "run_lua R b key args (d w) = (raw, d w')"
proof -
  obtain r w1 where call: "sc_evalsha S (sha b) key args w = (r, w1)" by force
  show ?thesis
  proof (cases r)
    case None
    with assms call have "sc_eval S b key args w1 = (raw, w')" by (simp add: eval_script_def)
    from eval_runs [OF this] evalsha_noscript [of b key args w w1] call None show ?thesis by simp
  next
    case (Some x)
    with assms call evalsha_runs [of b key args w x w1] show ?thesis by (simp add: eval_script_def)
  qed
qed

lemma acquire_runs:
  assumes "holds_hashes st"
    and "state_ratelimit_acquire S st key now rpm tpm r_rpm r_tpm req w = (res, st', w')"
  shows "holds_hashes st' \<and> ratelimit_lua R key (of_int now) (of_int rpm) (of_int tpm) r_rpm r_tpm
      (of_int req) (d w) = (projr res, d w') \<and> (\<exists>x. res = Inr x)"
proof -
  obtain scripts st1 w1 where load: "load_scripts S st w = (scripts, st1, w1)"
    by (cases "load_scripts S st w")
  note loaded = load_scripts_loads [OF assms(1) load]
  obtain raw w2 where raw: "eval_script S RATELIMIT_LUA (sha RATELIMIT_LUA) key
      [of_int now, of_int rpm, of_int tpm, r_rpm, r_tpm, of_int req] w1 = (raw, w2)"
    by (cases "eval_script S RATELIMIT_LUA (sha RATELIMIT_LUA) key
      [of_int now, of_int rpm, of_int tpm, r_rpm, r_tpm, of_int req] w1")
  have res: "res = acquire_answer raw" "st' = st1" "w' = w2"
    using assms(2) raw by (simp_all add: state_ratelimit_acquire_def load loaded(1))
  obtain ok a b d' where script: "ratelimit_lua R key (of_int now) (of_int rpm) (of_int tpm) r_rpm r_tpm
      (of_int req) (d w) = ((ok, a, b), d')"
    by (metis surj_pair)
  from eval_script_runs [OF raw] have "raw = [if ok then 1 else 0, a, b]" "d w2 = d'"
    by (simp_all add: loaded(4) script)
  with loaded(3) show ?thesis by (simp add: res script)
qed

lemma clamp_runs:
  assumes "holds_hashes st" and "state_ratelimit_clamp S st key rpm tpm w = (res, st', w')"
  shows "holds_hashes st' \<and>
    clamp_lua R key (of_int rpm) (of_int tpm) (d w) = (projr res, d w') \<and> (\<exists>x. res = Inr x)"
proof -
  obtain scripts st1 w1 where load: "load_scripts S st w = (scripts, st1, w1)"
    by (cases "load_scripts S st w")
  note loaded = load_scripts_loads [OF assms(1) load]
  obtain raw w2 where raw: "eval_script S CLAMP_LUA (sha CLAMP_LUA) key [of_int rpm, of_int tpm] w1 = (raw, w2)"
    by (cases "eval_script S CLAMP_LUA (sha CLAMP_LUA) key [of_int rpm, of_int tpm] w1")
  have res: "res = clamp_answer raw" "st' = st1" "w' = w2"
    using assms(2) raw by (simp_all add: state_ratelimit_clamp_def load loaded(2))
  obtain a b d' where script: "clamp_lua R key (of_int rpm) (of_int tpm) (d w) = ((a, b), d')"
    by (metis surj_pair)
  from eval_script_runs [OF raw] have "raw = [a, b]" "d w2 = d'"
    by (simp_all add: loaded(4) script)
  with loaded(3) show ?thesis by (simp add: res script)
qed

end

section \<open>Runs\<close>

text \<open>
  What happens to a store: a call of either script by the object at hand, a new object (another
  replica, or a restart), or the server forgetting or learning scripts on its own.
\<close>

datatype 'w store_event =
    Acquire string int int int rat rat int
  | Clamp string int int
  | New_object
  | Server "'w \<Rightarrow> 'w"

datatype store_answer = Acquired "(bool \<times> int \<times> int) pyres" | Clamped "(int \<times> int) pyres"

fun store_run ::
    "'w script_commands \<Rightarrow> 'w store_event list \<Rightarrow> redis_state \<Rightarrow> 'w \<Rightarrow> store_answer list \<times> 'w" where
  "store_run S [] st w = ([], w)"
| "store_run S (Acquire key now rpm tpm r_rpm r_tpm req # evs) st w =
     (let (res, st, w) = state_ratelimit_acquire S st key now rpm tpm r_rpm r_tpm req w;
          (answers, w) = store_run S evs st w in (Acquired res # answers, w))"
| "store_run S (Clamp key rpm tpm # evs) st w =
     (let (res, st, w) = state_ratelimit_clamp S st key rpm tpm w;
          (answers, w) = store_run S evs st w in (Clamped res # answers, w))"
| "store_run S (New_object # evs) st w = store_run S evs None w"
| "store_run S (Server f # evs) st w = store_run S evs st (f w)"

text \<open>The same calls on the data alone.\<close>

fun lua_run :: "'d redis \<Rightarrow> 'w store_event list \<Rightarrow> 'd \<Rightarrow> store_answer list \<times> 'd" where
  "lua_run R [] d = ([], d)"
| "lua_run R (Acquire key now rpm tpm r_rpm r_tpm req # evs) d =
     (let (res, d) = ratelimit_lua R key (of_int now) (of_int rpm) (of_int tpm) r_rpm r_tpm (of_int req) d;
          (answers, d) = lua_run R evs d in (Acquired (Inr res) # answers, d))"
| "lua_run R (Clamp key rpm tpm # evs) d =
     (let (res, d) = clamp_lua R key (of_int rpm) (of_int tpm) d;
          (answers, d) = lua_run R evs d in (Clamped (Inr res) # answers, d))"
| "lua_run R (_ # evs) d = lua_run R evs d"

context script_server
begin

lemma store_run_lua:
  assumes "holds_hashes st" and "\<forall>f w. Server f \<in> set evs \<longrightarrow> d (f w) = d w"
    and "store_run S evs st w = (answers, w')"
  shows "lua_run R evs (d w) = (answers, d w')"
  using assms
proof (induction evs arbitrary: st w answers)
  case Nil
  then show ?case by simp
next
  case (Cons ev evs)
  have quiet: "\<forall>f w. Server f \<in> set evs \<longrightarrow> d (f w) = d w"
    using Cons.prems(2) by simp
  show ?case
  proof (cases ev)
    case (Acquire key now rpm tpm r_rpm r_tpm req)
    obtain res st1 w1 where call:
      "state_ratelimit_acquire S st key now rpm tpm r_rpm r_tpm req w = (res, st1, w1)"
      by (metis surj_pair)
    obtain answers1 where rest: "store_run S evs st1 w1 = (answers1, w')"
      and "answers = Acquired res # answers1"
      using Cons.prems(3) by (auto simp: Acquire call split: prod.splits)
    with acquire_runs [OF Cons.prems(1) call] Cons.IH [OF _ quiet rest] show ?thesis
      by (auto simp: Acquire)
  next
    case (Clamp key rpm tpm)
    obtain res st1 w1 where call: "state_ratelimit_clamp S st key rpm tpm w = (res, st1, w1)"
      by (metis surj_pair)
    obtain answers1 where rest: "store_run S evs st1 w1 = (answers1, w')"
      and "answers = Clamped res # answers1"
      using Cons.prems(3) by (auto simp: Clamp call split: prod.splits)
    with clamp_runs [OF Cons.prems(1) call] Cons.IH [OF _ quiet rest] show ?thesis
      by (auto simp: Clamp)
  next
    case New_object
    with Cons.prems(3) Cons.IH [of None w, OF _ quiet] show ?thesis by (simp add: holds_hashes_def)
  next
    case (Server f)
    then have "d (f w) = d w" using Cons.prems(2) by simp
    with Cons.prems(1,3) Cons.IH [of st "f w", OF _ quiet] show ?thesis by (simp add: Server)
  qed
qed

end

text \<open>C20: Whatever the server forgets, whichever process calls and whether the scripts have been
  loaded yet, the limiter's calls answer and change the data as the bodies of the two scripts
  do, run once per call and in order: no call is lost to \<open>NOSCRIPT\<close> and none runs twice.\<close>

theorem scripts_run_once:
  assumes "script_server S R sha d" and "\<forall>f w. Server f \<in> set evs \<longrightarrow> d (f w) = d w"
    and "store_run S evs None w = (answers, w')"
  shows "lua_run R evs (d w) = (answers, d w')"
  using script_server.store_run_lua [OF assms(1) _ assms(2,3)]
  by (simp add: script_server.holds_hashes_def [OF assms(1)])

section \<open>A server with a script cache\<close>

text \<open>The bodies the server remembers, beside the in-memory store of the theory \<open>Redis\<close>.\<close>

definition mem_sha :: "lua_script \<Rightarrow> string" where
  "mem_sha b = (case b of RATELIMIT_LUA \<Rightarrow> ''5fd1'' | CLAMP_LUA \<Rightarrow> ''c0a7'')"

definition mem_scripts :: "(lua_script list \<times> mem_world) script_commands" where
  "mem_scripts =
     \<lparr>sc_script_load = (\<lambda>b (cache, w). (mem_sha b, (b # cache, w))),
      sc_evalsha = (\<lambda>sha key args (cache, w).
        case find (\<lambda>b. mem_sha b = sha) cache of
          None \<Rightarrow> (None, (cache, w))
        | Some b \<Rightarrow> (let (raw, w) = run_lua mem_redis b key args w in (Some raw, (cache, w)))),
      sc_eval = (\<lambda>b key args (cache, w).
        let (raw, w) = run_lua mem_redis b key args w in (raw, (b # cache, w)))\<rparr>"

lemma mem_sha_inject [simp]: "mem_sha b = mem_sha b' \<longleftrightarrow> b = b'"
  by (simp add: mem_sha_def split: lua_script.splits)

interpretation mem_server: script_server mem_scripts mem_redis mem_sha snd
proof
  show "run_lua mem_redis b key args (snd w) = (raw, snd w')"
    if "sc_evalsha mem_scripts (mem_sha b) key args w = (Some raw, w')" for b key args w raw w'
  proof -
    obtain cache m where w: "w = (cache, m)" by force
    obtain r m' where "run_lua mem_redis b key args m = (r, m')" by force
    moreover from that have "find (\<lambda>b'. mem_sha b' = mem_sha b) cache \<noteq> None"
      by (auto simp: mem_scripts_def w split: option.splits)
    then have "find (\<lambda>b'. mem_sha b' = mem_sha b) cache = Some b"
      by (auto simp: find_Some_iff)
    ultimately show ?thesis using that by (auto simp: mem_scripts_def w)
  qed
qed (auto simp: mem_scripts_def split_beta Let_def split: option.splits)

text \<open>
  A bucket of two requests: the first call finds its script, then the server forgets everything
  and the second is sent again; a new object clamps; the last call is refused.
\<close>

definition demo_store_events :: "(lua_script list \<times> mem_world) store_event list" where
  "demo_store_events =
     [Acquire ''gw:bkt:a:m'' 0 2 100 (1 / 30000) (1 / 600) 10,
      Server (\<lambda>(_, w). ([], w)),
      Acquire ''gw:bkt:a:m'' 0 2 100 (1 / 30000) (1 / 600) 10,
      New_object,
      Clamp ''gw:bkt:a:m'' 0 50,
      Acquire ''gw:bkt:a:m'' 0 2 100 (1 / 30000) (1 / 600) 10]"

lemma demo_store_run:
  "fst (store_run mem_scripts demo_store_events None ([], mem_empty)) =
     [Acquired (Inr (True, 1, 90)), Acquired (Inr (True, 0, 80)), Clamped (Inr (0, 50)),
      Acquired (Inr (False, 0, 50))]"
  by code_simp

theorem scripts_run_once_witness:
  "fst (lua_run mem_redis demo_store_events mem_empty) =
     [Acquired (Inr (True, 1, 90)), Acquired (Inr (True, 0, 80)), Clamped (Inr (0, 50)),
      Acquired (Inr (False, 0, 50))]"
proof -
  obtain w' where run: "store_run mem_scripts demo_store_events None ([], mem_empty) =
      (fst (store_run mem_scripts demo_store_events None ([], mem_empty)), w')"
    by (metis prod.collapse)
  have "\<forall>f w. Server f \<in> set demo_store_events \<longrightarrow> snd (f w) = snd w"
    by (simp add: demo_store_events_def split_beta)
  from scripts_run_once [OF mem_server.script_server_axioms this run]
  show ?thesis by (simp add: demo_store_run)
qed

end
