(* ===== verification/Lifecycle.thy ===== *)
theory Lifecycle
  imports App
begin

text \<open>
  The end of \<open>lifespan\<close> in \<open>gateway/app.py\<close>, and the two background tasks it waits for: the
  refresh task of \<open>gateway/routing/refresh.py\<close> as a machine of its own, whose rounds are
  \<open>loop_round\<close> of the theory \<open>Refresh\<close>, and the drain task of the theory \<open>Accounting\<close>, run to
  its end. When the tasks are stopped no request is being handled any more.
\<close>

section \<open>The refresh task\<close>

text \<open>
  \<open>Ticking n\<close> is the \<open>await\<close> of a tick after \<open>n\<close> failures in a row, \<open>Sleeping n\<close> the wait
  between two rounds. A task that has ended stays there until it is awaited.
\<close>

datatype refresh_phase =
    No_task
  | Created
  | Ticking nat
  | Sleeping nat
  | Task_ended
  | Task_died py_exn

record refresh_task =
  tk_phase :: refresh_phase
  tk_stop :: bool

definition new_refresh_task :: refresh_task where
  "new_refresh_task = \<lparr>tk_phase = No_task, tk_stop = False\<rparr>"

definition refresh_start :: "refresh_task \<Rightarrow> refresh_task" where
  "refresh_start t = (if tk_phase t = No_task then t\<lparr>tk_phase := Created\<rparr> else t)"

definition loop_top :: "refresh_task \<Rightarrow> nat \<Rightarrow> refresh_task" where
  "loop_top t consecutive_failures =
     t\<lparr>tk_phase := if tk_stop t then Task_ended else Ticking consecutive_failures\<rparr>"

text \<open>The task from one \<open>await\<close> to the next; its wait ends by the timeout or by the event.\<close>

definition task_step ::
    "rat \<Rightarrow> ('w \<Rightarrow> unit pyres \<times> 'w) \<Rightarrow> ('w \<Rightarrow> rat \<times> 'w) \<Rightarrow> refresh_task \<times> 'w \<Rightarrow> refresh_task \<times> 'w" where
  "task_step base do_tick rnd = (\<lambda>(t, w).
     case tk_phase t of
       Created \<Rightarrow> (loop_top t 0, w)
     | Ticking n \<Rightarrow>
         (case loop_round base do_tick rnd n w of
            (Inl e, w) \<Rightarrow> (t\<lparr>tk_phase := Task_died e\<rparr>, w)
          | (Inr (_, n), w) \<Rightarrow> (t\<lparr>tk_phase := Sleeping n\<rparr>, w))
     | Sleeping n \<Rightarrow> (loop_top t n, w)
     | _ \<Rightarrow> (t, w))"

text \<open>
  \<open>stop\<close>: the event is set, the task is awaited, which raises what the task died of, and
  forgotten. Two steps are enough: a tick in progress ends, and its wait does.
\<close>

definition refresh_stop ::
    "rat \<Rightarrow> ('w \<Rightarrow> unit pyres \<times> 'w) \<Rightarrow> ('w \<Rightarrow> rat \<times> 'w) \<Rightarrow> refresh_task \<Rightarrow> 'w \<Rightarrow>
     unit pyres \<times> refresh_task \<times> 'w" where
  "refresh_stop base do_tick rnd t w =
     (let (t, w) = (task_step base do_tick rnd ^^ 2) (t\<lparr>tk_stop := True\<rparr>, w)
      in case tk_phase t of
           Task_died e \<Rightarrow> (Inl e, t, w)
         | _ \<Rightarrow> (Inr (), t\<lparr>tk_phase := No_task\<rparr>, w))"

section \<open>The drain task\<close>

text \<open>What the coroutines of the queue do next; \<open>stop\<close> lets them run to their end.\<close>

fun next_event :: "drain_phase \<Rightarrow> queue_event option" where
  "next_event Starting = Some Run"
| "next_event Waiting = Some Wake"
| "next_event (Writing _) = Some Write_returns"
| "next_event (Last_writing _) = Some Write_returns"
| "next_event Drained = Some Join"
| "next_event (Final_writing _) = Some Write_returns"
| "next_event _ = None"

fun run_out :: "nat \<Rightarrow> 'w accounting \<Rightarrow> queue_state \<times> 'w \<Rightarrow> queue_state \<times> 'w" where
  "run_out 0 aq s = s"
| "run_out (Suc fuel) aq (q, w) =
     (case next_event (qs_phase q) of
        None \<Rightarrow> (q, w)
      | Some ev \<Rightarrow>
          (case aq_step aq ev (q, w) of None \<Rightarrow> (q, w) | Some s \<Rightarrow> run_out fuel aq s))"

definition accounting_stop :: "'w accounting \<Rightarrow> queue_state \<Rightarrow> 'w \<Rightarrow> queue_state \<times> 'w" where
  "accounting_stop aq q w = run_out 6 aq (stop_begin q, w)"

section \<open>The end of \<open>lifespan\<close>\<close>

text \<open>
  \<open>aclose\<close> is the closing of the Redis client, whose exceptions are swallowed. What raises
  before it leaves the rest of the block undone.
\<close>

definition lifespan_stop ::
    "'w gateway \<Rightarrow> ('w \<Rightarrow> unit pyres \<times> 'w) \<Rightarrow> ('w \<Rightarrow> rat \<times> 'w) \<Rightarrow> ('w \<Rightarrow> 'w) \<Rightarrow> refresh_task \<Rightarrow>
     app_state \<Rightarrow> 'w \<Rightarrow> unit pyres \<times> refresh_task \<times> app_state \<times> 'w" where
  "lifespan_stop gw do_tick rnd aclose t s w =
     (case refresh_stop (base_interval_s (gw_config gw)) do_tick rnd t w of
        (Inl e, t, w) \<Rightarrow> (Inl e, t, s, w)
      | (Inr _, t, w) \<Rightarrow>
          (let (q, db) = accounting_stop (gw_accounting gw) (as_queue s) (as_db s);
               db = db_close db;
               w = aclose w
           in (Inr (), t, s\<lparr>as_queue := q, as_db := db\<rparr>, w)))"

section \<open>Lemmas of the refresh task\<close>

lemma loop_round_failures:
  assumes "loop_round base do_tick rnd n w = (Inr (wait, n'), w')"
  shows "n' = 0 \<or> n' = n + 1 \<and> n < 1024"
proof -
  have "n < 1024" if "nominal_backoff base (n + 1) = Inr b" for b
  proof -
    from that have "(2 :: int) ^ n < 2 ^ 1024"
      by (auto simp: nominal_backoff_def float_of_int_def split: if_splits)
    then show ?thesis by (rule power_less_imp_less_exp [rotated]) simp
  qed
  with assms show ?thesis
    by (auto simp: loop_round_def split_beta Let_def split: sum.splits prod.splits)
qed

lemma loop_round_raises:
  assumes "loop_round base do_tick rnd n w = (Inl e, w')"
  shows "e = OverflowError \<and> 1024 \<le> n"
proof -
  have "e = OverflowError \<and> 1024 \<le> n" if "nominal_backoff base (n + 1) = Inl e"
  proof -
    from that have "e = OverflowError" and big: "\<not> (2 :: int) ^ n < 2 ^ 1024"
      by (auto simp: nominal_backoff_def float_of_int_def rbind_eq_Inl split: if_splits)
    moreover have "1024 \<le> n"
    proof (rule ccontr)
      assume "\<not> 1024 \<le> n"
      then have "(2 :: int) ^ n < 2 ^ 1024" by (intro power_strict_increasing) simp_all
      with big show False ..
    qed
    ultimately show ?thesis by simp
  qed
  with assms show ?thesis
    by (auto simp: loop_round_def split_beta Let_def split: sum.splits prod.splits)
qed

text \<open>What every state of the task satisfies.\<close>

definition task_inv :: "refresh_task \<Rightarrow> bool" where
  "task_inv t \<longleftrightarrow>
     (case tk_phase t of
        Ticking n \<Rightarrow> n \<le> 1024 | Sleeping n \<Rightarrow> n \<le> 1024 | Task_died e \<Rightarrow> e = OverflowError | _ \<Rightarrow> True)"

lemma task_inv_step: "task_inv t \<Longrightarrow> task_inv (fst (task_step base do_tick rnd (t, w)))"
  by (auto simp: task_inv_def task_step_def loop_top_def
      split: refresh_phase.splits prod.splits sum.splits
      dest: loop_round_failures loop_round_raises)

lemma refresh_stop_ends:
  assumes "\<And>e. tk_phase t \<noteq> Task_died e" and "\<And>n. tk_phase t = Ticking n \<Longrightarrow> n < 1024"
  shows "fst (refresh_stop base do_tick rnd t w) = Inr () \<and>
    tk_phase (fst (snd (refresh_stop base do_tick rnd t w))) = No_task"
proof (cases "tk_phase t")
  case (Ticking n)
  have "n < 1024" using assms(2) Ticking .
  then have "\<And>e w'. loop_round base do_tick rnd n w \<noteq> (Inl e, w')"
    by (auto dest: loop_round_raises)
  then obtain wait n' w' where "loop_round base do_tick rnd n w = (Inr (wait, n'), w')"
    by (metis sumE surj_pair)
  with Ticking show ?thesis
    by (simp add: refresh_stop_def task_step_def loop_top_def numeral_2_eq_2)
qed (use assms(1) in \<open>auto simp: refresh_stop_def task_step_def loop_top_def numeral_2_eq_2\<close>)

lemma refresh_stop_dead:
  assumes "tk_phase t = Task_died e"
  shows "refresh_stop base do_tick rnd t w = (Inl e, t\<lparr>tk_stop := True\<rparr>, w)"
  using assms by (simp add: refresh_stop_def task_step_def numeral_2_eq_2)

text \<open>While every tick fails, the task goes from round to round until the 1025th kills it.\<close>

definition failing :: "('w \<Rightarrow> unit pyres \<times> 'w) \<Rightarrow> bool" where
  "failing do_tick \<longleftrightarrow> (\<forall>w. \<exists>e. fst (do_tick w) = Inl e)"

lemma failing_round_step:
  assumes "failing do_tick"
  shows "n < 1024 \<Longrightarrow> \<exists>wait w'. loop_round base do_tick rnd n w = (Inr (wait, n + 1), w')"
    and "\<exists>w'. loop_round base do_tick rnd 1024 w = (Inl OverflowError, w')"
proof -
  obtain e w1 where tick: "do_tick w = (Inl e, w1)"
    using assms unfolding failing_def by (metis prod.collapse)
  show "\<exists>wait w'. loop_round base do_tick rnd n w = (Inr (wait, n + 1), w')" if "n < 1024"
  proof -
    have "(2 :: int) ^ n < 2 ^ 1024" using that by (intro power_strict_increasing) simp_all
    then show ?thesis
      by (simp add: loop_round_def tick nominal_backoff_def float_of_int_def split_beta Let_def)
  qed
  show "\<exists>w'. loop_round base do_tick rnd 1024 w = (Inl OverflowError, w')"
    by (simp add: loop_round_def tick nominal_backoff_def float_of_int_def)
qed

lemma failing_task:
  assumes "failing do_tick" and "tk_phase t = Ticking 0" and "\<not> tk_stop t" and "n \<le> 1024"
  shows "\<exists>w'. (task_step base do_tick rnd ^^ (2 * n)) (t, w) = (t\<lparr>tk_phase := Ticking n\<rparr>, w')"
  using assms(4)
proof (induction n)
  case 0
  then show ?case using assms(2) by (cases t) simp
next
  case (Suc n)
  then obtain w1 where "(task_step base do_tick rnd ^^ (2 * n)) (t, w) = (t\<lparr>tk_phase := Ticking n\<rparr>, w1)"
    by auto
  moreover obtain wait w2 where "loop_round base do_tick rnd n w1 = (Inr (wait, n + 1), w2)"
    using failing_round_step(1) [OF assms(1)] Suc.prems by fastforce
  ultimately show ?case
    using assms(3) by (simp add: task_step_def loop_top_def)
qed

lemma dead_stays: "tk_phase t = Task_died e \<Longrightarrow> (task_step base do_tick rnd ^^ k) (t, w) = (t, w)"
  by (induction k) (simp_all add: task_step_def)

lemma failing_task_dies:
  assumes "failing do_tick" and "tk_phase t = No_task" and "\<not> tk_stop t" and "2050 \<le> k"
  shows "tk_phase (fst ((task_step base do_tick rnd ^^ k) (refresh_start t, w))) = Task_died OverflowError"
proof -
  let ?t = "t\<lparr>tk_phase := Ticking 0\<rparr>" and ?s = "task_step base do_tick rnd"
  have first: "?s (refresh_start t, w) = (?t, w)"
    using assms(2,3) by (simp add: refresh_start_def task_step_def loop_top_def)
  obtain w1 where "(?s ^^ 2048) (?t, w) = (?t\<lparr>tk_phase := Ticking 1024\<rparr>, w1)"
    using failing_task [OF assms(1), of ?t 1024 base rnd w] assms(3) by auto
  moreover obtain w2 where "loop_round base do_tick rnd 1024 w1 = (Inl OverflowError, w2)"
    using failing_round_step(2) [OF assms(1)] by blast
  then have "?s (?t\<lparr>tk_phase := Ticking 1024\<rparr>, w1) = (t\<lparr>tk_phase := Task_died OverflowError\<rparr>, w2)"
    by (simp add: task_step_def)
  ultimately have died: "(?s ^^ Suc 2048) (?t, w) = (t\<lparr>tk_phase := Task_died OverflowError\<rparr>, w2)"
    by (simp only: funpow.simps(2) comp_apply)
  have k: "k = k - 2050 + Suc 2048 + 1" using assms(4) by simp
  have "(?s ^^ k) (refresh_start t, w) = (?s ^^ (k - 2050)) ((?s ^^ Suc 2048) (?s (refresh_start t, w)))"
    by (subst k) (simp only: funpow_add comp_apply One_nat_def funpow.simps id_apply)
  then show ?thesis by (simp only: first died) (simp add: dead_stays)
qed

section \<open>Lemmas of the drain task\<close>

lemma next_event_enabled:
  assumes "next_event (qs_phase q) = Some ev"
  shows "ev \<in> coroutine_events \<and> (\<exists>s. aq_step aq ev (q, w) = Some s)"
  using assms by (cases "qs_phase q") (auto simp: split_beta Let_def)

lemma run_out_run: "\<exists>evs. set evs \<subseteq> coroutine_events \<and> aq_run aq evs s = Some (run_out fuel aq s)"
proof (induction fuel aq s rule: run_out.induct)
  case (1 aq s)
  show ?case by (intro exI [of _ "[]"]) simp
next
  case (2 fuel aq q w)
  show ?case
  proof (cases "next_event (qs_phase q)")
    case None
    then show ?thesis by (intro exI [of _ "[]"]) simp
  next
    case (Some ev)
    from next_event_enabled [OF Some, of aq w] obtain s
      where s: "aq_step aq ev (q, w) = Some s" and ev: "ev \<in> coroutine_events"
      by (elim conjE exE)
    obtain evs where "set evs \<subseteq> coroutine_events" "aq_run aq evs s = Some (run_out fuel aq s)"
      using "2.IH" [OF Some s] by blast
    with Some s ev show ?thesis by (intro exI [of _ "ev # evs"]) simp
  qed
qed

lemma run_out_stops:
  assumes "stopping q" and "steps_left (qs_phase q) \<le> fuel"
  shows "stopping (fst (run_out fuel aq (q, w))) \<and> qs_phase (fst (run_out fuel aq (q, w))) = Stopped"
  using assms
proof (induction fuel arbitrary: q w)
  case 0
  then show ?case by (cases "qs_phase q") (auto simp: stopping_def)
next
  case (Suc fuel)
  show ?case
  proof (cases "next_event (qs_phase q)")
    case None
    with Suc.prems(1) show ?thesis by (cases "qs_phase q") (auto simp: stopping_def)
  next
    case (Some ev)
    from next_event_enabled [OF Some, of aq w] obtain s
      where s: "aq_step aq ev (q, w) = Some s" and ev: "ev \<in> coroutine_events"
      by (elim conjE exE)
    obtain q1 w1 where "s = (q1, w1)" by force
    with s have step: "aq_step aq ev (q, w) = Some (q1, w1)" by simp
    from stopping_step [OF Suc.prems(1) ev step] Suc.prems(2)
    have "stopping q1" "steps_left (qs_phase q1) \<le> fuel" by auto
    from Suc.IH [OF this] Some step show ?thesis by simp
  qed
qed

text \<open>While the pool is open and every record fits its columns, no write is lost.\<close>

definition lossless :: "int \<Rightarrow> queue_state \<times> database \<Rightarrow> bool" where
  "lossless n = (\<lambda>(q, db). db_connected db \<and> qs_dropped_total q = n \<and>
     list_all row_fits (in_flight (qs_phase q) @ qs_buffer q))"

lemma lossless_step:
  assumes "lossless n (q, db)" and "ev \<in> coroutine_events"
    and "aq_step (db_accounting capacity flush_size) ev (q, db) = Some s"
  shows "lossless n s"
  using assms
  by (auto simp: lossless_def queue_defs db_accounting_def write_batch_def with_pool_def Let_def
      split: drain_phase.splits if_splits)

lemma lossless_run:
  assumes "lossless n s" and "set evs \<subseteq> coroutine_events"
    and "aq_run (db_accounting capacity flush_size) evs s = Some s'"
  shows "lossless n s'"
  using assms
proof (induction evs arbitrary: s)
  case (Cons ev evs)
  obtain q db where s: "s = (q, db)" by force
  obtain s1 where "aq_step (db_accounting capacity flush_size) ev s = Some s1"
    "aq_run (db_accounting capacity flush_size) evs s1 = Some s'"
    using Cons.prems(3) by (auto split: option.splits)
  with Cons.IH [of s1] lossless_step [of n q db ev capacity flush_size s1] Cons.prems(1,2) s
  show ?case by simp
qed simp

lemma accounting_stop_drains:
  assumes bw: "batched_writer aq rows held" and run: "aq_run aq evs (new_queue, w0) = Some (q, w)"
    and ph: "qs_phase q \<notin> {Idle, Stopped}" "\<And>b. qs_phase q \<noteq> Final_writing b"
    and stop: "accounting_stop aq q w = (q', w')"
  shows "qs_phase q' = Stopped \<and> qs_buffer q' = [] \<and>
    (\<exists>written. rows w' = rows w0 @ map held written \<and>
       int (length (concat (map offered evs))) = int (length written) + qs_dropped_total q')"
proof -
  note stopped = stop_begin_stopping [OF ph]
  have ended: "stopping q'" "qs_phase q' = Stopped"
    using run_out_stops [of "stop_begin q" 6 aq w] stopped stop steps_left_le
    by (simp_all add: accounting_stop_def)
  obtain evs' where evs': "set evs' \<subseteq> coroutine_events" "aq_run aq evs' (stop_begin q, w) = Some (q', w')"
    using run_out_run [of aq "(stop_begin q, w)" 6] stop by (auto simp: accounting_stop_def)
  from evs'(1) have "concat (map offered evs') = []" by auto
  with batched_writer.conserved_run [OF bw batched_writer.conserved_stop_begin [OF bw
        batched_writer.conserved_run [OF bw batched_writer.conserved_init [OF bw] run]] evs'(2)]
  have "batched_writer.conserved aq rows held w0 (concat (map offered evs)) (q', w')" by simp
  with ended show ?thesis
    by (auto simp: batched_writer.conserved_def [OF bw] stopping_def)
qed

lemma accounting_stop_lossless:
  assumes "qs_phase q \<notin> {Idle, Stopped}" "\<And>b. qs_phase q \<noteq> Final_writing b"
    and "lossless n (q, db)"
    and "accounting_stop (db_accounting capacity flush_size) q db = (q', db')"
  shows "lossless n (q', db')"
proof -
  have "lossless n (stop_begin q, db)"
    using assms(1-3) by (cases "qs_phase q") (auto simp: lossless_def stop_begin_def)
  moreover obtain evs' where "set evs' \<subseteq> coroutine_events"
    "aq_run (db_accounting capacity flush_size) evs' (stop_begin q, db) = Some (q', db')"
    using run_out_run [of "db_accounting capacity flush_size" "(stop_begin q, db)" 6] assms(4)
    by (auto simp: accounting_stop_def)
  ultimately show ?thesis by (rule lossless_run)
qed

section \<open>What a shutdown does\<close>

text \<open>C11: An orderly shutdown finishes: when the refresh task is alive, \<open>lifespan\<close> ends with both
  tasks gone, an empty buffer and a closed pool, and every record offered since the start is
  in the table or counted as dropped. The pool is closed last: if it was open and the records
  left fit their columns, the shutdown itself drops none.\<close>

theorem orderly_shutdown:
  assumes "gw_accounting gw = db_accounting capacity flush_size"
    and "aq_run (gw_accounting gw) evs (new_queue, db0) = Some (as_queue s, as_db s)"
    and "qs_phase (as_queue s) \<notin> {Idle, Stopped}" "\<And>b. qs_phase (as_queue s) \<noteq> Final_writing b"
    and "\<And>e. tk_phase t \<noteq> Task_died e" "\<And>n. tk_phase t = Ticking n \<Longrightarrow> n < 1024"
    and "lifespan_stop gw do_tick rnd aclose t s w = (res, t', s', w')"
  shows "res = Inr () \<and> tk_phase t' = No_task \<and> qs_phase (as_queue s') = Stopped \<and>
    qs_buffer (as_queue s') = [] \<and> \<not> db_connected (as_db s') \<and>
    (\<exists>written. db_rows (as_db s') = db_rows db0 @ map stored_row written \<and>
       int (length (concat (map offered evs))) = int (length written) + qs_dropped_total (as_queue s')) \<and>
    (db_connected (as_db s) \<and>
       list_all row_fits (in_flight (qs_phase (as_queue s)) @ qs_buffer (as_queue s)) \<longrightarrow>
     qs_dropped_total (as_queue s') = qs_dropped_total (as_queue s))"
proof -
  obtain t1 w1 where refresh: "refresh_stop (base_interval_s (gw_config gw)) do_tick rnd t w = (Inr (), t1, w1)"
    and t1: "tk_phase t1 = No_task"
    using refresh_stop_ends [OF assms(5,6), where base = "base_interval_s (gw_config gw)"
        and do_tick = do_tick and rnd = rnd and w = w]
    by (metis prod.collapse)
  obtain q db where stop: "accounting_stop (gw_accounting gw) (as_queue s) (as_db s) = (q, db)" by force
  have s': "res = Inr ()" "t' = t1" "s' = s\<lparr>as_queue := q, as_db := db_close db\<rparr>"
    using assms(7) by (auto simp: lifespan_stop_def refresh stop)
  have bw: "batched_writer (gw_accounting gw) db_rows stored_row"
    unfolding assms(1) by (rule db_writer.batched_writer_axioms)
  have "lossless (qs_dropped_total (as_queue s)) (q, db)"
    if "db_connected (as_db s)"
      and "list_all row_fits (in_flight (qs_phase (as_queue s)) @ qs_buffer (as_queue s))"
  proof (rule accounting_stop_lossless [OF assms(3,4)])
    show "lossless (qs_dropped_total (as_queue s)) (as_queue s, as_db s)"
      using that by (simp add: lossless_def)
    show "accounting_stop (db_accounting capacity flush_size) (as_queue s) (as_db s) = (q, db)"
      using stop by (simp add: assms(1))
  qed
  with accounting_stop_drains [OF bw assms(2-4) stop] t1 show ?thesis
    by (auto simp: s' lossless_def db_close_def db_rows_def)
qed

text \<open>C30: A long Redis outage costs the accounting its buffer: after 1025 failed ticks in a row
  the refresh task is dead, and the shutdown raises its \<open>OverflowError\<close> before it reaches the
  queue and the pool, so the records in the buffer are neither stored nor counted and the
  pool stays open.\<close>

theorem outage_spoils_shutdown:
  assumes "failing do_tick" and "2050 \<le> k"
    and "(task_step base do_tick rnd ^^ k) (refresh_start new_refresh_task, w) = (t, w1)"
    and "lifespan_stop gw do_tick rnd aclose t s w1 = (res, t', s', w')"
  shows "res = Inl OverflowError \<and> s' = s \<and> w' = w1"
proof -
  have "tk_phase t = Task_died OverflowError"
    using failing_task_dies [OF assms(1) _ _ assms(2), of new_refresh_task base rnd w] assms(3)
    by (simp add: new_refresh_task_def)
  note dead = refresh_stop_dead [OF this, of "base_interval_s (gw_config gw)" do_tick rnd w1]
  from assms(4) show ?thesis by (simp add: lifespan_stop_def dead)
qed

section \<open>A shutdown\<close>

text \<open>Two records wait for the drain task when the gateway of the theory \<open>Boot\<close> is stopped.\<close>

definition demo_last_events :: "queue_event list" where
  "demo_last_events = [Start, Run, Enqueue (demo_row ''a'' 0), Enqueue (demo_row ''b'' 1)]"

definition demo_last_queue :: queue_state where
  "demo_last_queue =
     \<lparr>qs_buffer = [demo_row ''a'' 0, demo_row ''b'' 1], qs_dropped_total = 0, qs_wakeup = False,
      qs_stop = False, qs_phase = Waiting, qs_metric = 0\<rparr>"

definition demo_last_state :: app_state where
  "demo_last_state =
     \<lparr>as_cache = [], as_db = demo_db, as_queue = demo_last_queue, as_collectors = no_collectors\<rparr>"

lemma demo_last_run:
  "aq_run (db_accounting 10000 200) demo_last_events (new_queue, demo_db) = Some (demo_last_queue, demo_db)"
  by code_simp

lemma demo_gateway_accounting: "gw_accounting demo_gateway = db_accounting 10000 200"
  by (simp add: demo_gateway_def)

text \<open>A shutdown that stops a sleeping refresh task.\<close>

abbreviation demo_stop ::
    "(mem_world \<Rightarrow> unit pyres \<times> mem_world) \<Rightarrow> refresh_task \<times> mem_world \<Rightarrow>
     unit pyres \<times> refresh_task \<times> app_state \<times> mem_world" where
  "demo_stop do_tick tw \<equiv>
     lifespan_stop demo_gateway do_tick (Pair (1 / 2)) id (fst tw) demo_last_state (snd tw)"

theorem orderly_shutdown_witness:
  "\<exists>t s w. demo_stop (Pair (Inr ())) (\<lparr>tk_phase = Sleeping 0, tk_stop = False\<rparr>, mem_empty) = (Inr (), t, s, w) \<and>
     length (db_rows (as_db s)) = 2 \<and> \<not> db_connected (as_db s) \<and> qs_buffer (as_queue s) = []"
proof -
  let ?t = "\<lparr>tk_phase = Sleeping 0, tk_stop = False\<rparr>"
  obtain res t s w where stop: "demo_stop (Pair (Inr ())) (?t, mem_empty) = (res, t, s, w)" by (metis surj_pair)
  have run: "aq_run (gw_accounting demo_gateway) demo_last_events (new_queue, demo_db) =
      Some (as_queue demo_last_state, as_db demo_last_state)"
    by (simp add: demo_gateway_accounting demo_last_run demo_last_state_def)
  have fits: "list_all row_fits [demo_row ''a'' 0, demo_row ''b'' 1]" by code_simp
  have "res = Inr () \<and> qs_buffer (as_queue s) = [] \<and> \<not> db_connected (as_db s) \<and>
      (\<exists>written. db_rows (as_db s) = map stored_row written \<and> length written = 2)"
    using orderly_shutdown [OF demo_gateway_accounting run _ _ _ _ stop [unfolded fst_conv snd_conv]] fits
    by (auto simp: demo_last_state_def demo_last_queue_def demo_last_events_def db_rows_def demo_db_def)
  with stop show ?thesis by auto
qed

theorem outage_spoils_shutdown_witness:
  "\<exists>t s w. demo_stop (Pair (Inl (RuntimeError ''redis'')))
       ((task_step 1 (Pair (Inl (RuntimeError ''redis''))) (Pair (1 / 2)) ^^ 2050)
          (refresh_start new_refresh_task, mem_empty)) = (Inl OverflowError, t, s, w) \<and>
     length (qs_buffer (as_queue s)) = 2 \<and> db_connected (as_db s)"
proof -
  let ?tick = "Pair (Inl (RuntimeError ''redis'')) :: mem_world \<Rightarrow> unit pyres \<times> mem_world"
  have fails: "failing ?tick" by (simp add: failing_def)
  obtain t w1 where task: "(task_step 1 ?tick (Pair (1 / 2)) ^^ 2050)
      (refresh_start new_refresh_task, mem_empty) = (t, w1)" by force
  obtain res t' s w where stop: "lifespan_stop demo_gateway ?tick (Pair (1 / 2)) id t demo_last_state w1 =
      (res, t', s, w)" by (metis surj_pair)
  from outage_spoils_shutdown [OF fails _ task stop]
  have "res = Inl OverflowError" "s = demo_last_state" by simp_all
  with stop have "demo_stop ?tick (t, w1) = (Inl OverflowError, t', demo_last_state, w)" by simp
  moreover have "length (qs_buffer (as_queue demo_last_state)) = 2" "db_connected (as_db demo_last_state)"
    by (simp_all add: demo_last_state_def demo_last_queue_def demo_db_def)
  ultimately show ?thesis unfolding task by blast
qed

end
