(* ===== verification/Mocks.thy ===== *)
theory Mocks
  imports Serving
begin

text \<open>
  \<open>gateway/providers/mock/\<close>: the vendors of mock mode. A mock vendor answers from a script, a
  queue of responses, and makes an answer up when the script is over. The SHA-256 digest is a
  parameter, and so is \<open>asyncio.sleep\<close>, a function on the world.
\<close>

section \<open>The vendor\<close>

record scripted_response =
  sr_result :: "chat_result option"
  sr_error :: "provider_error option"
  sr_latency_s :: rat

record mock_vendor =
  mv_name :: string
  mv_vrid_prefix :: string
  mv_default_text :: string
  mv_script :: "scripted_response list"
  mv_call_count :: int

text \<open>The three subclasses: their names and prefixes.\<close>

definition MockOpenAIVendor :: "string \<times> string" where
  "MockOpenAIVendor = (''openai'', ''vrid-openai-mock'')"

definition MockAnthropicVendor :: "string \<times> string" where
  "MockAnthropicVendor = (''anthropic'', ''vrid-anthropic-mock'')"

definition MockGoogleVendor :: "string \<times> string" where
  "MockGoogleVendor = (''google'', ''vrid-google-mock'')"

definition MOCK_VENDORS :: "(string, string) pydict" where
  "MOCK_VENDORS = [MockOpenAIVendor, MockAnthropicVendor, MockGoogleVendor]"

definition mk_mock_vendor :: "string \<Rightarrow> string \<Rightarrow> string \<Rightarrow> mock_vendor" where
  "mk_mock_vendor name vrid_prefix default_text =
     \<lparr>mv_name = name, mv_vrid_prefix = vrid_prefix, mv_default_text = default_text, mv_script = [],
      mv_call_count = 0\<rparr>"

section \<open>Scripting\<close>

definition mock_queue :: "scripted_response list \<Rightarrow> mock_vendor \<Rightarrow> mock_vendor" where
  "mock_queue steps mv = mv\<lparr>mv_script := mv_script mv @ steps\<rparr>"

text \<open>\<open>ChatResult\<close> validates what it is given; an empty text counts as none.\<close>

definition queue_success ::
    "string option \<Rightarrow> int \<Rightarrow> int \<Rightarrow> rat \<Rightarrow> string option \<Rightarrow> string \<Rightarrow> mock_vendor \<Rightarrow> mock_vendor pyres" where
  "queue_success text input_tokens output_tokens latency_s vendor_request_id finish_reason mv =
     (let result =
            \<lparr>cr_text = (if text_or_empty text = '''' then mv_default_text mv else text_or_empty text),
             cr_finish_reason = Some finish_reason, cr_input_tokens = input_tokens,
             cr_output_tokens = output_tokens, cr_vendor_request_id = vendor_request_id\<rparr>
      in if valid_chat_result result
         then Inr (mv\<lparr>mv_script := mv_script mv @
                [\<lparr>sr_result = Some result, sr_error = None, sr_latency_s = latency_s\<rparr>]\<rparr>)
         else Inl (ValidationError ''ChatResult''))"

definition queue_error :: "provider_error \<Rightarrow> rat \<Rightarrow> mock_vendor \<Rightarrow> mock_vendor" where
  "queue_error exc latency_s mv =
     mv\<lparr>mv_script := mv_script mv @
       [\<lparr>sr_result = None, sr_error = Some exc, sr_latency_s = latency_s\<rparr>]\<rparr>"

definition mock_clear :: "mock_vendor \<Rightarrow> mock_vendor" where
  "mock_clear mv = mv\<lparr>mv_script := [], mv_call_count := 0\<rparr>"

section \<open>\<open>chat\<close>\<close>

text \<open>\<open>f"{x:.2f}"\<close>: the exact value is rounded to two digits, ties to even.\<close>

definition round_half_even :: "rat \<Rightarrow> int" where
  "round_half_even x =
     (let f = \<lfloor>x\<rfloor>; r = x - of_int f
      in if r < 1 / 2 then f else if 1 / 2 < r then f + 1 else if even f then f else f + 1)"

definition fixed2 :: "rat \<Rightarrow> string" where
  "fixed2 x =
     (let n = round_half_even (\<bar>x\<bar> * 100);
          s = str_int (n div 100) @ ''.'' @ [digit (nat (n mod 100 div 10)), digit (nat (n mod 10))]
      in if x < 0 then CHR ''-'' # s else s)"

definition default_response :: "mock_vendor \<Rightarrow> message list \<Rightarrow> scripted_response" where
  "default_response mv messages =
     \<lparr>sr_result = Some
        \<lparr>cr_text = mv_default_text mv, cr_finish_reason = Some ''stop'',
         cr_input_tokens = sum_list (map (\<lambda>m. int (length (msg_content m))) messages) div 4 + 1,
         cr_output_tokens = int (length (mv_default_text mv)) div 4 + 1,
         cr_vendor_request_id = None\<rparr>,
      sr_error = None, sr_latency_s = 0\<rparr>"

definition next_step :: "mock_vendor \<Rightarrow> message list \<Rightarrow> scripted_response \<times> mock_vendor" where
  "next_step mv messages =
     (case mv_script mv of
        step # rest \<Rightarrow> (step, mv\<lparr>mv_script := rest\<rparr>)
      | [] \<Rightarrow> (default_response mv messages, mv))"

definition with_request_id ::
    "(string \<Rightarrow> string) \<Rightarrow> mock_vendor \<Rightarrow> string \<Rightarrow> message list \<Rightarrow> chat_result \<Rightarrow> chat_result" where
  "with_request_id sha256_hex mv model messages result =
     (if cr_vendor_request_id result = None
      then let digest = take 12 (sha256_hex (model @ ''|'' @ concat (map msg_content messages)))
           in result\<lparr>cr_vendor_request_id := Some (mv_vrid_prefix mv @ ''-'' @ digest)\<rparr>
      else result)"

definition simulated_timeout :: "mock_vendor \<Rightarrow> rat \<Rightarrow> vendor_reply" where
  "simulated_timeout mv timeout_s =
     Provider_failed (provider_error_init Timeout
       (mv_name mv @ '': simulated timeout after '' @ fixed2 timeout_s @ ''s'') None)"

definition mock_chat ::
    "(string \<Rightarrow> string) \<Rightarrow> (rat \<Rightarrow> 'w \<Rightarrow> 'w) \<Rightarrow> mock_vendor \<Rightarrow> string \<Rightarrow> message list \<Rightarrow> chat_params \<Rightarrow> rat \<Rightarrow>
     'w \<Rightarrow> vendor_reply \<times> mock_vendor \<times> 'w" where
  "mock_chat sha256_hex sleep mv model messages params timeout_s w =
     (let mv = mv\<lparr>mv_call_count := mv_call_count mv + 1\<rparr>;
          (step, mv) = next_step mv messages
      in if 0 < sr_latency_s step \<and> timeout_s \<le> sr_latency_s step
         then (simulated_timeout mv timeout_s, mv, sleep (min timeout_s (sr_latency_s step)) w)
         else
           let w = (if 0 < sr_latency_s step then sleep (sr_latency_s step) w else w)
           in (case sr_error step of
                 Some e \<Rightarrow> (Provider_failed e, mv, w)
               | None \<Rightarrow>
                   (case sr_result step of
                      None \<Rightarrow> (Crashed AssertionError, mv, w)
                    | Some result \<Rightarrow>
                        (Replied (with_request_id sha256_hex mv model messages result), mv, w))))"

section \<open>Runs of calls\<close>

type_synonym chat_call = "string \<times> message list \<times> chat_params \<times> rat"

fun mock_calls ::
    "(string \<Rightarrow> string) \<Rightarrow> (rat \<Rightarrow> 'w \<Rightarrow> 'w) \<Rightarrow> chat_call list \<Rightarrow> mock_vendor \<Rightarrow> 'w \<Rightarrow>
     vendor_reply list \<times> mock_vendor \<times> 'w" where
  "mock_calls sha256_hex sleep [] mv w = ([], mv, w)"
| "mock_calls sha256_hex sleep ((model, messages, params, timeout_s) # calls) mv w =
     (let (reply, mv, w) = mock_chat sha256_hex sleep mv model messages params timeout_s w;
          (replies, mv, w) = mock_calls sha256_hex sleep calls mv w
      in (reply # replies, mv, w))"

text \<open>What a response of the script makes of a call, without the state.\<close>

fun performed :: "(string \<Rightarrow> string) \<Rightarrow> mock_vendor \<Rightarrow> scripted_response \<Rightarrow> chat_call \<Rightarrow> vendor_reply" where
  "performed sha256_hex mv step (model, messages, params, timeout_s) =
     (if 0 < sr_latency_s step \<and> timeout_s \<le> sr_latency_s step then simulated_timeout mv timeout_s
      else case (sr_error step, sr_result step) of
             (Some e, _) \<Rightarrow> Provider_failed e
           | (None, Some result) \<Rightarrow> Replied (with_request_id sha256_hex mv model messages result)
           | (None, None) \<Rightarrow> Crashed AssertionError)"

text \<open>The response a script has for the \<open>k\<close>-th call.\<close>

definition scripted ::
    "scripted_response list \<Rightarrow> mock_vendor \<Rightarrow> nat \<Rightarrow> chat_call \<Rightarrow> scripted_response" where
  "scripted steps mv k call =
     (if k < length steps then steps ! k else default_response mv (fst (snd call)))"

text \<open>Everything about a vendor that \<open>chat\<close> does not change.\<close>

definition same_vendor :: "mock_vendor \<Rightarrow> mock_vendor \<Rightarrow> bool" where
  "same_vendor mv mv' \<longleftrightarrow> mv_name mv = mv_name mv' \<and> mv_vrid_prefix mv = mv_vrid_prefix mv' \<and>
     mv_default_text mv = mv_default_text mv'"

lemma same_vendor_cong:
  assumes "same_vendor mv mv'"
  shows "performed sha mv step call = performed sha mv' step call"
    and "scripted steps mv k call = scripted steps mv' k call"
proof -
  obtain model messages params timeout_s where call: "call = (model, messages, params, timeout_s)"
    by (cases call)
  have "simulated_timeout mv t = simulated_timeout mv' t"
    and "with_request_id sha mv = with_request_id sha mv'"
    and default: "default_response mv = default_response mv'" for t
    using assms
    by (simp_all add: same_vendor_def simulated_timeout_def with_request_id_def default_response_def fun_eq_iff)
  then show "performed sha mv step call = performed sha mv' step call" by (simp add: call split: option.split)
  show "scripted steps mv k call = scripted steps mv' k call" by (simp add: scripted_def default)
qed

lemma mock_chat_performed:
  assumes "mock_chat sha sleep mv model messages params timeout_s w = (reply, mv', w')"
  shows "reply = performed sha mv (scripted (mv_script mv) mv 0 (model, messages, params, timeout_s))
      (model, messages, params, timeout_s)"
    and "mv_script mv' = tl (mv_script mv)" and "mv_call_count mv' = mv_call_count mv + 1"
    and "same_vendor mv mv'"
proof -
  note defs = mock_chat_def next_step_def scripted_def same_vendor_def Let_def
  have reply: "simulated_timeout (mv\<lparr>mv_call_count := n\<rparr>) t = simulated_timeout mv t"
    "simulated_timeout (mv\<lparr>mv_call_count := n, mv_script := s\<rparr>) t = simulated_timeout mv t"
    "with_request_id sha (mv\<lparr>mv_call_count := n\<rparr>) = with_request_id sha mv"
    "with_request_id sha (mv\<lparr>mv_call_count := n, mv_script := s\<rparr>) = with_request_id sha mv"
    "default_response (mv\<lparr>mv_call_count := n\<rparr>) ms = default_response mv ms" for n t s ms
    by (simp_all add: simulated_timeout_def with_request_id_def default_response_def fun_eq_iff)
  show "reply = performed sha mv (scripted (mv_script mv) mv 0 (model, messages, params, timeout_s))
      (model, messages, params, timeout_s)"
    using assms by (cases "mv_script mv") (auto simp: defs reply split: option.splits if_splits)
  show "mv_script mv' = tl (mv_script mv)" and "mv_call_count mv' = mv_call_count mv + 1"
    and "same_vendor mv mv'"
    using assms by (cases "mv_script mv"; auto simp: defs reply split: option.splits if_splits)+
qed

lemma mock_calls_performed:
  assumes "mock_calls sha sleep calls mv w = (replies, mv', w')"
  shows "length replies = length calls \<and> mv_script mv' = drop (length calls) (mv_script mv) \<and>
    mv_call_count mv' = mv_call_count mv + int (length calls) \<and>
    (\<forall>k < length calls. replies ! k =
       performed sha mv (scripted (mv_script mv) mv k (calls ! k)) (calls ! k))"
  using assms
proof (induction calls arbitrary: mv w replies)
  case Nil
  then show ?case by simp
next
  case (Cons call calls)
  obtain model messages params timeout_s where call: "call = (model, messages, params, timeout_s)"
    by (cases call)
  obtain reply mv1 w1 where chat: "mock_chat sha sleep mv model messages params timeout_s w = (reply, mv1, w1)"
    by (metis surj_pair)
  obtain rs where rest: "mock_calls sha sleep calls mv1 w1 = (rs, mv', w')" and replies: "replies = reply # rs"
    using Cons.prems by (auto simp: call chat split: prod.splits)
  note first = mock_chat_performed [OF chat, folded call]
  note later = Cons.IH [OF rest]
  have "replies ! k = performed sha mv (scripted (mv_script mv) mv k ((call # calls) ! k)) ((call # calls) ! k)"
    if "k < length (call # calls)" for k
  proof (cases k)
    case 0
    then show ?thesis by (simp add: replies first(1))
  next
    case (Suc j)
    have "scripted (tl (mv_script mv)) mv j c = scripted (mv_script mv) mv (Suc j) c" for c
      by (cases "mv_script mv") (simp_all add: scripted_def)
    with Suc that later show ?thesis
      by (simp add: replies first(2) same_vendor_cong [OF first(4), symmetric])
  qed
  with later first(2,3) show ?case by (simp add: replies drop_Suc)
qed

section \<open>What a mock promises\<close>

text \<open>A mock vendor plays its script first in, first out: after \<open>clear\<close> and the queueing of
  some steps, the calls get the steps in order, each once, with the simulated timeout taking
  precedence over the step's error or result; when the script is over every call gets the
  deterministic default answer; and \<open>call_count\<close> counts them.\<close>

theorem mock_plays_script:
  assumes "mock_calls sha sleep calls (mock_queue steps (mock_clear mv)) w = (replies, mv', w')"
  shows "length replies = length calls \<and> mv_script mv' = drop (length calls) steps \<and>
    mv_call_count mv' = int (length calls) \<and>
    (\<forall>k < length calls. replies ! k = performed sha mv (scripted steps mv k (calls ! k)) (calls ! k))"
proof -
  have same: "same_vendor mv (mock_queue steps (mock_clear mv))"
    by (simp add: same_vendor_def mock_queue_def mock_clear_def)
  from mock_calls_performed [OF assms] show ?thesis
    by (simp add: same_vendor_cong [OF same]) (simp add: mock_queue_def mock_clear_def)
qed

text \<open>What the loop relies on: time passes when the vendor sleeps, and only then.\<close>

locale sleeping =
  fixes sleep :: "rat \<Rightarrow> 'w \<Rightarrow> 'w" and clk :: "'w \<Rightarrow> rat"
  assumes clk_sleep: "0 \<le> d \<Longrightarrow> clk (sleep d w) = clk w + d"
begin

lemma mock_chat_time:
  assumes "mock_chat sha sleep mv model messages params timeout_s w = (reply, mv', w')"
    and "0 \<le> timeout_s"
  shows "clk w' = clk w + min timeout_s (max 0 (sr_latency_s (fst (next_step mv messages))))"
proof -
  obtain step mv1 where step: "next_step (mv\<lparr>mv_call_count := mv_call_count mv + 1\<rparr>) messages = (step, mv1)"
    by force
  then have "fst (next_step mv messages) = step"
    by (auto simp: next_step_def default_response_def split: list.splits)
  with assms show ?thesis
    by (auto simp: mock_chat_def step Let_def clk_sleep split: option.splits if_splits)
qed

end

text \<open>A call of a mock lasts exactly as long as the step's latency, and never longer than
  the timeout it was given; one that uses up its timeout ends in a retryable \<open>Timeout\<close>, as the
  router expects of every vendor.\<close>

theorem mock_keeps_timeout:
  assumes "sleeping sleep clk" and "0 < timeout_s"
    and "mock_chat sha sleep mv model messages params timeout_s w = (reply, mv', w')"
  shows "clk w' = clk w + min timeout_s (max 0 (sr_latency_s (fst (next_step mv messages)))) \<and>
    (clk w' = clk w + timeout_s \<longrightarrow> (\<exists>e. reply = Provider_failed e \<and> pe_class e = Timeout))"
proof -
  note time = sleeping.mock_chat_time [OF assms(1,3)]
  have "reply = simulated_timeout mv timeout_s" if "clk w' = clk w + timeout_s"
  proof -
    let ?step = "scripted (mv_script mv) mv 0 (model, messages, params, timeout_s)"
    have "fst (next_step mv messages) = ?step"
      by (cases "mv_script mv") (simp_all add: next_step_def scripted_def)
    with that time assms(2) have "0 < sr_latency_s ?step \<and> timeout_s \<le> sr_latency_s ?step" by auto
    with mock_chat_performed(1) [OF assms(3)] show ?thesis by simp
  qed
  with time assms(2) show ?thesis by (auto simp: simulated_timeout_def provider_error_init_def)
qed

section \<open>Mock mode\<close>

text \<open>
  Nothing under \<open>gateway/\<close> scripts a vendor, so a gateway in mock mode calls vendors whose script
  stays empty: only their counters change, which nothing reads.
\<close>

definition unscripted_chat ::
    "(string \<Rightarrow> string) \<Rightarrow> (rat \<Rightarrow> 'w \<Rightarrow> 'w) \<Rightarrow> string \<Rightarrow> 'w vendor" where
  "unscripted_chat sha256_hex sleep name model messages params timeout_s w =
     (let mv = mk_mock_vendor name (text_or_empty (map_of MOCK_VENDORS name)) ''ok'';
          (reply, _, w) = mock_chat sha256_hex sleep mv model messages params timeout_s w
      in (reply, w))"

lemma unscripted_stays:
  assumes "mv_script mv = []"
    and "same_vendor mv (mk_mock_vendor name (text_or_empty (map_of MOCK_VENDORS name)) ''ok'')"
    and "mock_chat sha sleep mv model messages params timeout_s w = (reply, mv', w')"
  shows "mv_script mv' = [] \<and> same_vendor mv mv' \<and>
    unscripted_chat sha sleep name model messages params timeout_s w = (reply, w')"
proof -
  have "default_response (mv\<lparr>mv_call_count := n\<rparr>) messages = default_response mv messages"
    "with_request_id sha (mv\<lparr>mv_call_count := n\<rparr>) = with_request_id sha mv" for n
    by (simp_all add: default_response_def with_request_id_def fun_eq_iff)
  with assms show ?thesis
    by (auto simp: unscripted_chat_def mock_chat_def next_step_def mk_mock_vendor_def same_vendor_def
        default_response_def with_request_id_def Let_def)
qed

lemma unscripted_reply:
  "\<exists>vrid. unscripted_chat sha sleep name model messages params timeout_s w =
     (Replied \<lparr>cr_text = ''ok'', cr_finish_reason = Some ''stop'',
        cr_input_tokens = sum_list (map (\<lambda>m. int (length (msg_content m))) messages) div 4 + 1,
        cr_output_tokens = 1, cr_vendor_request_id = Some vrid\<rparr>, w)"
  by (auto simp: unscripted_chat_def mock_chat_def next_step_def default_response_def
      with_request_id_def mk_mock_vendor_def Let_def)

lemma sum_lengths_nonneg: "0 \<le> sum_list (map (\<lambda>x. int (f x)) xs)"
  by (rule sum_list_nonneg) auto

text \<open>Mock vendors meet what the theory \<open>Serving\<close> asks of vendors.\<close>

lemma mocks_behave:
  "vendors_behave (map (\<lambda>(name, _). (name, unscripted_chat sha sleep name)) kvs)"
proof -
  have "reply_ok (fst (unscripted_chat sha sleep name m ms params t w))" for name m ms params t w
  proof -
    obtain vrid where reply: "unscripted_chat sha sleep name m ms params t w =
      (Replied \<lparr>cr_text = ''ok'', cr_finish_reason = Some ''stop'',
        cr_input_tokens = sum_list (map (\<lambda>m. int (length (msg_content m))) ms) div 4 + 1,
        cr_output_tokens = 1, cr_vendor_request_id = Some vrid\<rparr>, w)"
      using unscripted_reply [of sha sleep name m ms params t w] by (elim exE) (rule that)
    have "0 \<le> sum_list (map (\<lambda>m. int (length (msg_content m))) ms)" by (rule sum_lengths_nonneg)
    then have "0 \<le> sum_list (map (\<lambda>m. int (length (msg_content m))) ms) div 4 + 1" by presburger
    then show ?thesis unfolding reply by (simp add: reply_ok_def valid_chat_result_def)
  qed
  then show ?thesis by (auto simp: vendors_behave_def dest!: map_of_SomeD)
qed

lemma mock_mode_vendors:
  assumes "lifespan_start dp env cc co db c w = (Inr (gw, cache, snap), c', w')"
    and "cfg_provider_mode (gw_config gw) = PM_mock"
  shows "rt_vendors (gw_router gw) = map (\<lambda>(name, _). (name, dp_mock dp name)) REAL_VENDOR_KEY_NAMES"
  using assms(1)
proof (rule lifespan_start_cases)
  fix dsn cfg0 cfg
  assume "wire dp env cfg w = (Inr (gw, cache, snap), w')"
  from wire_cases [OF this] assms(2) show ?thesis by (auto simp: mk_router_def build_vendors_def)
qed

text \<open>A gateway started in mock mode serves: with the repository's own mock vendors, every
  request of a known caller ends in an answer or a \<open>RouterError\<close>, with nothing assumed of the
  vendors.\<close>

theorem mock_gateway_serves:
  assumes "config_caching cc content pass"
    and "lifespan_start dp env cc co db c w = (Inr (gw, cache, snap), c', w')"
    and "cfg_provider_mode (gw_config gw) = PM_mock" and "dp_mock dp = unscripted_chat sha sleep"
    and "costs_nonneg (dp_pricing dp)" and "signals_have_vendors (gw_router gw)"
    and "valid_caller_name (cl_name caller)" and "0 < rq_max_tokens req"
  shows "(\<exists>res. fst (route (gw_router gw) req caller v) = Routed res) \<or>
    (\<exists>e. fst (route (gw_router gw) req caller v) = Refused e)"
proof -
  have "vendors_behave (rt_vendors (gw_router gw))"
    using mocks_behave [of sha sleep REAL_VENDOR_KEY_NAMES]
    by (simp add: mock_mode_vendors [OF assms(2,3)] assms(4))
  from route_safe [OF started_router [OF assms(1,2) this assms(5)] assms(6-8), of v] show ?thesis
    by (cases "fst (route (gw_router gw) req caller v)") auto
qed

section \<open>Concrete mocks\<close>

text \<open>On a world that is a clock, and on the in-memory store; a digest that starts with its text.\<close>

interpretation plain_sleep: sleeping "(+)" "id :: rat \<Rightarrow> rat"
  by unfold_locales simp

interpretation mem_sleep: sleeping mem_pass mw_now
  by unfold_locales (simp add: mem_pass_def)

definition demo_digest :: "string \<Rightarrow> string" where
  "demo_digest s = s @ ''0123456789abcdef''"

definition demo_mock :: mock_vendor where
  "demo_mock = mk_mock_vendor ''openai'' ''vrid-openai-mock'' ''ok''"

definition demo_steps :: "scripted_response list" where
  "demo_steps =
     [\<lparr>sr_result = Some demo_answer, sr_error = None, sr_latency_s = 9\<rparr>,
      \<lparr>sr_result = None, sr_error = Some rate_limited_error, sr_latency_s = 1\<rparr>]"

definition demo_call :: chat_call where
  "demo_call = (''m'', [\<lparr>msg_role = User, msg_content = ''hello''\<rparr>],
     \<lparr>cp_max_tokens = 5, cp_temperature = None, cp_top_p = None\<rparr>, 5 / 2)"

text \<open>A timeout, an error after a second, and the default answer.\<close>

lemma demo_mock_run:
  "mock_calls demo_digest (+) [demo_call, demo_call, demo_call] (mock_queue demo_steps (mock_clear demo_mock)) 0 =
     ([Provider_failed \<lparr>pe_class = Timeout,
         pe_message = ''openai: simulated timeout after 2.50s'', pe_vendor_detail = None\<rparr>,
       Provider_failed rate_limited_error,
       Replied \<lparr>cr_text = ''ok'', cr_finish_reason = Some ''stop'', cr_input_tokens = 2,
         cr_output_tokens = 1, cr_vendor_request_id = Some ''vrid-openai-mock-m|hello01234''\<rparr>],
      demo_mock\<lparr>mv_call_count := 3\<rparr>, 7 / 2)"
  by code_simp

theorem mock_plays_script_witness:
  "performed demo_digest demo_mock (scripted demo_steps demo_mock 1 demo_call) demo_call =
     Provider_failed rate_limited_error"
  using mock_plays_script [OF demo_mock_run]
  by (auto simp: less_Suc_eq numeral_3_eq_3)

theorem mock_keeps_timeout_witness:
  "\<exists>reply mv' w'. mock_chat demo_digest (+) (mock_queue demo_steps demo_mock) (fst demo_call)
     (fst (snd demo_call)) (fst (snd (snd demo_call))) (5 / 2) (0 :: rat) = (reply, mv', w') \<and>
     w' = 5 / 2 \<and> (\<exists>e. reply = Provider_failed e \<and> pe_class e = Timeout)"
proof -
  obtain reply mv' w' where run: "mock_chat demo_digest (+) (mock_queue demo_steps demo_mock) (fst demo_call)
     (fst (snd demo_call)) (fst (snd (snd demo_call))) (5 / 2) (0 :: rat) = (reply, mv', w')"
    by (metis surj_pair)
  have "fst (next_step (mock_queue demo_steps demo_mock) (fst (snd demo_call))) = hd demo_steps"
    by code_simp
  moreover have "sr_latency_s (hd demo_steps) = 9" by (simp add: demo_steps_def)
  ultimately show ?thesis
    using mock_keeps_timeout [OF plain_sleep.sleeping_axioms _ run] run by simp
qed

text \<open>The deployment of the theory \<open>Boot\<close> with the repository's mocks.\<close>

definition mock_gateway :: "mem_world gateway" where
  "mock_gateway = gateway_with (unscripted_chat demo_digest mem_pass)"

theorem mock_gateway_serves_witness:
  "\<exists>res. fst (route (gw_router mock_gateway) demo_request demo_caller mem_empty) = Routed res \<and>
     map (msg_content \<circ> ch_message) (rs_choices (rr_response res)) = [''ok'']"
proof -
  let ?mocks = "unscripted_chat demo_digest mem_pass"
  obtain cache snap w' where start: "lifespan_start (deployment_with ?mocks) demo_env plain_cache c_collation
      demo_written None mem_empty = (Inr (mock_gateway, cache, snap), Some (demo_loaded, 60), w')"
    using lifespan_with [of ?mocks] by (auto simp: mock_gateway_def)
  have mode: "cfg_provider_mode (gw_config mock_gateway) = PM_mock"
    by (simp add: mock_gateway_def gateway_with_def demo_loaded_def demo_config_def)
  have mocks: "dp_mock (deployment_with ?mocks) = ?mocks" by (simp add: deployment_with_def)
  have costs: "costs_nonneg (dp_pricing (deployment_with ?mocks))"
    by (simp add: deployment_with_def demo_deployment_def demo_costs)
  have signals: "signals_have_vendors (gw_router mock_gateway)"
    by (simp add: signals_have_vendors_def mock_gateway_def gateway_with_def mk_router_def
        deployment_with_def demo_deployment_def vendors_with_def REAL_VENDOR_KEY_NAMES_def demo_cache_def
        demo_entry_def mk_ref_def)
  have "valid_caller_name (cl_name demo_caller)" "0 < rq_max_tokens demo_request"
    by code_simp+
  from mock_gateway_serves [OF plain_cache.config_caching_axioms start mode mocks costs signals this]
  have ends: "(\<exists>res. fst (route (gw_router mock_gateway) demo_request demo_caller mem_empty) = Routed res) \<or>
    (\<exists>e. fst (route (gw_router mock_gateway) demo_request demo_caller mem_empty) = Refused e)" .
  have "case fst (route (gw_router mock_gateway) demo_request demo_caller mem_empty) of
      Routed res \<Rightarrow> map (msg_content \<circ> ch_message) (rs_choices (rr_response res)) = [''ok'']
    | _ \<Rightarrow> False"
    by code_simp
  with ends show ?thesis by auto
qed

end
