(* ===== verification/Budget.thy ===== *)
theory Budget
  imports Mocks
begin

text \<open>
  The time a request takes. The failover loop of \<open>gateway/router.py\<close> gives every attempt what is
  left of the request's budget; what that is worth depends on the vendors keeping their
  timeout and on the time the other calls take, which is the locale \<open>timely_router\<close>.
\<close>

section \<open>The contract\<close>

definition takes_at_most :: "('w \<Rightarrow> rat) \<Rightarrow> rat \<Rightarrow> ('w \<Rightarrow> 'w) \<Rightarrow> bool" where
  "takes_at_most clk d f \<longleftrightarrow> (\<forall>w. clk w \<le> clk (f w) \<and> clk (f w) \<le> clk w + d)"

lemma takes_at_mostD: "takes_at_most clk d f \<Longrightarrow> clk w \<le> clk (f w) \<and> clk (f w) \<le> clk w + d"
  by (simp add: takes_at_most_def)

text \<open>
  \<open>delta\<close> bounds every call that is not an attempt: reading the clock, drawing, making an id, the
  limiter and the observer. An attempt keeps its timeout, up to the same \<open>delta\<close>.
\<close>

locale timely_router =
  fixes rt :: "'w router" and clk :: "'w \<Rightarrow> rat" and delta :: rat
  assumes now_laws: "clk w \<le> fst (rt_now rt w) \<and> fst (rt_now rt w) \<le> clk (snd (rt_now rt w)) \<and>
      clk (snd (rt_now rt w)) \<le> clk w + delta"
    and draw: "takes_at_most clk delta (\<lambda>w. snd (rt_rng rt w))"
    and new_id: "takes_at_most clk delta (\<lambda>w. snd (rt_uuid4_hex rt w))"
    and acquire: "takes_at_most clk delta (\<lambda>w. snd (try_acquire (rt_bucket rt) p m n w))"
    and success: "takes_at_most clk delta (obs_record_success (rt_observer rt) c latency)"
    and failure: "takes_at_most clk delta (obs_record_failure (rt_observer rt) c kind)"
    and attempt: "map_of (rt_vendors rt) p = Some chat \<Longrightarrow> 0 < timeout_s \<Longrightarrow>
      takes_at_most clk (timeout_s + delta) (\<lambda>w. snd (chat m ms params timeout_s w))"
begin

lemma delta_nonneg: "0 \<le> delta"
  using now_laws [of undefined] by linarith

lemma pick_time: "takes_at_most clk delta (\<lambda>w. snd (pick routing cache ts exclude (rt_rng rt) w))"
  using draw delta_nonneg
  by (auto simp: takes_at_most_def pick_def split_beta Let_def split: sum.splits)

lemma on_provider_error_time:
  "takes_at_most clk delta (\<lambda>w. snd (on_provider_error rt cx st c elapsed e w))"
  using failure [of c "class_name (pe_class e)"] delta_nonneg
  by (auto simp: takes_at_most_def on_provider_error_def split_beta Let_def split: sum.splits)

lemma on_result_time: "takes_at_most clk delta (\<lambda>w. snd (on_result rt cx st c elapsed result w))"
  using success [of c elapsed] delta_nonneg
  by (auto simp: takes_at_most_def on_result_def split_beta Let_def split: sum.splits)

lemma call_vendor_time:
  assumes "0 < timeout_s"
  shows "takes_at_most clk (timeout_s + 4 * delta) (\<lambda>w. snd (call_vendor rt cx st c timeout_s w))"
  unfolding takes_at_most_def
proof
  fix w
  obtain t0 w1 where t0: "rt_now rt w = (t0, w1)" by force
  have w1: "clk w \<le> clk w1" "clk w1 \<le> clk w + delta" using now_laws [of w] by (simp_all add: t0)
  show "clk w \<le> clk (snd (call_vendor rt cx st c timeout_s w)) \<and>
      clk (snd (call_vendor rt cx st c timeout_s w)) \<le> clk w + (timeout_s + 4 * delta)"
  proof (cases "map_of (rt_vendors rt) (ca_provider c)")
    case None
    with w1 delta_nonneg assms show ?thesis by (simp add: call_vendor_def t0)
  next
    case (Some chat)
    obtain reply w2 where reply: "chat (ca_model c) (rx_messages cx) (rx_params cx) timeout_s w1 = (reply, w2)"
      by force
    have w2: "clk w1 \<le> clk w2" "clk w2 \<le> clk w1 + (timeout_s + delta)"
      using takes_at_mostD [OF attempt [OF Some assms], of w1 "ca_model c" "rx_messages cx" "rx_params cx"]
      by (simp_all add: reply)
    obtain t1 w3 where t1: "rt_now rt w2 = (t1, w3)" by force
    have w3: "clk w2 \<le> clk w3" "clk w3 \<le> clk w2 + delta" using now_laws [of w2] by (simp_all add: t1)
    show ?thesis
    proof (cases reply)
      case (Replied result)
      with takes_at_mostD [OF on_result_time [of cx st c "t1 - t0" result], of w3] w1 w2 w3 show ?thesis
        by (simp add: call_vendor_def t0 t1 Some reply)
    next
      case (Provider_failed e)
      with takes_at_mostD [OF on_provider_error_time [of cx st c "t1 - t0" e], of w3] w1 w2 w3 show ?thesis
        by (simp add: call_vendor_def t0 t1 Some reply)
    next
      case (Crashed x)
      with w1 w2 delta_nonneg show ?thesis by (simp add: call_vendor_def t0 Some reply)
    qed
  qed
qed

text \<open>
  A round either ends the loop at once, or is over well before the deadline: an attempt gets what
  is left minus the buffer.
\<close>

lemma route_step_time:
  assumes "route_step rt cx st w = (r, w')" and "rt_buffer_s rt \<le> 7 / 5"
    and "0 < rt_per_attempt_max_s rt"
  shows "clk w \<le> clk w' \<and>
    (clk w' \<le> rx_deadline cx - rt_buffer_s rt + 7 * delta \<or>
     clk w' \<le> clk w + delta \<and> (\<exists>out. r = Finish out))"
proof -
  obtain now w1 where now: "rt_now rt w = (now, w1)" by force
  have w1: "clk w \<le> now" "now \<le> clk w1" "clk w1 \<le> clk w + delta"
    using now_laws [of w] by (simp_all add: now)
  let ?left = "rx_deadline cx - now"
  show ?thesis
  proof (cases "?left < 3 / 2")
    case True
    then have "r = Finish (if rs_attempts st \<noteq> [] then deadline_exceeded st else exhausted st)" "w' = w1"
      using assms(1) by (simp_all add: route_step_def now)
    with w1 show ?thesis by auto
  next
    case False
    let ?pick = "pick (rt_engine_routing rt) (rt_engine_cache rt w1) (rx_candidates cx) (rs_exclude st)
      (rt_rng rt) w1"
    obtain res w2 where pick: "?pick = (res, w2)" by force
    have w2: "clk w1 \<le> clk w2" "clk w2 \<le> clk w1 + delta"
      using takes_at_mostD [OF pick_time, of w1 "rt_engine_routing rt" "rt_engine_cache rt w1"
          "rx_candidates cx" "rs_exclude st"]
      by (simp_all add: pick)
    have early: ?thesis if "clk w \<le> clk w'" "clk w' \<le> now + 3 * delta"
      using that assms(2) False delta_nonneg by (auto intro!: disjI1)
    show ?thesis
    proof (cases "\<exists>c. res = Inr (Some c)")
      case False
      then have "w' = w2"
        using assms(1) \<open>\<not> ?left < 3 / 2\<close> by (auto simp: route_step_def now pick split: sum.splits option.splits)
      with early w1 w2 delta_nonneg show ?thesis by simp
    next
      case True
      then obtain c where res: "res = Inr (Some c)" by blast
      obtain got w3 where got: "try_acquire (rt_bucket rt) (ca_provider c) (ca_model c) (rx_est cx) w2 = (got, w3)"
        by force
      have w3: "clk w2 \<le> clk w3" "clk w3 \<le> clk w2 + delta"
        using takes_at_mostD [OF acquire, of w2 "ca_provider c" "ca_model c" "rx_est cx"] by (simp_all add: got)
      show ?thesis
      proof (cases "\<exists>a b. got = Inr (True, a, b)")
        case False
        then have "w' = w3"
          using assms(1) \<open>\<not> ?left < 3 / 2\<close>
          by (auto simp: route_step_def now pick res got split: sum.splits prod.splits if_splits)
        with early w1 w2 w3 show ?thesis by simp
      next
        case True
        let ?t = "attempt_timeout rt ?left"
        have t: "0 < ?t" "?t \<le> ?left - rt_buffer_s rt"
          using assms(2,3) \<open>\<not> ?left < 3 / 2\<close> by (simp_all add: attempt_timeout_def)
        have call: "call_vendor rt cx st c ?t w3 = (r, w')"
          using assms(1) \<open>\<not> ?left < 3 / 2\<close> True by (auto simp: route_step_def now pick res got)
        have "clk w3 \<le> clk w'" "clk w' \<le> clk w3 + (?t + 4 * delta)"
          using takes_at_mostD [OF call_vendor_time [OF t(1), of cx st c], of w3] by (simp_all add: call)
        with w1 w2 w3 t(2) show ?thesis by (auto intro!: disjI1)
      qed
    qed
  qed
qed

lemma route_loop_time:
  assumes "route_loop rt cx st w = (out, w')" and "rt_buffer_s rt \<le> 7 / 5"
    and "0 < rt_per_attempt_max_s rt"
  shows "clk w \<le> clk w' \<and> clk w' \<le> max (clk w) (rx_deadline cx - rt_buffer_s rt + 7 * delta) + delta"
  using assms(1)
proof (induction "card (mk_ref ` set (rx_candidates cx) - rs_exclude st)" arbitrary: st w rule: less_induct)
  case less
  obtain r w1 where step: "route_step rt cx st w = (r, w1)" by force
  note time = route_step_time [OF step assms(2,3)]
  show ?case
  proof (cases r)
    case (Finish x)
    with less.prems step have "w' = w1" by (simp add: route_loop.simps [of rt cx st w])
    with time delta_nonneg show ?thesis by auto
  next
    case (Again st1)
    have "route_loop rt cx st1 w1 = (out, w')"
      using less.prems by (simp add: route_loop.simps [of rt cx st w] step Again)
    from less.hyps [OF route_step_measure [OF step [unfolded Again]] this] time Again show ?thesis
      by auto
  qed
qed

lemma route_time:
  assumes "route rt req caller w = (out, w')"
    and "0 \<le> rt_buffer_s rt" "rt_buffer_s rt \<le> 7 / 5" "rt_buffer_s rt \<le> rt_total_budget_s rt"
    and "0 < rt_per_attempt_max_s rt"
  shows "clk w \<le> clk w' \<and> clk w' \<le> clk w + (rt_total_budget_s rt - rt_buffer_s rt) + 9 * delta"
proof (cases "map_of (cfg_tiers (rt_config rt)) (rq_model req)")
  case None
  with assms delta_nonneg show ?thesis by (simp add: route_def)
next
  case (Some tc)
  obtain t w1 where t: "rt_now rt w = (t, w1)" by force
  have w1: "clk w \<le> t" "t \<le> clk w1" "clk w1 \<le> clk w + delta" using now_laws [of w] by (simp_all add: t)
  show ?thesis
  proof (cases "mk_chat_params (rq_max_tokens req) (rq_temperature req) (rq_top_p req)")
    case (Inl x)
    with assms w1 delta_nonneg show ?thesis by (auto simp: route_def Some t)
  next
    case (Inr params)
    obtain i w2 where i: "rt_uuid4_hex rt w1 = (i, w2)" by force
    have w2: "clk w1 \<le> clk w2" "clk w2 \<le> clk w1 + delta"
      using takes_at_mostD [OF new_id, of w1] by (simp_all add: i)
    have "route_loop rt (start_ctx rt req caller tc t params i) start_state w2 = (out, w')"
      using assms(1) by (simp add: route_def Some t Inr i)
    from route_loop_time [OF this assms(3,5)] w1 w2 assms(4) delta_nonneg show ?thesis by auto
  qed
qed

end

section \<open>What a request takes\<close>

text \<open>C5: A request keeps its budget: with vendors that keep the timeout they are given, a request
  is answered or refused within the total budget less the buffer, up to nine of the short calls
  between the attempts, however many candidates fail on the way and whatever the vendors,
  Redis and the dice do. With the gateway's settings that is nine and a half seconds.\<close>

theorem route_keeps_budget:
  assumes "timely_router rt clk delta"
    and "0 \<le> rt_buffer_s rt" "rt_buffer_s rt \<le> 7 / 5" "rt_buffer_s rt \<le> rt_total_budget_s rt"
    and "0 < rt_per_attempt_max_s rt"
    and "route rt req caller w = (out, w')"
  shows "clk w \<le> clk w' \<and> clk w' \<le> clk w + (rt_total_budget_s rt - rt_buffer_s rt) + 9 * delta"
  by (rule timely_router.route_time [OF assms(1,6,2-5)])

section \<open>A gateway on the in-memory store\<close>

lemma mem_commands_keep_time [simp]:
  "mw_now (mem_hset k fvs w) = mw_now w" "mw_now (mem_hincrby k f n w) = mw_now w"
  "mw_now (mem_expire k t w) = mw_now w"
  by (auto simp: mem_hset_def mem_hincrby_def mem_expire_def split: option.splits prod.splits)

lemma gateway_timely:
  assumes "\<And>name m ms params timeout_s. 0 < timeout_s \<Longrightarrow>
    takes_at_most mw_now timeout_s (\<lambda>w. snd (mocks name m ms params timeout_s w))"
  shows "timely_router (gw_router (gateway_with mocks)) mw_now 0"
proof
  fix p chat m ms params and timeout_s :: rat
  assume "map_of (rt_vendors (gw_router (gateway_with mocks))) p = Some chat" and "0 < timeout_s"
  then show "takes_at_most mw_now (timeout_s + 0) (\<lambda>w. snd (chat m ms params timeout_s w))"
    using assms by (auto simp: gateway_with_def mk_router_def vendors_with_def dest!: map_of_SomeD)
qed (auto simp: takes_at_most_def gateway_with_def mk_router_def mk_refresh_def deployment_with_def
    demo_deployment_def mem_clock_def mem_now_ms_def try_acquire_def ratelimit_acquire_def
    ratelimit_lua_def obs_record_success_def obs_record_failure_def split_beta Let_def split: sum.splits)

text \<open>Vendors that all need nine seconds, more than an attempt may take.\<close>

definition slow_mock :: "string \<Rightarrow> mem_world vendor" where
  "slow_mock name model messages params timeout_s w =
     (let mv = mock_queue [hd demo_steps] (mk_mock_vendor name ''vrid'' ''ok'');
          (reply, _, w) = mock_chat demo_digest mem_pass mv model messages params timeout_s w
      in (reply, w))"

interpretation slow: timely_router "gw_router (gateway_with slow_mock)" mw_now 0
proof (rule gateway_timely)
  fix name m :: string and ms params and timeout_s :: rat
  assume "0 < timeout_s"
  let ?mv = "mock_queue [hd demo_steps] (mk_mock_vendor name ''vrid'' ''ok'')"
  have latency: "sr_latency_s (fst (next_step ?mv ms)) = 9"
    by (simp add: mock_queue_def mk_mock_vendor_def next_step_def demo_steps_def)
  have "mw_now (snd (slow_mock name m ms params timeout_s w)) = mw_now w + min timeout_s 9" for w
  proof -
    obtain reply mv' w' where chat: "mock_chat demo_digest mem_pass ?mv m ms params timeout_s w = (reply, mv', w')"
      by (metis surj_pair)
    from mem_sleep.mock_chat_time [OF chat] \<open>0 < timeout_s\<close> show ?thesis
      by (simp add: slow_mock_def chat latency)
  qed
  with \<open>0 < timeout_s\<close> show "takes_at_most mw_now timeout_s (\<lambda>w. snd (slow_mock name m ms params timeout_s w))"
    by (simp add: takes_at_most_def)
qed

text \<open>
  The first attempt waits its eight seconds, the second the rest of the budget; then the deadline
  is close, and the caller is told after exactly nine and a half seconds.
\<close>

theorem route_keeps_budget_witness:
  "\<exists>e w'. route (gw_router (gateway_with slow_mock)) demo_request demo_caller mem_empty = (Refused e, w') \<and>
     re_kind e = RK_DEADLINE_EXCEEDED \<and> mw_now w' = 19 / 2 \<and>
     mw_now w' \<le> 0 + (10 - 1 / 2) + 9 * 0"
proof -
  let ?rt = "gw_router (gateway_with slow_mock)"
  obtain out w' where run: "route ?rt demo_request demo_caller mem_empty = (out, w')" by force
  have "case route ?rt demo_request demo_caller mem_empty of
      (Refused e, w) \<Rightarrow> re_kind e = RK_DEADLINE_EXCEEDED \<and> mw_now w = 19 / 2 | _ \<Rightarrow> False"
    by code_simp
  moreover have "rt_buffer_s ?rt = 1 / 2" "rt_total_budget_s ?rt = 10" "rt_per_attempt_max_s ?rt = 8"
    by (simp_all add: gateway_with_def mk_router_def)
  ultimately show ?thesis
    using route_keeps_budget [OF slow.timely_router_axioms _ _ _ _ run] run
    by (auto simp: mem_empty_def split: route_outcome.splits)
qed

end
