(* ===== verification/Logs.thy ===== *)
theory Logs
  imports PyText
begin

text \<open>
  \<open>gateway/logging.py\<close>: how the log is set up and what the \<open>RedactProcessor\<close> makes of an event.
  Regular expressions are Python's: compiling one is a parameter, and a compiled pattern is its
  \<open>sub\<close>, from the replacement and a string to a string. Keys are strings, at every depth.
\<close>

section \<open>Events\<close>

text \<open>Lists are a case of their own because the processor does not look into them.\<close>

datatype log_value =
    Log_str string
  | Log_dict "(string \<times> log_value) list"
  | Log_list "log_value list"
  | Log_other string

type_synonym event = "(string \<times> log_value) list"

text \<open>The value under a path of keys.\<close>

fun log_at :: "log_value \<Rightarrow> string list \<Rightarrow> log_value option" where
  "log_at v [] = Some v"
| "log_at (Log_dict kvs) (k # ks) = (case map_of kvs k of None \<Rightarrow> None | Some v \<Rightarrow> log_at v ks)"
| "log_at _ (k # ks) = None"

section \<open>The processor\<close>

type_synonym pattern = "string \<Rightarrow> string \<Rightarrow> string"

record redact_processor =
  rp_field_names :: "string list"
  rp_patterns :: "pattern list"
  rp_replacement :: string

text \<open>\<open>str.lower\<close> on Latin-1, which has the capitals of ASCII and those from \<open>0xC0\<close> to \<open>0xDE\<close>.\<close>

definition latin_lower :: "string \<Rightarrow> string" where
  "latin_lower s =
     map (\<lambda>c. let n = (of_char c :: nat)
              in if 65 \<le> n \<and> n \<le> 90 \<or> 192 \<le> n \<and> n \<le> 222 \<and> n \<noteq> 215 then char_of (n + 32) else c) s"

fun compile_all :: "(string \<Rightarrow> pattern pyres) \<Rightarrow> string list \<Rightarrow> pattern list pyres" where
  "compile_all compile [] = Inr []"
| "compile_all compile (p # ps) =
     rbind (compile p) (\<lambda>q. rbind (compile_all compile ps) (\<lambda>qs. Inr (q # qs)))"

definition mk_redact_processor ::
    "(string \<Rightarrow> pattern pyres) \<Rightarrow> string list \<Rightarrow> string list \<Rightarrow> string \<Rightarrow> redact_processor pyres" where
  "mk_redact_processor compile field_names patterns replacement =
     rbind (compile_all compile patterns) (\<lambda>pats. Inr
       \<lparr>rp_field_names = map latin_lower field_names, rp_patterns = pats, rp_replacement = replacement\<rparr>)"

definition scrub_string :: "redact_processor \<Rightarrow> string \<Rightarrow> string" where
  "scrub_string rp = fold (\<lambda>pat value. pat (rp_replacement rp) value) (rp_patterns rp)"

definition sensitive :: "redact_processor \<Rightarrow> string \<Rightarrow> bool" where
  "sensitive rp key \<longleftrightarrow> latin_lower key \<in> set (rp_field_names rp)"

fun scrub_value :: "redact_processor \<Rightarrow> string \<Rightarrow> log_value \<Rightarrow> log_value" where
  "scrub_value rp key v =
     (if sensitive rp key then Log_str (rp_replacement rp)
      else case v of
             Log_str s \<Rightarrow> Log_str (scrub_string rp s)
           | Log_dict kvs \<Rightarrow> Log_dict (map (\<lambda>(k, v). (k, scrub_value rp k v)) kvs)
           | _ \<Rightarrow> v)"

declare scrub_value.simps [simp del]

definition redact :: "redact_processor \<Rightarrow> event \<Rightarrow> event" where
  "redact rp event_dict = map (\<lambda>(k, v). (k, scrub_value rp k v)) event_dict"

section \<open>Configuration\<close>

text \<open>\<open>logger.json\<close>; an entry that is missing or \<open>null\<close> is \<open>None\<close>.\<close>

record redact_config =
  rc_field_names :: "string list option"
  rc_patterns :: "string list option"
  rc_replacement :: "string option"

record logger_config =
  lc_level :: "string option"
  lc_redact :: "redact_config option"

text \<open>A file that cannot be read or parsed counts as empty.\<close>

definition load_logger_config :: "logger_config option \<Rightarrow> logger_config" where
  "load_logger_config file =
     (case file of None \<Rightarrow> \<lparr>lc_level = None, lc_redact = None\<rparr> | Some cfg \<Rightarrow> cfg)"

definition empty_redact_config :: "redact_config \<Rightarrow> bool" where
  "empty_redact_config rc \<longleftrightarrow>
     rc_field_names rc = None \<and> rc_patterns rc = None \<and> rc_replacement rc = None"

text \<open>
  The attributes of the module \<open>logging\<close> with a name in capitals: the levels, and two that are
  none and make \<open>basicConfig\<close> raise.
\<close>

definition LEVELS :: "(string, int) pydict" where
  "LEVELS =
     [(''CRITICAL'', 50), (''FATAL'', 50), (''ERROR'', 40), (''WARNING'', 30), (''WARN'', 30),
      (''INFO'', 20), (''DEBUG'', 10), (''NOTSET'', 0)]"

definition level_named :: "string \<Rightarrow> int pyres" where
  "level_named name =
     (if name = ''BASIC_FORMAT'' then Inl (ValueError ''Unknown level'')
      else if name = ''_STYLES'' then Inl (TypeError ''Level not an integer or a valid string'')
      else case map_of LEVELS name of None \<Rightarrow> Inr 20 | Some n \<Rightarrow> Inr n)"

definition first_text :: "string option list \<Rightarrow> string \<Rightarrow> string" where
  "first_text xs d =
     (case filter (\<lambda>x. x \<noteq> None \<and> x \<noteq> Some '''') xs of Some s # _ \<Rightarrow> s | _ \<Rightarrow> d)"

definition effective_level :: "string option \<Rightarrow> logger_config \<Rightarrow> int pyres" where
  "effective_level level cfg = level_named (ascii_upper (first_text [level, lc_level cfg] ''INFO''))"

datatype processor =
  Merge_contextvars | Add_log_level | Time_stamper | Redact redact_processor | JSON_renderer

definition or_default :: "'a option \<Rightarrow> 'a \<Rightarrow> 'a" where
  "or_default x d = (case x of None \<Rightarrow> d | Some v \<Rightarrow> v)"

text \<open>The level and the pipeline that \<open>structlog.configure\<close> gets.\<close>

definition configure_logging ::
    "(string \<Rightarrow> pattern pyres) \<Rightarrow> logger_config option \<Rightarrow> string option \<Rightarrow> (int \<times> processor list) pyres" where
  "configure_logging compile file level =
     (let cfg = load_logger_config file
      in rbind (effective_level level cfg) (\<lambda>lvl.
         let processors = [Merge_contextvars, Add_log_level, Time_stamper]
         in case lc_redact cfg of
              Some rc \<Rightarrow>
                if 10 < lvl \<and> \<not> empty_redact_config rc
                then rbind (mk_redact_processor compile (or_default (rc_field_names rc) [])
                       (or_default (rc_patterns rc) []) (or_default (rc_replacement rc) ''<redacted>''))
                     (\<lambda>rp. Inr (lvl, processors @ [Redact rp, JSON_renderer]))
                else Inr (lvl, processors @ [JSON_renderer])
            | None \<Rightarrow> Inr (lvl, processors @ [JSON_renderer])))"

section \<open>What is left under a path\<close>

text \<open>A value whose own key is not sensitive.\<close>

definition cleaned :: "redact_processor \<Rightarrow> log_value \<Rightarrow> log_value" where
  "cleaned rp v =
     (case v of
        Log_str s \<Rightarrow> Log_str (scrub_string rp s)
      | Log_dict kvs \<Rightarrow> Log_dict (redact rp kvs)
      | _ \<Rightarrow> v)"

lemma scrub_value_eq:
  "scrub_value rp key v = (if sensitive rp key then Log_str (rp_replacement rp) else cleaned rp v)"
  by (simp add: scrub_value.simps [of rp key v] cleaned_def redact_def split: log_value.split)

lemma map_of_redact: "map_of (redact rp kvs) k = map_option (scrub_value rp k) (map_of kvs k)"
  by (induction kvs) (auto simp: redact_def)

lemma cleaned_leaf:
  "\<not> (\<exists>kvs. v = Log_dict kvs) \<Longrightarrow> log_at (cleaned rp v) (k # ks) = None \<and> log_at v (k # ks) = None"
  by (cases v) (simp_all add: cleaned_def)

lemma log_at_cleaned:
  "\<forall>k \<in> set ks. \<not> sensitive rp k \<Longrightarrow>
   log_at (cleaned rp v) ks = map_option (cleaned rp) (log_at v ks)"
proof (induction ks arbitrary: v)
  case (Cons k ks)
  show ?case
  proof (cases "\<exists>kvs. v = Log_dict kvs")
    case True
    with Cons show ?thesis
      by (auto simp: cleaned_def [of rp "Log_dict _"] map_of_redact scrub_value_eq split: option.split)
  next
    case False
    with cleaned_leaf [of v rp k ks] show ?thesis by auto
  qed
qed simp

lemma log_at_hidden:
  assumes "sensitive rp k"
  shows "\<forall>k \<in> set p. \<not> sensitive rp k \<Longrightarrow> log_at (cleaned rp v) (p @ k # rest) =
    (if rest = [] \<and> log_at v (p @ [k]) \<noteq> None then Some (Log_str (rp_replacement rp)) else None)"
proof (induction p arbitrary: v)
  case Nil
  have "log_at (Log_str s) rest = (if rest = [] then Some (Log_str s) else None)" for s
    by (cases rest) simp_all
  with assms cleaned_leaf [of v rp k] show ?case
    by (cases "\<exists>kvs. v = Log_dict kvs")
      (auto simp: cleaned_def [of rp "Log_dict _"] map_of_redact scrub_value_eq split: option.splits)
next
  case (Cons k' p)
  then show ?case
    using cleaned_leaf [of v rp k']
    by (cases "\<exists>kvs. v = Log_dict kvs")
      (auto simp: cleaned_def [of rp "Log_dict _"] map_of_redact scrub_value_eq split: option.splits)
qed

section \<open>What the log shows\<close>

text \<open>C24: Redaction hides a sensitive field wherever it is: under a path with a sensitive key in it,
  at any depth of nested dictionaries, the redacted event has the replacement at that key and
  nothing below it; under every other path it has what the event had, strings with the patterns
  applied. The keys of the event and their order stay. Lists are let through as they are.\<close>

theorem redaction_hides:
  "log_at (Log_dict (redact rp ev)) ks =
     (case dropWhile (\<lambda>k. \<not> sensitive rp k) ks of
        [] \<Rightarrow> map_option (cleaned rp) (log_at (Log_dict ev) ks)
      | k # rest \<Rightarrow>
          if rest = [] \<and> log_at (Log_dict ev) ks \<noteq> None then Some (Log_str (rp_replacement rp)) else None)
   \<and> map fst (redact rp ev) = map fst ev
   \<and> cleaned rp (Log_list vs) = Log_list vs"
proof -
  have event: "Log_dict (redact rp ev) = cleaned rp (Log_dict ev)" by (simp add: cleaned_def)
  have keys: "map fst (redact rp ev) = map fst ev" by (simp add: redact_def split_beta comp_def)
  let ?p = "takeWhile (\<lambda>k. \<not> sensitive rp k) ks"
  have ks: "ks = ?p @ dropWhile (\<lambda>k. \<not> sensitive rp k) ks" by simp
  have p: "\<forall>k \<in> set ?p. \<not> sensitive rp k" by (auto dest: set_takeWhileD)
  have "log_at (cleaned rp (Log_dict ev)) ks =
     (case dropWhile (\<lambda>k. \<not> sensitive rp k) ks of
        [] \<Rightarrow> map_option (cleaned rp) (log_at (Log_dict ev) ks)
      | k # rest \<Rightarrow>
          if rest = [] \<and> log_at (Log_dict ev) ks \<noteq> None then Some (Log_str (rp_replacement rp)) else None)"
  proof (cases "dropWhile (\<lambda>k. \<not> sensitive rp k) ks")
    case Nil
    with ks p have "\<forall>k \<in> set ks. \<not> sensitive rp k" by simp
    from log_at_cleaned [OF this, of "Log_dict ev"] show ?thesis by (simp only: Nil list.case)
  next
    case (Cons k rest)
    then have "sensitive rp k" by (auto simp: dropWhile_eq_Cons_conv)
    moreover have "ks = ?p @ k # rest" using ks Cons by simp
    ultimately have "log_at (cleaned rp (Log_dict ev)) ks =
        (if rest = [] \<and> log_at (Log_dict ev) (?p @ [k]) \<noteq> None then Some (Log_str (rp_replacement rp)) else None)"
      using log_at_hidden [OF _ p, of k "Log_dict ev" rest] by simp
    with Cons \<open>ks = ?p @ k # rest\<close> show ?thesis by (cases rest) auto
  qed
  with keys show ?thesis unfolding event by (simp add: cleaned_def)
qed

text \<open>The log redacts unless it is told not to, or cannot read its file: the first level that is
  given counts, \<open>logger.json\<close> after the argument and \<open>INFO\<close> for a name that is no level; the
  last processor renders; and redaction comes right before it exactly when that level is above
  \<open>DEBUG\<close> and the file was read and has a redaction section. Without the file everything is
  logged raw.\<close>

theorem redaction_is_on:
  assumes "configure_logging compile file level = Inr (lvl, processors)"
  shows "effective_level level (load_logger_config file) = Inr lvl \<and> last processors = JSON_renderer \<and>
    ((\<exists>rp. processors = [Merge_contextvars, Add_log_level, Time_stamper, Redact rp, JSON_renderer]) \<longleftrightarrow>
       10 < lvl \<and> (\<exists>cfg rc. file = Some cfg \<and> lc_redact cfg = Some rc \<and> \<not> empty_redact_config rc)) \<and>
    ((\<exists>rp. Redact rp \<in> set processors) \<longleftrightarrow>
       (\<exists>rp. processors = [Merge_contextvars, Add_log_level, Time_stamper, Redact rp, JSON_renderer]))"
  using assms
  by (cases "file")
    (auto simp: configure_logging_def load_logger_config_def Let_def split: option.splits if_splits)

section \<open>The repository's \<open>logger.json\<close>\<close>

definition shipped_field_names :: "string list" where
  "shipped_field_names =
     [''authorization'', ''api_key'', ''api-key'', ''token'', ''secret'', ''password'', ''key_hash'']"

text \<open>One pattern, that takes every \<open>sk-x\<close> out, stands in for the five regular expressions.\<close>

fun take_out :: "string \<Rightarrow> string \<Rightarrow> string" where
  "take_out r (a # b # c # d # s) =
     (if [a, b, c, d] = ''sk-x'' then r @ take_out r s else a # take_out r (b # c # d # s))"
| "take_out r s = s"

definition demo_logger_json :: logger_config where
  "demo_logger_json =
     \<lparr>lc_level = Some ''INFO'',
      lc_redact = Some \<lparr>rc_field_names = Some shipped_field_names, rc_patterns = Some [''sk-x''],
        rc_replacement = Some ''<redacted>''\<rparr>\<rparr>"

definition demo_redact :: redact_processor where
  "demo_redact =
     \<lparr>rp_field_names = shipped_field_names, rp_patterns = [take_out], rp_replacement = ''<redacted>''\<rparr>"

lemma demo_configured:
  "configure_logging (\<lambda>_. Inr take_out) (Some demo_logger_json) (Some ''warning'') =
     Inr (30, [Merge_contextvars, Add_log_level, Time_stamper, Redact demo_redact, JSON_renderer])"
  "configure_logging (\<lambda>_. Inr take_out) None None =
     Inr (20, [Merge_contextvars, Add_log_level, Time_stamper, JSON_renderer])"
proof -
  have "effective_level (Some ''warning'') demo_logger_json = Inr 30"
    and "effective_level None \<lparr>lc_level = None, lc_redact = None\<rparr> = Inr 20"
    and "map latin_lower shipped_field_names = shipped_field_names"
    by code_simp+
  then show "configure_logging (\<lambda>_. Inr take_out) (Some demo_logger_json) (Some ''warning'') =
      Inr (30, [Merge_contextvars, Add_log_level, Time_stamper, Redact demo_redact, JSON_renderer])"
    and "configure_logging (\<lambda>_. Inr take_out) None None =
      Inr (20, [Merge_contextvars, Add_log_level, Time_stamper, JSON_renderer])"
    by (simp_all add: configure_logging_def load_logger_config_def mk_redact_processor_def or_default_def
        empty_redact_config_def demo_redact_def)
      (simp add: demo_logger_json_def mk_redact_processor_def empty_redact_config_def or_default_def)
qed

definition demo_event :: event where
  "demo_event =
     [(''event'', Log_str ''key sk-x failed''),
      (''request'', Log_dict [(''headers'', Log_dict [(''Authorization'', Log_str ''Bearer abc'')])]),
      (''keys'', Log_list [Log_str ''sk-x''])]"

text \<open>The header is hidden two levels down; a key in a list is not.\<close>

lemma demo_redacted:
  "log_at (Log_dict (redact demo_redact demo_event)) [''request'', ''headers'', ''Authorization''] =
     Some (Log_str ''<redacted>'')"
  "log_at (Log_dict (redact demo_redact demo_event)) [''event''] = Some (Log_str ''key <redacted> failed'')"
  "log_at (Log_dict (redact demo_redact demo_event)) [''keys''] = Some (Log_list [Log_str ''sk-x''])"
  by code_simp+

theorem redaction_is_on_witness:
  "(\<exists>rp. [Merge_contextvars, Add_log_level, Time_stamper, Redact demo_redact, JSON_renderer] =
      [Merge_contextvars, Add_log_level, Time_stamper, Redact rp, JSON_renderer]) \<and>
   \<not> (\<exists>rp. Redact rp \<in> set [Merge_contextvars, Add_log_level, Time_stamper, JSON_renderer])"
  using redaction_is_on [OF demo_configured(1)] redaction_is_on [OF demo_configured(2)] by simp

end
