(* ===== verification/Seeding.thy ===== *)
theory Seeding
  imports Auth Secrets ConfigStore
begin

text \<open>
  The operator's scripts of \<open>scripts/\<close>: \<open>seed_callers.py\<close>, \<open>seed_config.py\<close> and
  \<open>apply_migrations.py\<close>, and what they leave for the gateway to find. What a script reads (the
  environment, a parsed file), whether the database can be reached and the migrations are
  parameters; an exit code is an integer, 1 also for an exception that ends the script.
\<close>

section \<open>Callers\<close>

text \<open>An entry of \<open>caller-seeding.json\<close>; what it lacks is \<open>None\<close>. Names are ASCII.\<close>

record seed_entry =
  se_name :: "string option"
  se_daily_token_cap :: "int option"
  se_enabled :: "bool option"

definition env_key_name :: "string \<Rightarrow> string" where
  "env_key_name caller_name =
     ''GATEWAY_SEED_KEY_'' @ ascii_upper (replace_char (CHR ''-'') (CHR ''_'') caller_name)"

definition entry_enabled :: "seed_entry \<Rightarrow> bool" where
  "entry_enabled e = (case se_enabled e of None \<Rightarrow> True | Some b \<Rightarrow> b)"

text \<open>The loop of \<open>seed_from_json\<close>: what it prints, how it ends, and the database.\<close>

fun seed_from_json ::
    "(string \<Rightarrow> string \<Rightarrow> string) \<Rightarrow> environ \<Rightarrow> string \<Rightarrow> seed_entry list \<Rightarrow> database \<Rightarrow>
     string list \<times> unit pyres \<times> database" where
  "seed_from_json hmac env pepper [] db = ([], Inr (), db)"
| "seed_from_json hmac env pepper (e # es) db =
     (case se_name e of
        None \<Rightarrow> ([], Inl (KeyError ''name''), db)
      | Some name \<Rightarrow>
          (case map_of env (env_key_name name) of
             None \<Rightarrow>
               (let (out, r, db) = seed_from_json hmac env pepper es db
                in ((''WARN: skipping '' @ name @ '': '' @ env_key_name name @ '' not set'') # out, r, db))
           | Some plaintext \<Rightarrow>
               (case hash_api_key hmac plaintext pepper of
                  Inl x \<Rightarrow> ([], Inl x, db)
                | Inr key_hash \<Rightarrow>
                    (case upsert_caller name key_hash (se_daily_token_cap e) (entry_enabled e) db of
                       (Inl x, db) \<Rightarrow> ([], Inl x, db)
                     | (Inr _, db) \<Rightarrow>
                         (let (out, r, db) = seed_from_json hmac env pepper es db
                          in ((''seeded caller='' @ name) # out, r, db))))))"

text \<open>\<open>main\<close>: \<open>reachable\<close> says whether \<open>connect\<close> succeeds.\<close>

definition seed_callers_main ::
    "(string \<Rightarrow> string \<Rightarrow> string) \<Rightarrow> environ \<Rightarrow> bool \<Rightarrow> seed_entry list \<Rightarrow> database \<Rightarrow> int \<times> database" where
  "seed_callers_main hmac env reachable entries db =
     (let pepper = py_strip (env_or env ''GATEWAY_KEY_HASH_PEPPER'' '''')
      in if pepper = '''' then (1, db)
         else if \<not> reachable then (1, db)
         else let (_, r, db) = seed_from_json hmac env pepper entries (db_connect db);
                  db = db_close db
              in (case r of Inr _ \<Rightarrow> (0, db) | Inl _ \<Rightarrow> (1, db)))"

section \<open>The configuration and the migrations\<close>

text \<open>\<open>Config.model_validate\<close> of what the YAML file holds.\<close>

definition model_validate :: "config \<Rightarrow> config pyres" where
  "model_validate data = (if valid_config data then Inr data else Inl (ValidationError ''Config''))"

definition seed_from_yaml ::
    "('c, 'p) config_cache \<Rightarrow> config pyres \<Rightarrow> database \<Rightarrow> 'c \<Rightarrow> unit pyres \<times> database \<times> 'c" where
  "seed_from_yaml cc yaml db c =
     (case rbind yaml model_validate of
        Inl e \<Rightarrow> (Inl e, db, c)
      | Inr cfg \<Rightarrow> write_config cc cfg db c)"

definition exit_code :: "'a pyres \<Rightarrow> int" where
  "exit_code r = (case r of Inl _ \<Rightarrow> 1 | Inr _ \<Rightarrow> 0)"

definition seed_config_main ::
    "('c, 'p) config_cache \<Rightarrow> bool \<Rightarrow> bool \<Rightarrow> bool \<Rightarrow> (database \<Rightarrow> unit pyres \<times> database) \<Rightarrow>
     config pyres \<Rightarrow> database \<Rightarrow> 'c \<Rightarrow> int \<times> database \<times> 'c" where
  "seed_config_main cc yaml_exists reachable redis_up migrate yaml db c =
     (if \<not> yaml_exists then (1, db, c)
      else if \<not> reachable then (1, db, c)
      else (case migrate (db_connect db) of
              (Inl e, db) \<Rightarrow> (1, db_close db, c)
            | (Inr _, db) \<Rightarrow>
                if \<not> redis_up then (1, db_close db, c)
                else let (r, db, c) = seed_from_yaml cc yaml db c in (exit_code r, db_close db, c)))"

definition apply_migrations_main ::
    "bool \<Rightarrow> (database \<Rightarrow> unit pyres \<times> database) \<Rightarrow> database \<Rightarrow> int \<times> database" where
  "apply_migrations_main reachable migrate db =
     (if \<not> reachable then (1, db)
      else let (r, db) = migrate (db_connect db) in (exit_code r, db_close db))"

section \<open>The table after seeding\<close>

text \<open>The row an entry is worth, when its key is in the environment.\<close>

definition seeded_row ::
    "(string \<Rightarrow> string \<Rightarrow> string) \<Rightarrow> environ \<Rightarrow> string \<Rightarrow> seed_entry \<Rightarrow> (string \<times> caller_row) option" where
  "seeded_row hmac env pepper e =
     (case se_name e of
        None \<Rightarrow> None
      | Some name \<Rightarrow> map_option (\<lambda>plaintext. (name,
          \<lparr>cw_key_hash = ''v2:hmac-sha256:'' @ hmac pepper plaintext,
           cw_daily_token_cap = se_daily_token_cap e, cw_enabled = entry_enabled e\<rparr>))
          (map_of env (env_key_name name)))"

abbreviation store_rows :: "(string \<times> caller_row) list \<Rightarrow> (string, caller_row) pydict \<Rightarrow> (string, caller_row) pydict"
  where
  "store_rows \<equiv> fold (\<lambda>(n, row). AList.update n row)"

lemma seed_from_json_rows:
  assumes "seed_from_json hmac env pepper es db = (out, Inr (), db')"
  shows "db' = db\<lparr>db_callers := store_rows (List.map_filter (seeded_row hmac env pepper) es) (db_callers db)\<rparr>"
  using assms
proof (induction es arbitrary: db out)
  case Nil
  then show ?case by (simp add: List.map_filter_def)
next
  case (Cons e es)
  then obtain name where name: "se_name e = Some name" by (auto split: option.splits)
  show ?case
  proof (cases "map_of env (env_key_name name)")
    case None
    with Cons name show ?thesis
      by (auto simp: seeded_row_def split: prod.splits)
  next
    case (Some plaintext)
    with Cons.prems name obtain out1 db1 where
      row: "upsert_caller name (''v2:hmac-sha256:'' @ hmac pepper plaintext) (se_daily_token_cap e)
        (entry_enabled e) db = (Inr (), db1)"
      and rest: "seed_from_json hmac env pepper es db1 = (out1, Inr (), db')"
      by (auto simp: hash_api_key_def split: sum.splits prod.splits if_splits)
    from row have "db1 = db\<lparr>db_callers := AList.update name
        \<lparr>cw_key_hash = ''v2:hmac-sha256:'' @ hmac pepper plaintext,
         cw_daily_token_cap = se_daily_token_cap e, cw_enabled = entry_enabled e\<rparr> (db_callers db)\<rparr>"
      by (auto simp: upsert_caller_def with_pool_def split: if_splits)
    with Cons.IH [OF rest] name Some show ?thesis
      by (simp add: seeded_row_def)
  qed
qed

text \<open>When a run fits, so does a run on any open database: nothing depends on the rows.\<close>

lemma seed_from_json_again:
  assumes "seed_from_json hmac env pepper es db = (out, Inr (), db')"
    and "db_connected db = db_connected db2"
  shows "\<exists>db2'. seed_from_json hmac env pepper es db2 = (out, Inr (), db2')"
  using assms
proof (induction es arbitrary: db db2 out)
  case (Cons e es)
  then obtain name where name: "se_name e = Some name" by (auto split: option.splits)
  show ?case
  proof (cases "map_of env (env_key_name name)")
    case None
    with Cons.prems name obtain out1 where
      "seed_from_json hmac env pepper es db = (out1, Inr (), db')"
      by (auto split: prod.splits)
    from Cons.IH [OF this Cons.prems(2)] Cons.prems(1) name None show ?thesis
      using \<open>seed_from_json hmac env pepper es db = (out1, Inr (), db')\<close> by auto
  next
    case (Some plaintext)
    obtain key_hash where hash: "hash_api_key hmac plaintext pepper = Inr key_hash"
      using Cons.prems(1) name Some by (cases "hash_api_key hmac plaintext pepper") auto
    obtain r db1 where row: "upsert_caller name key_hash (se_daily_token_cap e) (entry_enabled e) db = (r, db1)"
      by force
    obtain r2 db3 where row2: "upsert_caller name key_hash (se_daily_token_cap e) (entry_enabled e) db2 = (r2, db3)"
      by force
    have r: "r = Inr ()" using Cons.prems(1) name Some hash row by (cases r) auto
    have same: "r2 = Inr ()" "db_connected db1 = db_connected db3"
      using row row2 r Cons.prems(2)
      by (auto simp: upsert_caller_def with_pool_def split: if_splits)
    obtain out1 where rest: "seed_from_json hmac env pepper es db1 = (out1, Inr (), db')"
      and out: "out = (''seeded caller='' @ name) # out1"
      using Cons.prems(1) name Some hash row r by (auto split: prod.splits)
    from Cons.IH [OF rest same(2)] name Some hash row2 same(1) out show ?thesis by auto
  qed
qed simp

section \<open>Tables as association lists\<close>

lemma map_of_store: "map_of (store_rows kvs d) = map_of d ++ map_of (rev kvs)"
  by (induction kvs arbitrary: d) auto

lemma keys_store_rows: "fst ` set (store_rows kvs d) = fst ` set kvs \<union> fst ` set d"
  by (induction kvs arbitrary: d) (simp_all add: dom_update split_beta)

lemma update_present: "k \<in> fst ` set d \<Longrightarrow> map fst (AList.update k v d) = map fst d"
  by (induction d) auto

lemma store_present: "fst ` set kvs \<subseteq> fst ` set d \<Longrightarrow> map fst (store_rows kvs d) = map fst d"
proof (induction kvs arbitrary: d)
  case (Cons kv kvs)
  obtain k v where kv: "kv = (k, v)" by force
  have keys: "map fst (AList.update k v d) = map fst d" using Cons.prems by (simp add: kv update_present)
  then have "fst ` set (AList.update k v d) = fst ` set d" by (metis list.set_map)
  with Cons.IH [of "AList.update k v d"] Cons.prems keys show ?case by (simp add: kv)
qed simp

lemma table_eqI:
  assumes "map fst xs = map fst ys" and "distinct (map fst xs)" and "map_of xs = map_of ys"
  shows "xs = ys"
proof -
  have canonical: "map (\<lambda>k. (k, the (map_of zs k))) (map fst zs) = zs" if "distinct (map fst zs)"
    for zs :: "('a \<times> 'b) list"
    unfolding map_map using that by (intro map_idI) (auto simp: map_of_is_SomeI)
  from canonical [of xs] canonical [of ys] assms show ?thesis by simp
qed

lemma store_twice:
  assumes "distinct (map fst d)"
  shows "store_rows kvs (store_rows kvs d) = store_rows kvs d"
proof (rule table_eqI)
  show keys: "map fst (store_rows kvs (store_rows kvs d)) = map fst (store_rows kvs d)"
    by (rule store_present) (simp add: keys_store_rows)
  show "distinct (map fst (store_rows kvs (store_rows kvs d)))"
    unfolding keys by (rule distinct_fold_update [OF assms])
  show "map_of (store_rows kvs (store_rows kvs d)) = map_of (store_rows kvs d)"
    by (simp add: map_of_store map_add_def fun_eq_iff split: option.split)
qed

lemma seeded_names:
  "set (map fst (List.map_filter (seeded_row hmac env pepper) es)) \<subseteq> {n. Some n \<in> set (map se_name es)}"
  by (induction es) (auto simp: seeded_row_def split: option.splits)

lemma distinct_seeded:
  "distinct (map se_name es) \<Longrightarrow> distinct (map fst (List.map_filter (seeded_row hmac env pepper) es))"
proof (induction es)
  case (Cons e es)
  show ?case
  proof (cases "seeded_row hmac env pepper e")
    case None
    with Cons show ?thesis by simp
  next
    case (Some kv)
    then have "se_name e = Some (fst kv)" by (auto simp: seeded_row_def split: option.splits)
    with Cons.prems have "Some (fst kv) \<notin> set (map se_name es)" by simp
    then have "fst kv \<notin> set (map fst (List.map_filter (seeded_row hmac env pepper) es))"
      using seeded_names [of hmac env pepper es] by blast
    with Cons Some show ?thesis by simp
  qed
qed simp

lemma map_filter_mem: "x \<in> set xs \<Longrightarrow> f x = Some y \<Longrightarrow> y \<in> set (List.map_filter f xs)"
  by (induction xs) (auto split: option.splits)

lemma seeded_lookup:
  assumes "seed_from_json hmac env pepper es db = (out, Inr (), db')" and "distinct (map se_name es)"
    and "e \<in> set es" and "seeded_row hmac env pepper e = Some (n, row)"
  shows "map_of (db_callers db') n = Some row"
proof -
  let ?rows = "List.map_filter (seeded_row hmac env pepper) es"
  have "map_of ?rows n = Some row"
    using map_filter_mem [where f = "seeded_row hmac env pepper", OF assms(3,4)] distinct_seeded [OF assms(2)]
    by (simp add: map_of_is_SomeI)
  then show ?thesis
    by (simp add: seed_from_json_rows [OF assms(1)] map_of_fold_update [OF distinct_seeded [OF assms(2)]])
qed

lemma find_SomeD: "find P xs = Some x \<Longrightarrow> x \<in> set xs \<and> P x"
  by (induction xs) (auto split: if_splits)

section \<open>What seeding promises\<close>

text \<open>Seeding can be repeated: a second run with the same file and environment prints the same
  and leaves every table as the first one did.\<close>

theorem seeding_is_idempotent:
  assumes "distinct (map fst (db_callers db))"
    and "seed_from_json hmac env pepper es db = (out, Inr (), db')"
  shows "seed_from_json hmac env pepper es db' = (out, Inr (), db')"
proof -
  have db': "db' = db\<lparr>db_callers := store_rows (List.map_filter (seeded_row hmac env pepper) es) (db_callers db)\<rparr>"
    by (rule seed_from_json_rows [OF assms(2)])
  then obtain db2 where again: "seed_from_json hmac env pepper es db' = (out, Inr (), db2)"
    using seed_from_json_again [OF assms(2), of db'] by auto
  have "db2 = db'"
    unfolding seed_from_json_rows [OF again] db' using store_twice [OF assms(1)] by simp
  with again show ?thesis by simp
qed

lemma bearer_token_of: "key \<noteq> '''' \<Longrightarrow> py_strip key = key \<Longrightarrow> bearer_token (Some (''Bearer '' @ key)) = Some key"
  by (simp add: bearer_token_def starts_with_def)

lemma seed_callers_main_cases:
  assumes "seed_callers_main hmac env reachable entries db = (0, db')"
  obtains out db1 where
    "seed_from_json hmac env (py_strip (env_or env ''GATEWAY_KEY_HASH_PEPPER'' '''')) entries (db_connect db)
       = (out, Inr (), db1)"
    "db' = db_close db1" "py_strip (env_or env ''GATEWAY_KEY_HASH_PEPPER'' '''') \<noteq> ''''"
  using assms that
  by (auto simp: seed_callers_main_def Let_def split: if_splits prod.splits sum.splits)

lemma fresh_lookup:
  assumes "bearer_token header = Some key" and "pepper \<noteq> ''''"
  shows "fst (resolve_bearer (db_resolver hmac pepper) header [] db) =
    (case fst (caller_by_key_hash (''v2:hmac-sha256:'' @ hmac pepper key) db) of
       Inl e \<Rightarrow> Inl e | Inr c \<Rightarrow> Inr (enabled_only c))"
  using assms
  by (simp add: resolve_bearer_def db_resolver_def hash_api_key_def cache_get_def
      split: prod.splits sum.splits)


lemma store_values: "(n, row) \<in> set (store_rows kvs d) \<Longrightarrow> row \<in> snd ` set kvs \<union> snd ` set d"
proof (induction kvs arbitrary: d)
  case (Cons kv kvs)
  obtain k v where kv: "kv = (k, v)" by force
  have "set (AList.update k v d) \<subseteq> insert (k, v) (set d)" by (induction d) auto
  with Cons.IH [of "AList.update k v d"] Cons.prems show ?case by (force simp: kv)
qed force


text \<open>After a seeding of the configuration that exits with 0 the gateway can load one: the file held
  a valid configuration, what \<open>load_from_db\<close> reads from the tables has its routing settings, the
  cached copy is gone and the pool is closed.\<close>

theorem seeded_config_loads:
  assumes "collating co" and "tables_ok (db_connect db)"
    and "\<forall>d d'. migrate d = (Inr (), d') \<and> tables_ok d \<longrightarrow> tables_ok d'"
    and "seed_config_main cc yaml_exists reachable redis_up migrate yaml db c = (0, db', c')"
  shows "\<exists>data cfg. yaml = Inr data \<and> valid_config data \<and> load_from_db co (db_connect db') = Inr cfg \<and>
    cfg_routing cfg = cfg_routing data \<and> c' = cc_delete cc c \<and> \<not> db_connected db'"
proof -
  from assms(4) obtain db1 db2 data where migrated: "migrate (db_connect db) = (Inr (), db1)"
    and yaml: "yaml = Inr data" "valid_config data"
    and written: "write_config cc data db1 c = (Inr (), db2, c')" and db': "db' = db_close db2"
    by (auto simp: seed_config_main_def seed_from_yaml_def model_validate_def exit_code_def rbind_eq_Inl
        split: if_splits prod.splits sum.splits)
  have ok1: "tables_ok db1" using assms(2,3) migrated by blast
  then have conn: "db_connected db1" by (simp add: tables_ok_def)
  from written have fits: "routing_fits (cfg_routing data)"
    and db2: "db2 = (written_tables data db1)\<lparr>db_routing := Some (cfg_routing data)\<rparr>" and c': "c' = cc_delete cc c"
    by (auto simp: write_config_def write_to_db_eq [OF conn] split: if_splits)
  have "tables_ok (db_connect db')"
    using written_tables_ok [OF ok1 yaml(2)] by (simp add: db' db2 gw_defs tables_ok_def)
  from collating.load_from_db_eq [OF assms(1) this _ valid_config_routing [OF yaml(2)]]
  have "load_from_db co (db_connect db') = Inr (loaded co (db_connect db') (cfg_routing data))"
    by (simp add: db' db2 gw_defs)
  with yaml c' show ?thesis by (simp add: loaded_def db' db_close_def)
qed

section \<open>Seeding a gateway\<close>

text \<open>
  Two entries, one of which has no key in the environment; a hash that shows the length of its
  pepper.
\<close>

definition demo_hash :: "string \<Rightarrow> string \<Rightarrow> string" where
  "demo_hash pepper key = str_int (int (length pepper)) @ CHR '':'' # pepper @ key"

definition demo_entries :: "seed_entry list" where
  "demo_entries =
     [\<lparr>se_name = Some ''search-svc'', se_daily_token_cap = Some 1000, se_enabled = None\<rparr>,
      \<lparr>se_name = Some ''dev'', se_daily_token_cap = None, se_enabled = Some True\<rparr>]"

definition seed_env :: "string \<Rightarrow> environ" where
  "seed_env pepper = [(''GATEWAY_KEY_HASH_PEPPER'', pepper), (''GATEWAY_SEED_KEY_SEARCH_SVC'', ''k-1'')]"

definition search_row :: caller_row where
  "search_row = \<lparr>cw_key_hash = ''v2:hmac-sha256:4:saltk-1'', cw_daily_token_cap = Some 1000, cw_enabled = True\<rparr>"

lemma demo_seed:
  "seed_from_json demo_hash (seed_env ''salt'') ''salt'' demo_entries demo_db =
     ([''seeded caller=search-svc'', ''WARN: skipping dev: GATEWAY_SEED_KEY_DEV not set''], Inr (),
      demo_db\<lparr>db_callers := [(''search-svc'', search_row)]\<rparr>)"
  "seed_callers_main demo_hash (seed_env ''salt '') True demo_entries demo_db =
     (0, demo_db\<lparr>db_callers := [(''search-svc'', search_row)], db_connected := False\<rparr>)"
proof -
  have names: "env_key_name ''search-svc'' = ''GATEWAY_SEED_KEY_SEARCH_SVC''"
    "env_key_name ''dev'' = ''GATEWAY_SEED_KEY_DEV''" "demo_hash ''salt'' ''k-1'' = ''4:saltk-1''" "int8 1000"
    and strip: "py_strip ''salt '' = ''salt''"
    by code_simp+
  have loop: "seed_from_json demo_hash (seed_env p) ''salt'' demo_entries demo_db =
     ([''seeded caller=search-svc'', ''WARN: skipping dev: GATEWAY_SEED_KEY_DEV not set''], Inr (),
      demo_db\<lparr>db_callers := [(''search-svc'', search_row)]\<rparr>)" for p
    by (simp add: demo_entries_def seed_env_def names hash_api_key_def upsert_caller_def with_pool_def
        demo_db_def search_row_def entry_enabled_def)
  from this [of "''salt''"] show "seed_from_json demo_hash (seed_env ''salt'') ''salt'' demo_entries demo_db =
     ([''seeded caller=search-svc'', ''WARN: skipping dev: GATEWAY_SEED_KEY_DEV not set''], Inr (),
      demo_db\<lparr>db_callers := [(''search-svc'', search_row)]\<rparr>)" .
  have "env_or (seed_env ''salt '') ''GATEWAY_KEY_HASH_PEPPER'' '''' = ''salt ''" "db_connect demo_db = demo_db"
    by (simp_all add: env_or_def seed_env_def db_connect_def demo_db_def)
  then show "seed_callers_main demo_hash (seed_env ''salt '') True demo_entries demo_db =
     (0, demo_db\<lparr>db_callers := [(''search-svc'', search_row)], db_connected := False\<rparr>)"
    by (simp add: seed_callers_main_def strip loop db_close_def)
qed

theorem seeding_is_idempotent_witness:
  "seed_from_json demo_hash (seed_env ''salt'') ''salt'' demo_entries (demo_db\<lparr>db_callers := [(''search-svc'', search_row)]\<rparr>) =
     ([''seeded caller=search-svc'', ''WARN: skipping dev: GATEWAY_SEED_KEY_DEV not set''], Inr (),
      demo_db\<lparr>db_callers := [(''search-svc'', search_row)]\<rparr>)"
  by (rule seeding_is_idempotent [OF _ demo_seed(1)]) (simp add: demo_db_def)



theorem seeded_config_loads_witness:
  "\<exists>cfg. load_from_db c_collation (db_connect (fst (snd (seed_config_main plain_cache True True True
     (Pair (Inr ())) (Inr demo_config) (db_close demo_tables) None)))) = Inr cfg \<and>
   cfg_routing cfg = default_routing_config"
proof -
  obtain code db' c' where main: "seed_config_main plain_cache True True True (Pair (Inr ())) (Inr demo_config)
      (db_close demo_tables) None = (code, db', c')"
    by (metis surj_pair)
  have "db_connect (db_close demo_tables) = demo_tables" and conn: "db_connected demo_tables"
    by (simp_all add: gw_defs demo_tables_def demo_db_def)
  then have ok: "tables_ok (db_connect (db_close demo_tables))" using demo_config_facts(1) by simp
  have "code = 0"
    using main \<open>db_connect (db_close demo_tables) = demo_tables\<close> demo_config_facts(2,3)
    by (simp add: seed_config_main_def seed_from_yaml_def model_validate_def write_config_def
        write_to_db_eq [OF conn] exit_code_def)
  from seeded_config_loads [OF c_order.collating_axioms ok _ main [unfolded this]]
  obtain cfg where "load_from_db c_collation (db_connect db') = Inr cfg"
    and "cfg_routing cfg = cfg_routing demo_config"
    by auto
  moreover have "cfg_routing demo_config = default_routing_config" by (simp add: demo_config_def)
  ultimately show ?thesis by (simp add: main)
qed

end
