(* ===== verification/Refill.thy ===== *)
theory Refill
  imports ConfigStore
begin

text \<open>
  \<open>ConfigStore.load_or_refresh\<close>, \<open>ConfigStore.write\<close> and the reload task of \<open>ConfigHolder\<close> as
  tasks of one event loop, from one \<open>await\<close> to the next, with the refill lock between them.
  The lock is the queue of the tasks that have come to \<open>async with self._refill_lock\<close>: its head
  holds it, and \<open>asyncio.Lock\<close> hands it on in order of arrival. A write takes no lock, so it
  may as well run in another process, as that of \<open>scripts/seed_config.py\<close>.
\<close>

section \<open>Tasks\<close>

text \<open>
  \<open>Plain\<close> is \<open>load_or_refresh()\<close>, \<open>Forced\<close> is \<open>load_or_refresh(force=True)\<close>, and \<open>Reloading\<close> is
  \<open>_do_reload\<close>, which forces a load and puts its result into the holder.
\<close>

datatype load_kind = Plain | Forced | Reloading

text \<open>Where a load stands: what it does next, or how it ended.\<close>

datatype load_pc =
    Begin
  | Missed
  | Queued
  | Recheck
  | ReadRouting
  | ReadTiers routing_config
  | ReadModels routing_config "(string \<times> string option) list"
  | Fill config
  | Loaded "config pyres"

text \<open>Where \<open>write\<close> stands: the tiers and providers that are left, with the map collected so far.\<close>

datatype write_pc =
    WriteTiers "(string, tier_config) pydict" "(string, tier_map) pydict"
  | WriteModels "(string, tier_map) pydict"
  | WriteRouting
  | Bust
  | Wrote "unit pyres"

datatype config_task = Load load_kind load_pc | Write config write_pc

definition loading :: "load_kind \<Rightarrow> config_task" where
  "loading k = Load k Begin"

definition writing :: "config \<Rightarrow> config_task" where
  "writing cfg = Write cfg (WriteTiers (cfg_tiers cfg) [])"

text \<open>\<open>rf_reads\<close> counts the loads that have gone to the tables.\<close>

record 'c refill =
  rf_db :: database
  rf_cache :: 'c
  rf_queue :: "nat list"
  rf_tasks :: "config_task list"
  rf_held :: config
  rf_reads :: nat

definition refill_start :: "database \<Rightarrow> 'c \<Rightarrow> config \<Rightarrow> config_task list \<Rightarrow> 'c refill" where
  "refill_start db c held tasks =
     \<lparr>rf_db = db, rf_cache = c, rf_queue = [], rf_tasks = tasks, rf_held = held, rf_reads = 0\<rparr>"

section \<open>Steps\<close>

definition goto :: "nat \<Rightarrow> config_task \<Rightarrow> 'c refill \<Rightarrow> 'c refill" where
  "goto t task s = s\<lparr>rf_tasks := (rf_tasks s)[t := task]\<rparr>"

text \<open>Coming to \<open>async with self._refill_lock\<close>.\<close>

definition queue_up :: "nat \<Rightarrow> load_kind \<Rightarrow> 'c refill \<Rightarrow> 'c refill" where
  "queue_up t k s = goto t (Load k Queued) (s\<lparr>rf_queue := rf_queue s @ [t]\<rparr>)"

text \<open>
  The end of the block, by return or by exception: the lock goes to the next task, and the
  reload task assigns what it has loaded, or logs the exception.
\<close>

definition load_ends :: "nat \<Rightarrow> load_kind \<Rightarrow> config pyres \<Rightarrow> 'c refill \<Rightarrow> 'c refill" where
  "load_ends t k r s =
     goto t (Load k (Loaded r))
       (s\<lparr>rf_queue := tl (rf_queue s),
          rf_held := (case r of Inr cfg \<Rightarrow> if k = Reloading then cfg else rf_held s | Inl _ \<Rightarrow> rf_held s)\<rparr>)"

fun load_step ::
    "('c, 'p) config_cache \<Rightarrow> collation \<Rightarrow> nat \<Rightarrow> load_kind \<Rightarrow> load_pc \<Rightarrow> 'c refill \<Rightarrow> 'c refill option" where
  "load_step cc co t k Begin s =
     (if k \<noteq> Plain then Some (queue_up t k s)
      else case cached_config cc (rf_cache s) of
             Some cfg \<Rightarrow> Some (goto t (Load k (Loaded (Inr cfg))) s)
           | None \<Rightarrow> Some (goto t (Load k Missed) s))"
| "load_step cc co t k Missed s = Some (queue_up t k s)"
| "load_step cc co t k Queued s =
     (case rf_queue s of
        [] \<Rightarrow> None
      | first # _ \<Rightarrow>
          if first = t then Some (goto t (Load k (if k = Plain then Recheck else ReadRouting)) s)
          else None)"
| "load_step cc co t k Recheck s =
     (case cached_config cc (rf_cache s) of
        Some cfg \<Rightarrow> Some (load_ends t k (Inr cfg) s)
      | None \<Rightarrow> Some (goto t (Load k ReadRouting) s))"
| "load_step cc co t k ReadRouting s =
     (let s = s\<lparr>rf_reads := Suc (rf_reads s)\<rparr>
      in case fst (fetch_routing_config (rf_db s)) of
           Inl e \<Rightarrow> Some (load_ends t k (Inl e) s)
         | Inr None \<Rightarrow>
             Some (load_ends t k (Inl (ConfigStoreError ''routing_config table has no row'')) s)
         | Inr (Some routing) \<Rightarrow> Some (goto t (Load k (ReadTiers routing)) s))"
| "load_step cc co t k (ReadTiers routing) s =
     (case fst (fetch_tiers co (rf_db s)) of
        Inl e \<Rightarrow> Some (load_ends t k (Inl e) s)
      | Inr tier_rows \<Rightarrow> Some (goto t (Load k (ReadModels routing tier_rows)) s))"
| "load_step cc co t k (ReadModels routing tier_rows) s =
     (case fst (fetch_tier_models co (rf_db s)) of
        Inl e \<Rightarrow> Some (load_ends t k (Inl e) s)
      | Inr tier_model_rows \<Rightarrow>
          (case assemble_config routing tier_rows tier_model_rows of
             Inl e \<Rightarrow> Some (load_ends t k (Inl e) s)
           | Inr cfg \<Rightarrow> Some (goto t (Load k (Fill cfg)) s)))"
| "load_step cc co t k (Fill cfg) s =
     Some (load_ends t k (Inr cfg) (s\<lparr>rf_cache := write_to_redis cc cfg (rf_cache s)\<rparr>))"
| "load_step cc co t k (Loaded r) s = None"

text \<open>
  The upserts of \<open>write\<close>, each in a transaction of its own, and the \<open>DEL\<close> after the last. The end
  of a loop is a step of its own, which touches nothing that is shared.
\<close>

fun write_step ::
    "('c, 'p) config_cache \<Rightarrow> nat \<Rightarrow> config \<Rightarrow> write_pc \<Rightarrow> 'c refill \<Rightarrow> 'c refill option" where
  "write_step cc t cfg (WriteTiers [] pm) s = Some (goto t (Write cfg (WriteModels pm)) s)"
| "write_step cc t cfg (WriteTiers ((tier_name, tier_cfg) # tiers) pm) s =
     (case upsert_tier tier_name None (rf_db s) of
        (Inl e, db) \<Rightarrow> Some (goto t (Write cfg (Wrote (Inl e))) (s\<lparr>rf_db := db\<rparr>))
      | (Inr _, db) \<Rightarrow>
          Some (goto t (Write cfg (WriteTiers tiers
              (fold (provider_map_put tier_name) (tc_candidates tier_cfg) pm))) (s\<lparr>rf_db := db\<rparr>)))"
| "write_step cc t cfg (WriteModels []) s = Some (goto t (Write cfg WriteRouting) s)"
| "write_step cc t cfg (WriteModels ((provider, tier_cfg_map) # pm)) s =
     (case upsert_tier_models provider tier_cfg_map (rf_db s) of
        (Inl e, db) \<Rightarrow> Some (goto t (Write cfg (Wrote (Inl e))) (s\<lparr>rf_db := db\<rparr>))
      | (Inr _, db) \<Rightarrow> Some (goto t (Write cfg (WriteModels pm)) (s\<lparr>rf_db := db\<rparr>)))"
| "write_step cc t cfg WriteRouting s =
     (case upsert_routing_config (cfg_routing cfg) (rf_db s) of
        (Inl e, db) \<Rightarrow> Some (goto t (Write cfg (Wrote (Inl e))) (s\<lparr>rf_db := db\<rparr>))
      | (Inr _, db) \<Rightarrow> Some (goto t (Write cfg Bust) (s\<lparr>rf_db := db\<rparr>)))"
| "write_step cc t cfg Bust s =
     Some (goto t (Write cfg (Wrote (Inr ()))) (s\<lparr>rf_cache := cc_delete cc (rf_cache s)\<rparr>))"
| "write_step cc t cfg (Wrote r) s = None"

text \<open>One step of the task \<open>t\<close>; \<open>None\<close> if it has ended or waits for the lock.\<close>

definition refill_step ::
    "('c, 'p) config_cache \<Rightarrow> collation \<Rightarrow> nat \<Rightarrow> 'c refill \<Rightarrow> 'c refill option" where
  "refill_step cc co t s =
     (if t < length (rf_tasks s)
      then case rf_tasks s ! t of
             Load k pc \<Rightarrow> load_step cc co t k pc s
           | Write cfg pc \<Rightarrow> write_step cc t cfg pc s
      else None)"

text \<open>A schedule: which task goes on, or how much of the cache's time passes.\<close>

datatype moment = Turn nat | Pause rat

fun refill_run ::
    "('c, 'p) config_cache \<Rightarrow> (rat \<Rightarrow> 'c \<Rightarrow> 'c) \<Rightarrow> collation \<Rightarrow> moment list \<Rightarrow> 'c refill \<Rightarrow> 'c refill option" where
  "refill_run cc pass co [] s = Some s"
| "refill_run cc pass co (Turn t # ms) s = Option.bind (refill_step cc co t s) (refill_run cc pass co ms)"
| "refill_run cc pass co (Pause d # ms) s = refill_run cc pass co ms (s\<lparr>rf_cache := pass d (rf_cache s)\<rparr>)"

section \<open>Who has the lock\<close>

fun inside :: "config_task \<Rightarrow> bool" where
  "inside (Load k pc) \<longleftrightarrow> (case pc of
     Recheck \<Rightarrow> True | ReadRouting \<Rightarrow> True | ReadTiers _ \<Rightarrow> True | ReadModels _ _ \<Rightarrow> True
   | Fill _ \<Rightarrow> True | _ \<Rightarrow> False)"
| "inside (Write cfg pc) \<longleftrightarrow> False"

fun waits :: "config_task \<Rightarrow> bool" where
  "waits (Load k pc) \<longleftrightarrow> pc = Queued"
| "waits (Write cfg pc) \<longleftrightarrow> False"

fun ended :: "config_task \<Rightarrow> bool" where
  "ended (Load k pc) \<longleftrightarrow> (\<exists>r. pc = Loaded r)"
| "ended (Write cfg pc) \<longleftrightarrow> (\<exists>r. pc = Wrote r)"

definition lock_inv :: "'c refill \<Rightarrow> bool" where
  "lock_inv s \<longleftrightarrow>
     distinct (rf_queue s) \<and>
     (\<forall>t. t \<in> set (rf_queue s) \<longleftrightarrow>
        t < length (rf_tasks s) \<and> (inside (rf_tasks s ! t) \<or> waits (rf_tasks s ! t))) \<and>
     (\<forall>t < length (rf_tasks s). inside (rf_tasks s ! t) \<longrightarrow> hd (rf_queue s) = t)"

text \<open>What a step does to the lock and to the task that takes it.\<close>

lemma refill_step_cases:
  assumes "refill_step cc co t s = Some s'"
  obtains (stays) task' where "t < length (rf_tasks s)" "rf_tasks s' = (rf_tasks s)[t := task']"
      "rf_queue s' = rf_queue s"
      "inside task' \<or> waits task' \<longleftrightarrow> inside (rf_tasks s ! t) \<or> waits (rf_tasks s ! t)"
      "inside task' \<Longrightarrow> inside (rf_tasks s ! t) \<or> (\<exists>q. rf_queue s = t # q)"
  | (comes) k where "t < length (rf_tasks s)" "rf_tasks s' = (rf_tasks s)[t := Load k Queued]"
      "rf_queue s' = rf_queue s @ [t]" "\<not> inside (rf_tasks s ! t)" "\<not> waits (rf_tasks s ! t)"
  | (leaves) k r where "t < length (rf_tasks s)" "rf_tasks s' = (rf_tasks s)[t := Load k (Loaded r)]"
      "rf_queue s' = tl (rf_queue s)" "inside (rf_tasks s ! t)"
proof (cases "rf_tasks s ! t")
  case (Load k pc)
  with assms have t: "t < length (rf_tasks s)" and "load_step cc co t k pc s = Some s'"
    by (simp_all add: refill_step_def split: if_splits)
  then show ?thesis
    using that Load
    by (cases pc)
      (force simp: goto_def queue_up_def load_ends_def Let_def
        split: if_splits option.splits sum.splits list.splits)+
next
  case (Write cfg pc)
  with assms have t: "t < length (rf_tasks s)" and "write_step cc t cfg pc s = Some s'"
    by (simp_all add: refill_step_def split: if_splits)
  then have "\<exists>pc'. rf_tasks s' = (rf_tasks s)[t := Write cfg pc'] \<and> rf_queue s' = rf_queue s"
    by (cases "(cc, t, cfg, pc, s)" rule: write_step.cases)
      (auto simp: goto_def split: prod.splits sum.splits)
  with t Write show ?thesis using that(1) by auto
qed

lemma lock_inv_step:
  assumes "refill_step cc co t s = Some s'" and "lock_inv s"
  shows "lock_inv s'"
  using assms(1)
proof (cases rule: refill_step_cases)
  case (stays task')
  have nth: "rf_tasks s' ! u = (if u = t then task' else rf_tasks s ! u)" for u
    using stays(1,2) by simp
  have line: "u \<in> set (rf_queue s) \<longleftrightarrow>
      u < length (rf_tasks s) \<and> (inside (rf_tasks s' ! u) \<or> waits (rf_tasks s' ! u))" for u
    using assms(2) stays(4) unfolding lock_inv_def nth by auto
  have "hd (rf_queue s) = u" if "u < length (rf_tasks s)" "inside (rf_tasks s' ! u)" for u
    using that assms(2) stays(5) unfolding lock_inv_def nth by (cases "u = t") auto
  moreover have "distinct (rf_queue s)" "rf_queue s' = rf_queue s" "length (rf_tasks s') = length (rf_tasks s)"
    using assms(2) stays(2,3) by (simp_all add: lock_inv_def)
  ultimately show ?thesis using line by (simp add: lock_inv_def)
next
  case (comes k)
  then show ?thesis using assms(2) by (auto simp: lock_inv_def nth_list_update hd_append)
next
  case (leaves k r)
  with assms(2) obtain q where q: "rf_queue s = t # q"
    by (cases "rf_queue s") (auto simp: lock_inv_def)
  have nth: "rf_tasks s' ! u = (if u = t then Load k (Loaded r) else rf_tasks s ! u)" for u
    using leaves(1,2) by simp
  have "\<not> inside (rf_tasks s' ! u)" if "u < length (rf_tasks s)" for u
    using that assms(2) q unfolding lock_inv_def nth by auto
  moreover have "u \<in> set q \<longleftrightarrow>
      u < length (rf_tasks s) \<and> (inside (rf_tasks s' ! u) \<or> waits (rf_tasks s' ! u))" for u
  proof (cases "u = t")
    case True
    with assms(2) q show ?thesis by (simp add: lock_inv_def nth)
  next
    case False
    then have "u \<in> set q \<longleftrightarrow> u \<in> set (rf_queue s)" by (simp add: q)
    with False assms(2) show ?thesis by (simp add: lock_inv_def nth)
  qed
  moreover have "distinct q" "rf_queue s' = q" "length (rf_tasks s') = length (rf_tasks s)"
    using assms(2) leaves(2,3) q by (simp_all add: lock_inv_def)
  ultimately show ?thesis by (simp add: lock_inv_def)
qed

text \<open>An invariant of the steps and of the cache's time is an invariant of the schedules.\<close>

lemma refill_run_inv:
  assumes "refill_run cc pass co ms s = Some s'" and "P s"
    and "\<And>t s s'. Turn t \<in> set ms \<Longrightarrow> refill_step cc co t s = Some s' \<Longrightarrow> P s \<Longrightarrow> P s'"
    and "\<And>d s. Pause d \<in> set ms \<Longrightarrow> P s \<Longrightarrow> P (s\<lparr>rf_cache := pass d (rf_cache s)\<rparr>)"
  shows "P s'"
  using assms
proof (induction cc pass co ms s rule: refill_run.induct)
  case (2 cc pass co t ms s)
  then obtain s1 where "refill_step cc co t s = Some s1" "refill_run cc pass co ms s1 = Some s'"
    by (auto simp: bind_eq_Some_conv)
  with 2 show ?case by (metis list.set_intros)
next
  case (3 cc pass co d ms s)
  then show ?case by simp
qed simp

lemma lock_inv_run:
  "refill_run cc pass co ms s = Some s' \<Longrightarrow> lock_inv s \<Longrightarrow> lock_inv s'"
  by (rule refill_run_inv [where P = lock_inv]) (auto intro: lock_inv_step, simp_all add: lock_inv_def)

text \<open>Tasks as they are made.\<close>

definition fresh_task :: "config_task \<Rightarrow> bool" where
  "fresh_task task \<longleftrightarrow> (\<exists>k. task = loading k) \<or> (\<exists>cfg. task = writing cfg)"

lemma lock_inv_start:
  "list_all fresh_task tasks \<Longrightarrow> lock_inv (refill_start db c held tasks)"
  by (auto simp: lock_inv_def refill_start_def fresh_task_def loading_def writing_def list_all_length)

section \<open>Every schedule ends\<close>

text \<open>How many steps a task can still take.\<close>

fun load_work :: "load_pc \<Rightarrow> nat" where
  "load_work Begin = 8"
| "load_work Missed = 7"
| "load_work Queued = 6"
| "load_work Recheck = 5"
| "load_work ReadRouting = 4"
| "load_work (ReadTiers _) = 3"
| "load_work (ReadModels _ _) = 2"
| "load_work (Fill _) = 1"
| "load_work (Loaded _) = 0"

fun write_work :: "write_pc \<Rightarrow> nat" where
  "write_work (WriteTiers tiers pm) =
     4 + length pm + sum_list (map (\<lambda>(_, tc). Suc (length (tc_candidates tc))) tiers)"
| "write_work (WriteModels pm) = 3 + length pm"
| "write_work WriteRouting = 2"
| "write_work Bust = 1"
| "write_work (Wrote _) = 0"

fun task_work :: "config_task \<Rightarrow> nat" where
  "task_work (Load _ pc) = load_work pc"
| "task_work (Write _ pc) = write_work pc"

definition all_work :: "config_task list \<Rightarrow> nat" where
  "all_work tasks = sum_list (map task_work tasks)"

lemma length_provider_map_put: "length (provider_map_put n c pm) \<le> Suc (length pm)"
proof -
  have "length (AList.update k v al) \<le> Suc (length al)" for k :: string and v :: tier_map and al
    by (induction al) auto
  then show ?thesis by (simp add: provider_map_put_def)
qed

lemma length_provider_map_puts:
  "length (fold (provider_map_put n) cs pm) \<le> length pm + length cs"
proof (induction cs arbitrary: pm)
  case (Cons c cs)
  show ?case using Cons [of "provider_map_put n c pm"] length_provider_map_put [of n c pm] by simp
qed simp

lemma all_work_update:
  "t < length tasks \<Longrightarrow> task_work task < task_work (tasks ! t) \<Longrightarrow> all_work (tasks[t := task]) < all_work tasks"
  unfolding all_work_def
proof (induction tasks arbitrary: t)
  case (Cons a tasks)
  then show ?case by (cases t) auto
qed simp

lemma step_work:
  assumes "refill_step cc co t s = Some s'"
  shows "all_work (rf_tasks s') < all_work (rf_tasks s)"
proof -
  from assms have t: "t < length (rf_tasks s)" by (simp add: refill_step_def split: if_splits)
  have "\<exists>task. rf_tasks s' = (rf_tasks s)[t := task] \<and> task_work task < task_work (rf_tasks s ! t)"
  proof (cases "rf_tasks s ! t")
    case (Load k pc)
    with assms t have "load_step cc co t k pc s = Some s'" by (simp add: refill_step_def)
    then show ?thesis
      using Load
      by (cases pc)
        (force simp: goto_def queue_up_def load_ends_def Let_def
          split: if_splits option.splits sum.splits list.splits)+
  next
    case (Write cfg pc)
    with assms t have "write_step cc t cfg pc s = Some s'" by (simp add: refill_step_def)
    then show ?thesis
      using Write length_provider_map_puts
      by (cases "(cc, t, cfg, pc, s)" rule: write_step.cases)
        (fastforce simp: goto_def less_Suc_eq_le split: prod.splits sum.splits)+
  qed
  with t show ?thesis using all_work_update by metis
qed

definition turns :: "moment list \<Rightarrow> nat" where
  "turns ms = length (filter (\<lambda>m. \<exists>t. m = Turn t) ms)"

lemma run_work:
  "refill_run cc pass co ms s = Some s' \<Longrightarrow> turns ms + all_work (rf_tasks s') \<le> all_work (rf_tasks s)"
proof (induction cc pass co ms s rule: refill_run.induct)
  case (2 cc pass co t ms s)
  then obtain s1 where s1: "refill_step cc co t s = Some s1" "refill_run cc pass co ms s1 = Some s'"
    by (auto simp: bind_eq_Some_conv)
  from 2(1) [OF s1] step_work [OF s1(1)] show ?case by (simp add: turns_def)
qed (simp_all add: turns_def)

text \<open>A task that has not ended can go on, unless it waits for a task that can.\<close>

lemma step_enabled:
  assumes "t < length (rf_tasks s)" and "\<not> ended (rf_tasks s ! t)" and "\<not> waits (rf_tasks s ! t)"
  shows "refill_step cc co t s \<noteq> None"
proof (cases "rf_tasks s ! t")
  case (Load k pc)
  with assms show ?thesis
    by (cases pc) (auto simp: refill_step_def Let_def split: option.split sum.split)
next
  case (Write cfg pc)
  with assms show ?thesis
    by (cases "(cc, t, cfg, pc, s)" rule: write_step.cases)
      (auto simp: refill_step_def split: prod.split sum.split)
qed

lemma some_step:
  assumes "lock_inv s" and "\<not> list_all ended (rf_tasks s)"
  shows "\<exists>t. refill_step cc co t s \<noteq> None"
proof -
  from assms(2) obtain t where t: "t < length (rf_tasks s)" "\<not> ended (rf_tasks s ! t)"
    by (auto simp: list_all_length)
  show ?thesis
  proof (cases "waits (rf_tasks s ! t)")
    case False
    with t show ?thesis using step_enabled by blast
  next
    case True
    with t assms(1) have "t \<in> set (rf_queue s)" by (simp add: lock_inv_def)
    then obtain u q where q: "rf_queue s = u # q" by (cases "rf_queue s") auto
    with assms(1) have u: "u < length (rf_tasks s)" "inside (rf_tasks s ! u) \<or> waits (rf_tasks s ! u)"
      by (auto simp: lock_inv_def)
    show ?thesis
    proof (cases "rf_tasks s ! u")
      case (Load k pc)
      show ?thesis
      proof (cases "pc = Queued")
        case True
        with Load u q have "refill_step cc co u s \<noteq> None" by (simp add: refill_step_def)
        then show ?thesis ..
      next
        case False
        with u Load have "\<not> ended (rf_tasks s ! u)" "\<not> waits (rf_tasks s ! u)" by auto
        with u show ?thesis using step_enabled by blast
      qed
    qed (use u in auto)
  qed
qed

lemma ended_no_lock: "lock_inv s \<Longrightarrow> list_all ended (rf_tasks s) \<Longrightarrow> rf_queue s = []"
proof (rule ccontr)
  assume inv: "lock_inv s" "list_all ended (rf_tasks s)" and "rf_queue s \<noteq> []"
  then obtain t where "t \<in> set (rf_queue s)" by (cases "rf_queue s") auto
  with inv have t: "t < length (rf_tasks s)" "inside (rf_tasks s ! t) \<or> waits (rf_tasks s ! t)"
    by (auto simp: lock_inv_def)
  moreover from inv t(1) have "ended (rf_tasks s ! t)" by (simp add: list_all_length)
  ultimately show False by (cases "rf_tasks s ! t") auto
qed

section \<open>A task that runs alone\<close>

lemma refill_run_append:
  "refill_run cc pass co (ms @ ms') s = Option.bind (refill_run cc pass co ms s) (refill_run cc pass co ms')"
proof (induction cc pass co ms s rule: refill_run.induct)
  case (2 cc pass co t ms s)
  then show ?case by (cases "refill_step cc co t s") simp_all
qed simp_all

definition alone ::
    "('c, 'p) config_cache \<Rightarrow> collation \<Rightarrow> nat \<Rightarrow> 'c refill \<Rightarrow> 'c refill \<Rightarrow> bool" where
  "alone cc co t s s' \<longleftrightarrow> (\<exists>n. \<forall>pass. refill_run cc pass co (replicate n (Turn t)) s = Some s')"

lemma alone_refl: "alone cc co t s s"
  unfolding alone_def by (rule exI [of _ 0]) simp

lemma alone_step:
  assumes "refill_step cc co t s = Some s1" and "alone cc co t s1 s2"
  shows "alone cc co t s s2"
proof -
  from assms(2) obtain n where "\<forall>pass. refill_run cc pass co (replicate n (Turn t)) s1 = Some s2"
    by (auto simp: alone_def)
  with assms(1) show ?thesis unfolding alone_def by (intro exI [of _ "Suc n"]) simp
qed

lemma alone_trans:
  assumes "alone cc co t s s1" and "alone cc co t s1 s2"
  shows "alone cc co t s s2"
proof -
  from assms obtain m n where "\<forall>pass. refill_run cc pass co (replicate m (Turn t)) s = Some s1"
    and "\<forall>pass. refill_run cc pass co (replicate n (Turn t)) s1 = Some s2"
    by (auto simp: alone_def)
  then show ?thesis
    unfolding alone_def by (intro exI [of _ "m + n"]) (simp add: replicate_add refill_run_append)
qed

lemma goto_simps [simp]:
  "rf_db (goto t task s) = rf_db s" "rf_cache (goto t task s) = rf_cache s"
  "rf_queue (goto t task s) = rf_queue s" "rf_held (goto t task s) = rf_held s"
  "rf_reads (goto t task s) = rf_reads s" "rf_tasks (goto t task s) = (rf_tasks s)[t := task]"
  "goto t task (goto t task' s) = goto t task s"
  by (simp_all add: goto_def)

lemma goto_here: "rf_tasks s ! t = task \<Longrightarrow> goto t task s = s"
  by (auto simp: goto_def)

lemma goto_updates [simp]:
  "(goto t task s)\<lparr>rf_db := db\<rparr> = goto t task (s\<lparr>rf_db := db\<rparr>)"
  "(goto t task s)\<lparr>rf_cache := c\<rparr> = goto t task (s\<lparr>rf_cache := c\<rparr>)"
  "(goto t task s)\<lparr>rf_queue := q\<rparr> = goto t task (s\<lparr>rf_queue := q\<rparr>)"
  "(goto t task s)\<lparr>rf_held := h\<rparr> = goto t task (s\<lparr>rf_held := h\<rparr>)"
  "(goto t task s)\<lparr>rf_reads := n\<rparr> = goto t task (s\<lparr>rf_reads := n\<rparr>)"
  by (simp_all add: goto_def)

text \<open>The state in which \<open>t\<close> has come to a given place.\<close>

lemma step_goto [simp]:
  "t < length (rf_tasks s) \<Longrightarrow>
   refill_step cc co t (goto t (Load k pc) s) = load_step cc co t k pc (goto t (Load k pc) s)"
  "t < length (rf_tasks s) \<Longrightarrow>
   refill_step cc co t (goto t (Write cfg wpc) s) = write_step cc t cfg wpc (goto t (Write cfg wpc) s)"
  by (simp_all add: refill_step_def)

lemma reading_alone:
  assumes t: "t < length (rf_tasks s)"
  shows "load_from_db co (rf_db s) = Inr cfg \<Longrightarrow>
      alone cc co t (goto t (Load k ReadRouting) s) (goto t (Load k (Fill cfg)) (s\<lparr>rf_reads := Suc (rf_reads s)\<rparr>))"
    (is "_ \<Longrightarrow> alone _ _ _ ?s (?fill cfg)")
    and "load_from_db co (rf_db s) = Inl e \<Longrightarrow>
      alone cc co t (goto t (Load k ReadRouting) s) (load_ends t k (Inl e) (s\<lparr>rf_reads := Suc (rf_reads s)\<rparr>))"
    (is "_ \<Longrightarrow> alone _ _ _ _ (?ends e)")
proof -
  let ?counted = "s\<lparr>rf_reads := Suc (rf_reads s)\<rparr>"
  have "alone cc co t ?s (case load_from_db co (rf_db s) of Inr cfg \<Rightarrow> ?fill cfg | Inl e \<Rightarrow> ?ends e)"
  proof (cases "fst (fetch_routing_config (rf_db s))")
    case (Inr row)
    show ?thesis
    proof (cases row)
      case (Some routing)
      have 1: "refill_step cc co t ?s = Some (goto t (Load k (ReadTiers routing)) ?counted)"
        using t Inr Some by simp
      show ?thesis
      proof (cases "fst (fetch_tiers co (rf_db s))")
        case (Inr rows)
        have 2: "refill_step cc co t (goto t (Load k (ReadTiers routing)) ?counted) =
            Some (goto t (Load k (ReadModels routing rows)) ?counted)"
          using t Inr by simp
        have 3: "refill_step cc co t (goto t (Load k (ReadModels routing rows)) ?counted) =
            Some (case load_from_db co (rf_db s) of Inr cfg \<Rightarrow> ?fill cfg | Inl e \<Rightarrow> ?ends e)"
          using t Inr \<open>row = Some routing\<close> \<open>fst (fetch_routing_config (rf_db s)) = Inr row\<close>
          by (simp add: load_from_db_def load_ends_def split: sum.split)
        show ?thesis by (rule alone_step [OF 1 alone_step [OF 2 alone_step [OF 3 alone_refl]]])
      next
        case (Inl e)
        then have 2: "refill_step cc co t (goto t (Load k (ReadTiers routing)) ?counted) =
            Some (case load_from_db co (rf_db s) of Inr cfg \<Rightarrow> ?fill cfg | Inl e \<Rightarrow> ?ends e)"
          using t \<open>row = Some routing\<close> \<open>fst (fetch_routing_config (rf_db s)) = Inr row\<close>
          by (simp add: load_from_db_def load_ends_def)
        show ?thesis by (rule alone_step [OF 1 alone_step [OF 2 alone_refl]])
      qed
    next
      case None
      with t Inr have "refill_step cc co t ?s =
          Some (case load_from_db co (rf_db s) of Inr cfg \<Rightarrow> ?fill cfg | Inl e \<Rightarrow> ?ends e)"
        by (simp add: load_from_db_def load_ends_def)
      then show ?thesis by (rule alone_step [OF _ alone_refl])
    qed
  next
    case (Inl e)
    with t have "refill_step cc co t ?s =
        Some (case load_from_db co (rf_db s) of Inr cfg \<Rightarrow> ?fill cfg | Inl e \<Rightarrow> ?ends e)"
      by (simp add: load_from_db_def load_ends_def)
    then show ?thesis by (rule alone_step [OF _ alone_refl])
  qed
  then show "load_from_db co (rf_db s) = Inr cfg \<Longrightarrow> alone cc co t ?s (?fill cfg)"
    and "load_from_db co (rf_db s) = Inl e \<Longrightarrow> alone cc co t ?s (?ends e)"
    by simp_all
qed

text \<open>A load on its own is \<open>load_or_refresh\<close>, and the holder is what \<open>reload\<close> leaves.\<close>

lemma load_alone:
  assumes t: "t < length (rf_tasks s)" "rf_tasks s ! t = loading k" and "rf_queue s = []"
    and run: "load_or_refresh cc co (k \<noteq> Plain) (rf_db s) (rf_cache s) = (r, c)"
  shows "\<exists>n. alone cc co t s (goto t (Load k (Loaded r)) (s\<lparr>rf_cache := c, rf_reads := n,
    rf_held := (case r of Inr cfg \<Rightarrow> if k = Reloading then cfg else rf_held s | Inl _ \<Rightarrow> rf_held s)\<rparr>))"
proof -
  have s: "s = goto t (Load k Begin) s" using t by (simp add: goto_here loading_def)
  let ?locked = "s\<lparr>rf_queue := [t]\<rparr>"
  let ?read = "goto t (Load k ReadRouting) ?locked"
  have missed: "alone cc co t s ?read" if "k \<noteq> Plain \<or> cached_config cc (rf_cache s) = None"
  proof -
    have "alone cc co t s (goto t (Load k Queued) ?locked)"
    proof (cases "k = Plain")
      case True
      have 1: "refill_step cc co t (goto t (Load k Begin) s) = Some (goto t (Load k Missed) s)"
        using t that True by simp
      have 2: "refill_step cc co t (goto t (Load k Missed) s) = Some (goto t (Load k Queued) ?locked)"
        using t assms(3) by (simp add: queue_up_def)
      show ?thesis using alone_step [OF 1 alone_step [OF 2 alone_refl]] s by simp
    next
      case False
      have "refill_step cc co t (goto t (Load k Begin) s) = Some (goto t (Load k Queued) ?locked)"
        using t False assms(3) by (simp add: queue_up_def)
      then show ?thesis using alone_step [OF _ alone_refl] s by metis
    qed
    moreover have "alone cc co t (goto t (Load k Queued) ?locked) ?read"
    proof (cases "k = Plain")
      case True
      have 1: "refill_step cc co t (goto t (Load k Queued) ?locked) = Some (goto t (Load k Recheck) ?locked)"
        using t True by simp
      have 2: "refill_step cc co t (goto t (Load k Recheck) ?locked) = Some ?read"
        using t that True by simp
      show ?thesis by (rule alone_step [OF 1 alone_step [OF 2 alone_refl]])
    next
      case False
      then have "refill_step cc co t (goto t (Load k Queued) ?locked) = Some ?read" using t by simp
      then show ?thesis by (rule alone_step [OF _ alone_refl])
    qed
    ultimately show ?thesis by (rule alone_trans)
  qed
  have t': "t < length (rf_tasks ?locked)" using t by simp
  from run show ?thesis
  proof (cases rule: load_or_refresh_cases)
    case (hit cfg)
    then have "refill_step cc co t (goto t (Load k Begin) s) = Some (goto t (Load k (Loaded r)) s)"
      using t by simp
    moreover have "goto t (Load k (Loaded r)) (s\<lparr>rf_cache := c, rf_reads := rf_reads s,
        rf_held := (case r of Inr cfg \<Rightarrow> if k = Reloading then cfg else rf_held s | Inl _ \<Rightarrow> rf_held s)\<rparr>) =
        goto t (Load k (Loaded r)) s"
      using hit by simp
    ultimately show ?thesis using alone_step [OF _ alone_refl] s by metis
  next
    case (fails e)
    then have "load_from_db co (rf_db ?locked) = Inl e" by simp
    moreover have "load_ends t k (Inl e) (?locked\<lparr>rf_reads := Suc (rf_reads ?locked)\<rparr>) =
        goto t (Load k (Loaded r)) (s\<lparr>rf_cache := c, rf_reads := Suc (rf_reads s),
          rf_held := (case r of Inr cfg \<Rightarrow> if k = Reloading then cfg else rf_held s | Inl _ \<Rightarrow> rf_held s)\<rparr>)"
      using fails(3,4) assms(3) by (cases s) (simp add: load_ends_def goto_def)
    ultimately show ?thesis using alone_trans [OF missed [OF fails(1)] reading_alone(2) [OF t']] by metis
  next
    case (fills cfg)
    then have load: "load_from_db co (rf_db ?locked) = Inr cfg" by simp
    have "refill_step cc co t (goto t (Load k (Fill cfg)) (?locked\<lparr>rf_reads := Suc (rf_reads s)\<rparr>)) =
        Some (goto t (Load k (Loaded r)) (s\<lparr>rf_cache := c, rf_reads := Suc (rf_reads s),
          rf_held := (case r of Inr cfg \<Rightarrow> if k = Reloading then cfg else rf_held s | Inl _ \<Rightarrow> rf_held s)\<rparr>))"
      using t fills(3,4) assms(3) by (simp add: load_ends_def write_to_redis_def)
    from alone_trans [OF missed [OF fills(1)]
        alone_trans [OF reading_alone(1) [OF t' load] alone_step [OF _ alone_refl]]] this
    show ?thesis by (auto intro!: exI)
  qed
qed

text \<open>The upserts of \<open>write\<close>, loop by loop.\<close>

lemma writing_tiers_alone:
  assumes "t < length (rf_tasks s)" and "write_tiers tiers pm (rf_db s) = (r, db)"
  shows "alone cc co t (goto t (Write cfg (WriteTiers tiers pm)) s)
    (goto t (Write cfg (case r of Inr pm' \<Rightarrow> WriteModels pm' | Inl e \<Rightarrow> Wrote (Inl e))) (s\<lparr>rf_db := db\<rparr>))"
  using assms
proof (induction tiers arbitrary: pm s)
  case Nil
  then show ?case by (auto intro!: alone_step [OF _ alone_refl])
next
  case (Cons tier tiers)
  obtain n tc where tier: "tier = (n, tc)" by force
  obtain r1 db1 where up: "upsert_tier n None (rf_db s) = (r1, db1)" by force
  show ?case
  proof (cases r1)
    case (Inl e)
    with Cons.prems up show ?thesis by (auto simp: tier intro!: alone_step [OF _ alone_refl])
  next
    case (Inr u)
    let ?pm = "fold (provider_map_put n) (tc_candidates tc) pm"
    have "refill_step cc co t (goto t (Write cfg (WriteTiers (tier # tiers) pm)) s) =
        Some (goto t (Write cfg (WriteTiers tiers ?pm)) (s\<lparr>rf_db := db1\<rparr>))"
      using Cons.prems(1) Inr up by (simp add: tier)
    then show ?thesis
      using Cons.IH [of "s\<lparr>rf_db := db1\<rparr>" ?pm] Cons.prems Inr up by (simp add: tier alone_step)
  qed
qed

lemma writing_models_alone:
  assumes "t < length (rf_tasks s)" and "write_models pm (rf_db s) = (r, db)"
  shows "alone cc co t (goto t (Write cfg (WriteModels pm)) s)
    (goto t (Write cfg (case r of Inr _ \<Rightarrow> WriteRouting | Inl e \<Rightarrow> Wrote (Inl e))) (s\<lparr>rf_db := db\<rparr>))"
  using assms
proof (induction pm arbitrary: s)
  case Nil
  then show ?case by (auto intro!: alone_step [OF _ alone_refl])
next
  case (Cons row pm)
  obtain p tm where row: "row = (p, tm)" by force
  obtain r1 db1 where up: "upsert_tier_models p tm (rf_db s) = (r1, db1)" by force
  show ?case
  proof (cases r1)
    case (Inl e)
    with Cons.prems up show ?thesis by (auto simp: row intro!: alone_step [OF _ alone_refl])
  next
    case (Inr u)
    have "refill_step cc co t (goto t (Write cfg (WriteModels (row # pm))) s) =
        Some (goto t (Write cfg (WriteModels pm)) (s\<lparr>rf_db := db1\<rparr>))"
      using Cons.prems(1) Inr up by (simp add: row)
    then show ?thesis
      using Cons.IH [of "s\<lparr>rf_db := db1\<rparr>"] Cons.prems Inr up by (simp add: row alone_step)
  qed
qed

text \<open>A write on its own is \<open>write\<close>.\<close>

lemma write_alone:
  assumes t: "t < length (rf_tasks s)" "rf_tasks s ! t = writing cfg"
    and run: "write_config cc cfg (rf_db s) (rf_cache s) = (r, db, c)"
  shows "alone cc co t s (goto t (Write cfg (Wrote r)) (s\<lparr>rf_db := db, rf_cache := c\<rparr>))"
proof -
  let ?tiers = "goto t (Write cfg (WriteTiers (cfg_tiers cfg) [])) s"
  have s: "s = ?tiers" using t by (simp add: goto_here writing_def)
  obtain r1 db1 where tiers: "write_tiers (cfg_tiers cfg) [] (rf_db s) = (r1, db1)" by force
  note 1 = writing_tiers_alone [OF t(1) tiers, where cc = cc and co = co and cfg = cfg]
  have "alone cc co t ?tiers (goto t (Write cfg (Wrote r)) (s\<lparr>rf_db := db, rf_cache := c\<rparr>))"
  proof (cases r1)
    case (Inl e)
    with 1 run tiers show ?thesis by (auto simp: write_config_def write_to_db_def)
  next
    case (Inr pm)
    let ?s1 = "s\<lparr>rf_db := db1\<rparr>"
    obtain r2 db2 where models: "write_models pm (rf_db ?s1) = (r2, db2)" by force
    from t have t1: "t < length (rf_tasks ?s1)" by simp
    note 2 = alone_trans [OF 1 [unfolded Inr sum.case]
        writing_models_alone [OF t1 models, where cfg = cfg]]
    show ?thesis
    proof (cases r2)
      case (Inl e)
      with 2 run tiers models Inr show ?thesis by (auto simp: write_config_def write_to_db_def)
    next
      case (Inr u)
      let ?s2 = "s\<lparr>rf_db := db2\<rparr>"
      obtain r3 db3 where routing: "upsert_routing_config (cfg_routing cfg) db2 = (r3, db3)" by force
      have "alone cc co t (goto t (Write cfg WriteRouting) ?s2)
          (goto t (Write cfg (Wrote r)) (s\<lparr>rf_db := db, rf_cache := c\<rparr>))"
      proof (cases r3)
        case (Inl e)
        with t routing run tiers models \<open>r1 = Inr pm\<close> \<open>r2 = Inr u\<close> show ?thesis
          by (auto simp: write_config_def write_to_db_def intro!: alone_step [OF _ alone_refl])
      next
        case (Inr v)
        with t routing run tiers models \<open>r1 = Inr pm\<close> \<open>r2 = Inr u\<close> show ?thesis
          by (auto simp: write_config_def write_to_db_def
              intro!: alone_step [OF _ alone_step [OF _ alone_refl]])
      qed
      with 2 Inr show ?thesis by (auto intro: alone_trans)
    qed
  qed
  with s show ?thesis by simp
qed

section \<open>Loads without a writer\<close>

text \<open>What a load has read so far is what the tables hold.\<close>

fun reads_tables :: "collation \<Rightarrow> database \<Rightarrow> config_task \<Rightarrow> bool" where
  "reads_tables co db (Load k pc) \<longleftrightarrow> (case pc of
     ReadTiers routing \<Rightarrow> fst (fetch_routing_config db) = Inr (Some routing)
   | ReadModels routing rows \<Rightarrow>
       fst (fetch_routing_config db) = Inr (Some routing) \<and> fst (fetch_tiers co db) = Inr rows
   | Fill cfg \<Rightarrow> load_from_db co db = Inr cfg
   | Loaded r \<Rightarrow> r = load_from_db co db
   | _ \<Rightarrow> True)"
| "reads_tables co db (Write cfg pc) \<longleftrightarrow> False"

definition caches_tables :: "('c, 'p) config_cache \<Rightarrow> collation \<Rightarrow> database \<Rightarrow> 'c \<Rightarrow> bool" where
  "caches_tables cc co db c \<longleftrightarrow> (\<forall>cfg. cached_config cc c = Some cfg \<longrightarrow> load_from_db co db = Inr cfg)"

definition serves_tables ::
    "('c, 'p) config_cache \<Rightarrow> collation \<Rightarrow> database \<Rightarrow> config \<Rightarrow> 'c refill \<Rightarrow> bool" where
  "serves_tables cc co db held s \<longleftrightarrow> rf_db s = db \<and> list_all (reads_tables co db) (rf_tasks s) \<and>
     caches_tables cc co db (rf_cache s) \<and> (rf_held s = held \<or> load_from_db co db = Inr (rf_held s))"

text \<open>One step changes one task; the others keep what they have read.\<close>

lemma reads_tables_update:
  "list_all (reads_tables co db) tasks \<Longrightarrow> reads_tables co db task \<Longrightarrow>
   list_all (reads_tables co db) (tasks[t := task])"
  using set_update_subset_insert [of tasks t task] by (auto simp: list_all_iff)

context config_caching
begin

lemma cached_after_fill:
  "0 < cc_ttl_s cc \<Longrightarrow> valid_config cfg \<Longrightarrow> cached_config cc (write_to_redis cc cfg c) = Some cfg"
  by (simp add: cached_config_def write_to_redis_def get_content setex_content load_dump)

lemma cached_after_pass:
  "0 \<le> d \<Longrightarrow> cached_config cc (pass d c) = Some cfg \<Longrightarrow> cached_config cc c = Some cfg"
  by (auto simp: cached_config_def get_content pass_content split: option.splits if_splits prod.splits)

lemma cached_until:
  "0 \<le> d \<Longrightarrow> d < cc_ttl_s cc \<Longrightarrow> valid_config cfg \<Longrightarrow>
   cached_config cc (pass d (write_to_redis cc cfg c)) = Some cfg"
  by (simp add: cached_config_def write_to_redis_def get_content setex_content pass_content load_dump)

lemma serves_tables_step:
  assumes "0 < cc_ttl_s cc" and "refill_step cc co t s = Some s'" and "serves_tables cc co db held s"
  shows "serves_tables cc co db held s'"
proof -
  from assms(2) have t: "t < length (rf_tasks s)" by (simp add: refill_step_def split: if_splits)
  with assms(3) have "reads_tables co db (rf_tasks s ! t)" by (simp add: serves_tables_def list_all_length)
  then obtain k pc where task: "rf_tasks s ! t = Load k pc" by (cases "rf_tasks s ! t") auto
  with assms(2) t have step: "load_step cc co t k pc s = Some s'" by (simp add: refill_step_def)
  note inv = assms(3) [unfolded serves_tables_def]
  have read: "reads_tables co db (Load k pc)" using task \<open>reads_tables co db (rf_tasks s ! t)\<close> by simp
  show ?thesis
  proof (cases pc)
    case (Fill cfg)
    with read have load: "load_from_db co db = Inr cfg" by simp
    with assms(1) have "cached_config cc (write_to_redis cc cfg (rf_cache s)) = Some cfg"
      by (simp add: cached_after_fill load_from_db_validates)
    with step Fill load inv show ?thesis
      by (auto simp: serves_tables_def load_ends_def caches_tables_def intro!: reads_tables_update)
  next
    case (ReadModels routing rows)
    with step read inv show ?thesis
      by (auto simp: serves_tables_def load_ends_def load_from_db_def intro!: reads_tables_update
          split: sum.splits)
  next
    case (ReadTiers routing)
    with step read inv show ?thesis
      by (auto simp: serves_tables_def load_ends_def load_from_db_def intro!: reads_tables_update
          split: sum.splits)
  next
    case ReadRouting
    with step inv show ?thesis
      by (auto simp: serves_tables_def load_ends_def load_from_db_def Let_def intro!: reads_tables_update
          split: sum.splits option.splits)
  qed (use step inv in \<open>auto simp: serves_tables_def load_ends_def queue_up_def caches_tables_def
      intro!: reads_tables_update split: if_splits option.splits list.splits\<close>)
qed

lemma serves_tables_run:
  assumes "0 < cc_ttl_s cc" and "\<forall>d. Pause d \<in> set ms \<longrightarrow> 0 \<le> d"
    and "refill_run cc pass co ms s = Some s'" and "serves_tables cc co db held s"
  shows "serves_tables cc co db held s'"
  using assms(3,4)
proof (rule refill_run_inv)
  show "Turn t \<in> set ms \<Longrightarrow> refill_step cc co t s = Some s' \<Longrightarrow> serves_tables cc co db held s \<Longrightarrow>
      serves_tables cc co db held s'" for t s s'
    using serves_tables_step [OF assms(1)] by blast
  show "Pause d \<in> set ms \<Longrightarrow> serves_tables cc co db held s \<Longrightarrow>
      serves_tables cc co db held (s\<lparr>rf_cache := pass d (rf_cache s)\<rparr>)" for d s
  proof -
    assume "Pause d \<in> set ms" and inv: "serves_tables cc co db held s"
    with assms(2) have "caches_tables cc co db (pass d (rf_cache s))"
      using cached_after_pass [of d "rf_cache s"] by (simp add: serves_tables_def caches_tables_def)
    with inv show ?thesis by (simp add: serves_tables_def)
  qed
qed

end

text \<open>From a cold cache only one load goes to the tables, as long as its result is in the cache.\<close>

fun between_reads :: "config_task \<Rightarrow> bool" where
  "between_reads (Load k pc) \<longleftrightarrow>
     (case pc of ReadTiers _ \<Rightarrow> True | ReadModels _ _ \<Rightarrow> True | Fill _ \<Rightarrow> True | _ \<Rightarrow> False)"
| "between_reads (Write cfg pc) \<longleftrightarrow> False"

definition at_routing :: "config_task \<Rightarrow> bool" where
  "at_routing task \<longleftrightarrow> (\<exists>k. task = Load k ReadRouting)"

definition single_flight :: "('c, 'p) config_cache \<Rightarrow> 'c refill \<Rightarrow> bool" where
  "single_flight cc s \<longleftrightarrow>
     list_all (\<lambda>task. \<exists>pc. task = Load Plain pc) (rf_tasks s) \<and>
     (rf_reads s = 0 \<or>
      rf_reads s = 1 \<and> (\<forall>task \<in> set (rf_tasks s). \<not> at_routing task) \<and>
        (cached_config cc (rf_cache s) \<noteq> None \<or>
         (\<exists>t < length (rf_tasks s). between_reads (rf_tasks s ! t))))"

lemma single_flight_update:
  assumes "single_flight cc s" and "t < length (rf_tasks s)"
    and "rf_tasks s' = (rf_tasks s)[t := Load Plain pc]" and "rf_reads s' = rf_reads s" and "pc \<noteq> ReadRouting"
    and "cached_config cc (rf_cache s) \<noteq> None \<Longrightarrow> cached_config cc (rf_cache s') \<noteq> None"
    and "between_reads (rf_tasks s ! t) \<Longrightarrow>
      between_reads (Load Plain pc) \<or> cached_config cc (rf_cache s') \<noteq> None"
  shows "single_flight cc s'"
proof -
  have nth: "rf_tasks s' ! u = (if u = t then Load Plain pc else rf_tasks s ! u)" for u
    using assms(2,3) by simp
  have set: "set (rf_tasks s') \<subseteq> insert (Load Plain pc) (set (rf_tasks s))"
    using assms(3) set_update_subset_insert by metis
  have len: "length (rf_tasks s') = length (rf_tasks s)" using assms(3) by simp
  have "cached_config cc (rf_cache s') \<noteq> None \<or> (\<exists>u < length (rf_tasks s'). between_reads (rf_tasks s' ! u))"
    if "cached_config cc (rf_cache s) \<noteq> None \<or> (\<exists>u < length (rf_tasks s). between_reads (rf_tasks s ! u))"
    using that assms(2,6,7) unfolding nth len by metis
  with assms(1,4,5) set show ?thesis
    unfolding single_flight_def list_all_iff by (auto simp: at_routing_def)
qed

lemma inside_unique:
  "lock_inv s \<Longrightarrow> t < length (rf_tasks s) \<Longrightarrow> u < length (rf_tasks s) \<Longrightarrow>
   inside (rf_tasks s ! t) \<Longrightarrow> inside (rf_tasks s ! u) \<Longrightarrow> t = u"
  by (auto simp: lock_inv_def)

lemma between_reads_inside: "between_reads task \<Longrightarrow> inside task"
  by (cases task) (auto split: load_pc.splits)

lemma single_flight_step:
  assumes "config_caching cc content pass" and "0 < cc_ttl_s cc"
    and step: "refill_step cc co t s = Some s'" and "lock_inv s" and "serves_tables cc co db held s"
    and ok: "load_from_db co db = Inr cfg" and flight: "single_flight cc s"
  shows "single_flight cc s'"
proof -
  from step have t: "t < length (rf_tasks s)" by (simp add: refill_step_def split: if_splits)
  with flight obtain pc where task: "rf_tasks s ! t = Load Plain pc"
    by (auto simp: single_flight_def list_all_length)
  with step t have run: "load_step cc co t Plain pc s = Some s'" by (simp add: refill_step_def)
  from assms(5) t have "rf_db s = db" and "reads_tables co db (rf_tasks s ! t)"
    by (simp_all add: serves_tables_def list_all_length)
  then have db: "rf_db s = db" and read: "reads_tables co db (Load Plain pc)"
    unfolding task by blast+
  note update = single_flight_update [OF flight t]
  have others: "\<not> inside (rf_tasks s ! u)" if "inside (Load Plain pc)" "u < length (rf_tasks s)" "u \<noteq> t" for u
    using inside_unique [OF assms(4) t, of u] that task by auto
  show ?thesis
  proof (cases pc)
    case Recheck
    show ?thesis
    proof (cases "cached_config cc (rf_cache s)")
      case None
      have "\<not> between_reads (rf_tasks s ! u)" if "u < length (rf_tasks s)" for u
        using others [of u] that between_reads_inside task Recheck by (cases "u = t") auto
      with None flight have "rf_reads s = 0" by (auto simp: single_flight_def)
      with run Recheck None flight show ?thesis
        by (auto simp: single_flight_def list_all_iff dest!: subsetD [OF set_update_subset_insert])
    next
      case (Some c)
      with run Recheck show ?thesis by (intro update) (auto simp: load_ends_def task)
    qed
  next
    case ReadRouting
    then have "at_routing (rf_tasks s ! t)" by (simp add: at_routing_def task)
    with flight t have "rf_reads s = 0" by (auto simp: single_flight_def)
    moreover from ok db obtain routing where "fst (fetch_routing_config (rf_db s)) = Inr (Some routing)"
      by (auto simp: load_from_db_def split: option.splits)
    ultimately have s': "rf_tasks s' = (rf_tasks s)[t := Load Plain (ReadTiers routing)]" "rf_reads s' = 1"
      using run ReadRouting by (auto simp: Let_def)
    have "\<not> at_routing (rf_tasks s' ! u)" if "u < length (rf_tasks s)" for u
      using others [of u] that t ReadRouting by (cases "u = t") (auto simp: s' at_routing_def)
    moreover have "between_reads (rf_tasks s' ! t)" using t by (simp add: s')
    ultimately show ?thesis
      using flight t s' by (auto simp: single_flight_def list_all_length in_set_conv_nth nth_list_update)
  next
    case (ReadTiers routing)
    with ok db read obtain rows where "fst (fetch_tiers co (rf_db s)) = Inr rows"
      by (auto simp: load_from_db_def)
    with run ReadTiers show ?thesis by (intro update) auto
  next
    case (ReadModels routing rows)
    with ok db read obtain models where "fst (fetch_tier_models co (rf_db s)) = Inr models"
        "assemble_config routing rows models = Inr cfg"
      by (auto simp: load_from_db_def)
    with run ReadModels show ?thesis by (intro update) auto
  next
    case (Fill new)
    with read have "valid_config new" by (auto dest: load_from_db_validates)
    with run Fill show ?thesis
      using config_caching.cached_after_fill [OF assms(1,2)] by (intro update) (auto simp: load_ends_def)
  qed (use run in \<open>auto simp: queue_up_def task split: option.splits list.splits if_splits intro!: update\<close>)
qed

section \<open>What the lock promises\<close>

lemma load_step_outside:
  assumes "refill_step cc co t s = Some s'" and "rf_tasks s ! t = Load k pc" and "\<not> inside (Load k pc)"
  shows "rf_reads s' = rf_reads s \<and> rf_cache s' = rf_cache s"
  using assms
  by (cases pc) (auto simp: refill_step_def queue_up_def split: if_splits option.splits list.splits)

lemma write_step_reads:
  assumes "refill_step cc co t s = Some s'" and "rf_tasks s ! t = Write cfg pc"
  shows "rf_reads s' = rf_reads s"
proof -
  from assms have "write_step cc t cfg pc s = Some s'" by (simp add: refill_step_def split: if_splits)
  then show ?thesis
    by (cases "(cc, t, cfg, pc, s)" rule: write_step.cases) (auto split: prod.splits sum.splits)
qed

lemma queue_keeps_order:
  assumes "refill_run cc pass co ms s = Some s'"
  shows "\<exists>n new. rf_queue s' = drop n (rf_queue s) @ new"
  using assms
proof (rule refill_run_inv [where P = "\<lambda>s'. \<exists>n new. rf_queue s' = drop n (rf_queue s) @ new"])
  show "\<exists>n new. rf_queue s = drop n (rf_queue s) @ new" by (rule exI [of _ 0]) simp
  fix t s1 s2
  assume step: "refill_step cc co t s1 = Some s2"
  assume "\<exists>n new. rf_queue s1 = drop n (rf_queue s) @ new"
  then obtain n new where q: "rf_queue s1 = drop n (rf_queue s) @ new" by blast
  have drops: "tl (drop n (rf_queue s) @ new) = drop (Suc n) (rf_queue s) @ new \<or>
      tl (drop n (rf_queue s) @ new) = drop n (rf_queue s) @ tl new"
    by (cases "drop n (rf_queue s) = []") (simp_all add: drop_Suc tl_drop)
  from step show "\<exists>n new. rf_queue s2 = drop n (rf_queue s) @ new"
  proof (cases rule: refill_step_cases)
    case (comes k)
    then show ?thesis using q by (auto intro!: exI [of _ n] exI [of _ "new @ [t]"])
  next
    case (leaves k r)
    then show ?thesis using q drops by metis
  qed (use q in auto)
qed auto

text \<open>C36: The refill lock is a lock: however loads, reloads and writes interleave, at most one load is
  between taking the lock and its end, only the task at the head of the line goes to the
  tables or fills the cache, and the line is served in the order of arrival.
\<close>

theorem one_refill_at_a_time:
  assumes "list_all fresh_task tasks"
    and "refill_run cc pass co ms (refill_start db c held tasks) = Some s"
  shows "(\<forall>t < length (rf_tasks s). \<forall>u < length (rf_tasks s).
       inside (rf_tasks s ! t) \<and> inside (rf_tasks s ! u) \<longrightarrow> t = u) \<and>
    (\<forall>t s'. refill_step cc co t s = Some s' \<and>
       (rf_reads s' \<noteq> rf_reads s \<or> (\<exists>k pc. rf_tasks s ! t = Load k pc) \<and> rf_cache s' \<noteq> rf_cache s) \<longrightarrow>
       (\<exists>q. rf_queue s = t # q)) \<and>
    (\<forall>ms' s'. refill_run cc pass co ms' s = Some s' \<longrightarrow>
       (\<exists>n new. rf_queue s' = drop n (rf_queue s) @ new))"
proof (intro conjI allI impI)
  have inv: "lock_inv s" by (rule lock_inv_run [OF assms(2) lock_inv_start [OF assms(1)]])
  show "t = u" if "t < length (rf_tasks s)" "u < length (rf_tasks s)"
      "inside (rf_tasks s ! t) \<and> inside (rf_tasks s ! u)" for t u
    using inside_unique [OF inv that(1,2)] that(3) by blast
  show "\<exists>n new. rf_queue s' = drop n (rf_queue s) @ new" if "refill_run cc pass co ms' s = Some s'" for ms' s'
    using that by (rule queue_keeps_order)
  fix t s'
  assume act: "refill_step cc co t s = Some s' \<and>
    (rf_reads s' \<noteq> rf_reads s \<or> (\<exists>k pc. rf_tasks s ! t = Load k pc) \<and> rf_cache s' \<noteq> rf_cache s)"
  then obtain k pc where task: "rf_tasks s ! t = Load k pc"
    using write_step_reads by (cases "rf_tasks s ! t") blast+
  with act have "inside (rf_tasks s ! t)" using load_step_outside by metis
  moreover have "t < length (rf_tasks s)" using act by (auto simp: refill_step_def split: if_splits)
  ultimately show "\<exists>q. rf_queue s = t # q"
    using inv unfolding lock_inv_def by (cases "rf_queue s") auto
qed


text \<open>C37: Nobody waits for the refill lock for ever: whatever the tasks and however they are
  interleaved, there are only so many steps, some task can go on until all have ended, and
  then the lock is free again, also after loads that ended in an exception.
\<close>

theorem refills_finish:
  assumes "list_all fresh_task tasks"
    and "refill_run cc pass co ms (refill_start db c held tasks) = Some s"
  shows "turns ms \<le> all_work tasks \<and>
    (if list_all ended (rf_tasks s) then rf_queue s = [] else \<exists>t. refill_step cc co t s \<noteq> None) \<and>
    (\<exists>ms' s'. refill_run cc pass co ms' s = Some s' \<and> list_all ended (rf_tasks s'))"
proof (intro conjI)
  have inv: "lock_inv s" by (rule lock_inv_run [OF assms(2) lock_inv_start [OF assms(1)]])
  show "turns ms \<le> all_work tasks"
    using run_work [OF assms(2)] by (simp add: refill_start_def)
  show "if list_all ended (rf_tasks s) then rf_queue s = [] else \<exists>t. refill_step cc co t s \<noteq> None"
    using inv ended_no_lock some_step by auto
  from inv show "\<exists>ms' s'. refill_run cc pass co ms' s = Some s' \<and> list_all ended (rf_tasks s')"
  proof (induction "all_work (rf_tasks s)" arbitrary: s rule: less_induct)
    case less
    show ?case
    proof (cases "list_all ended (rf_tasks s)")
      case True
      then show ?thesis by (intro exI [of _ "[]"] exI [of _ s]) simp
    next
      case False
      then obtain t s1 where step: "refill_step cc co t s = Some s1"
        using some_step [OF less.prems] by blast
      from less.hyps [OF step_work [OF step] lock_inv_step [OF step less.prems]]
      obtain ms' s' where "refill_run cc pass co ms' s1 = Some s'" "list_all ended (rf_tasks s')" by blast
      with step show ?thesis by (intro exI [of _ "Turn t # ms'"] exI [of _ s']) simp
    qed
  qed
qed

section \<open>One task at a time\<close>

lemma single_task_run:
  "refill_run cc pass co ms s = Some s' \<Longrightarrow> length (rf_tasks s) = 1 \<Longrightarrow> (\<And>d. Pause d \<notin> set ms) \<Longrightarrow>
   ms = replicate (length ms) (Turn 0)"
proof (induction cc pass co ms s rule: refill_run.induct)
  case (2 cc pass co t ms s)
  then obtain s1 where s1: "refill_step cc co t s = Some s1" "refill_run cc pass co ms s1 = Some s'"
    by (auto simp: bind_eq_Some_conv)
  from s1(1) have "length (rf_tasks s1) = length (rf_tasks s)" by (cases rule: refill_step_cases) simp_all
  moreover from s1(1) 2(3) have "t = 0" by (simp add: refill_step_def split: if_splits)
  ultimately show ?case using 2(1) [OF s1] 2(3,4) by simp
qed auto

lemma run_tasks_length:
  assumes "refill_run cc pass co ms s = Some s'"
  shows "length (rf_tasks s') = length (rf_tasks s)"
  using assms
  by (rule refill_run_inv [where P = "\<lambda>s'. length (rf_tasks s') = length (rf_tasks s)"])
    (auto elim!: refill_step_cases)

lemma ended_no_step: "t < length (rf_tasks s) \<Longrightarrow> ended (rf_tasks s ! t) \<Longrightarrow> refill_step cc co t s = None"
  by (cases "rf_tasks s ! t") (auto simp: refill_step_def)

lemma ended_no_run:
  assumes "refill_run cc pass co (replicate n (Turn 0)) s = Some s'"
    and "length (rf_tasks s) = 1" and "list_all ended (rf_tasks s)"
  shows "s' = s"
proof (cases n)
  case (Suc m)
  have "refill_step cc co 0 s = None"
    by (rule ended_no_step) (use assms(2,3) in \<open>simp_all add: list_all_length\<close>)
  with assms(1) Suc show ?thesis by simp
qed (use assms in simp)

text \<open>What a task that runs alone reaches, it reaches on every schedule without a pause that ends.\<close>

lemma alone_every_end:
  assumes "alone cc co 0 s s1" and "list_all ended (rf_tasks s1)" and "length (rf_tasks s) = 1" "length (rf_tasks s1) = 1"
    and run: "refill_run cc pass co ms s = Some s'" and "list_all ended (rf_tasks s')" and "\<And>d. Pause d \<notin> set ms"
  shows "s' = s1"
proof -
  from assms(1) obtain n where n: "refill_run cc pass co (replicate n (Turn 0)) s = Some s1"
    by (auto simp: alone_def)
  obtain m where m: "refill_run cc pass co (replicate m (Turn 0)) s = Some s'"
    using single_task_run [OF run assms(3,7)] run by metis
  have len: "length (rf_tasks s') = 1" using run_tasks_length [OF run] assms(3) by simp
  show ?thesis
  proof (cases "n \<le> m")
    case True
    then have "replicate m (Turn 0) = replicate n (Turn 0) @ replicate (m - n) (Turn 0)"
      by (simp add: replicate_add [symmetric])
    with m n have "refill_run cc pass co (replicate (m - n) (Turn 0)) s1 = Some s'"
      by (simp add: refill_run_append)
    from ended_no_run [OF this assms(4,2)] show ?thesis .
  next
    case False
    then have "replicate n (Turn 0) = replicate m (Turn 0) @ replicate (n - m) (Turn 0)"
      by (simp add: replicate_add [symmetric])
    with m n have "refill_run cc pass co (replicate (n - m) (Turn 0)) s' = Some s1"
      by (simp add: refill_run_append)
    from ended_no_run [OF this len assms(6)] show ?thesis by simp
  qed
qed


section \<open>A write while a load is at the tables\<close>

text \<open>
  Two tasks, a plain load that finds the cache cold and a write: the load goes on to one of its
  awaits, the write runs to its end, and then the load.
\<close>

lemma load_reaches_lock:
  assumes "t < length (rf_tasks s)" and "rf_tasks s ! t = loading Plain" and "rf_queue s = []"
    and "cached_config cc (rf_cache s) = None"
  shows "alone cc co t s (goto t (Load Plain ReadRouting) (s\<lparr>rf_queue := [t]\<rparr>))"
proof -
  let ?locked = "s\<lparr>rf_queue := [t]\<rparr>"
  have s: "s = goto t (Load Plain Begin) s" using assms(2) by (simp add: goto_here loading_def)
  have 1: "refill_step cc co t (goto t (Load Plain Begin) s) = Some (goto t (Load Plain Missed) s)"
    and 2: "refill_step cc co t (goto t (Load Plain Missed) s) = Some (goto t (Load Plain Queued) ?locked)"
    and 3: "refill_step cc co t (goto t (Load Plain Queued) ?locked) = Some (goto t (Load Plain Recheck) ?locked)"
    and 4: "refill_step cc co t (goto t (Load Plain Recheck) ?locked) = Some (goto t (Load Plain ReadRouting) ?locked)"
    using assms by (simp_all add: queue_up_def)
  show ?thesis
    by (subst s) (rule alone_step [OF 1 alone_step [OF 2 alone_step [OF 3 alone_step [OF 4 alone_refl]]]])
qed

lemma alone_schedules:
  assumes "alone cc co t s s1" and "alone cc co u s1 s2" and "alone cc co v s2 s3"
  obtains ms where "\<And>pass. refill_run cc pass co ms s = Some s3" and "\<And>d. Pause d \<notin> set ms"
proof -
  from assms obtain l m n where "\<forall>pass. refill_run cc pass co (replicate l (Turn t)) s = Some s1"
    "\<forall>pass. refill_run cc pass co (replicate m (Turn u)) s1 = Some s2"
    "\<forall>pass. refill_run cc pass co (replicate n (Turn v)) s2 = Some s3"
    by (auto simp: alone_def)
  then show ?thesis
    by (intro that [of "replicate l (Turn t) @ replicate m (Turn u) @ replicate n (Turn v)"])
      (auto simp: refill_run_append)
qed

text \<open>C23: The lock does not keep a write out: when one runs while a load is between its read of the
  tables and its \<open>SETEX\<close>, the load puts the old configuration back into the cache after the write has
  deleted it. The write has returned, yet for the whole time to live every load is served the
  configuration from before it.
\<close>

theorem stale_fill_outlives_write:
  assumes caching: "config_caching cc content pass" and ttl: "0 < cc_ttl_s cc"
    and cold: "cached_config cc c = None" and old: "load_from_db co db = Inr old"
    and wrote: "write_config cc cfg db c = (Inr (), db', c')"
  shows "\<exists>ms s. refill_run cc pass co ms (refill_start db c held [loading Plain, writing cfg]) = Some s \<and>
    (\<forall>d. Pause d \<notin> set ms) \<and>
    rf_tasks s = [Load Plain (Loaded (Inr old)), Write cfg (Wrote (Inr ()))] \<and> rf_db s = db' \<and>
    (\<forall>d. 0 \<le> d \<and> d < cc_ttl_s cc \<longrightarrow>
       load_or_refresh cc co False (rf_db s) (pass d (rf_cache s)) = (Inr old, pass d (rf_cache s)))"
proof -
  let ?start = "refill_start db c held [loading Plain, writing cfg]"
  let ?locked = "?start\<lparr>rf_queue := [0]\<rparr>"
  let ?full = "goto 0 (Load Plain (Fill old)) (?locked\<lparr>rf_reads := Suc 0\<rparr>)"
  let ?written = "goto 1 (Write cfg (Wrote (Inr ()))) (?full\<lparr>rf_db := db', rf_cache := c'\<rparr>)"
  let ?final = "load_ends 0 Plain (Inr old) (?written\<lparr>rf_cache := write_to_redis cc old c'\<rparr>)"
  have reads: "alone cc co 0 ?start ?full"
    using alone_trans [OF load_reaches_lock [of 0 ?start cc co] reading_alone(1) [of 0 ?locked co old]]
    by (simp add: refill_start_def cold old)
  have writes: "alone cc co 1 ?full ?written"
    by (rule write_alone) (simp_all add: refill_start_def wrote)
  have "refill_step cc co 0 ?written = Some ?final"
    by (simp add: refill_step_def refill_start_def)
  then have fills: "alone cc co 0 ?written ?final" by (rule alone_step [OF _ alone_refl])
  from alone_schedules [OF reads writes fills] obtain ms where
    ms: "\<And>pass. refill_run cc pass co ms ?start = Some ?final" "\<And>d. Pause d \<notin> set ms" by blast
  have "load_or_refresh cc co False db' (pass d (write_to_redis cc old c')) = (Inr old, pass d (write_to_redis cc old c'))"
    if "0 \<le> d \<and> d < cc_ttl_s cc" for d
    using that config_caching.cached_until [OF caching] load_from_db_validates(1) [OF old]
    by (simp add: load_or_refresh_def)
  then show ?thesis
    using ms by (intro exI [of _ ms] exI [of _ ?final]) (simp add: load_ends_def refill_start_def)
qed

text \<open>C39: The three reads of a load are not one: when a write runs between the first and the second, the
  load returns, and caches, the old routing parameters with the tiers of the new configuration, a
  configuration that nobody has written.
\<close>

theorem torn_load:
  assumes caching: "config_caching cc content pass" and ttl: "0 < cc_ttl_s cc"
    and cold: "cached_config cc c = None" and old: "load_from_db co db = Inr old"
    and wrote: "write_config cc cfg db c = (Inr (), db', c')" and new: "load_from_db co db' = Inr new"
  shows "\<exists>ms s. refill_run cc pass co ms (refill_start db c held [loading Plain, writing cfg]) = Some s \<and>
    (\<forall>d. Pause d \<notin> set ms) \<and>
    rf_tasks s = [Load Plain (Loaded (Inr (new\<lparr>cfg_routing := cfg_routing old\<rparr>))), Write cfg (Wrote (Inr ()))] \<and>
    rf_db s = db' \<and> cached_config cc (rf_cache s) = Some (new\<lparr>cfg_routing := cfg_routing old\<rparr>)"
proof -
  let ?start = "refill_start db c held [loading Plain, writing cfg]"
  let ?torn = "new\<lparr>cfg_routing := cfg_routing old\<rparr>"
  let ?at = "\<lambda>pc. goto 0 (Load Plain pc) (?start\<lparr>rf_queue := [0], rf_reads := Suc 0\<rparr>)"
  let ?written = "\<lambda>pc. goto 1 (Write cfg (Wrote (Inr ()))) ((?at pc)\<lparr>rf_db := db', rf_cache := c'\<rparr>)"
  let ?routing = "cfg_routing old"
  from old have "fst (fetch_routing_config db) = Inr (Some ?routing)"
    by (auto simp: load_from_db_def assemble_config_def Let_def split: option.splits if_splits)
  then have 1: "refill_step cc co 0 (goto 0 (Load Plain ReadRouting) (?start\<lparr>rf_queue := [0]\<rparr>)) =
      Some (?at (ReadTiers ?routing))"
    by (simp add: refill_start_def)
  have reads: "alone cc co 0 ?start (?at (ReadTiers ?routing))"
    using alone_trans [OF load_reaches_lock [of 0 ?start cc co] alone_step [OF 1 alone_refl]]
    by (simp add: refill_start_def cold)
  have writes: "alone cc co 1 (?at (ReadTiers ?routing)) (?written (ReadTiers ?routing))"
    by (rule write_alone) (simp_all add: refill_start_def wrote)
  from new obtain rows models where rows: "fst (fetch_tiers co db') = Inr rows"
      "fst (fetch_tier_models co db') = Inr models" "assemble_config (cfg_routing new) rows models = Inr new"
    by (auto simp: load_from_db_def assemble_config_def Let_def split: option.splits if_splits)
  have "valid_routing_config ?routing"
    using load_from_db_validates(1) [OF old] by (simp add: valid_config_def)
  with rows(3) have torn: "assemble_config ?routing rows models = Inr ?torn"
    by (cases new) (auto simp: assemble_config_def Let_def split: if_splits)
  have 2: "refill_step cc co 0 (?written (ReadTiers ?routing)) = Some (?written (ReadModels ?routing rows))"
    and 3: "refill_step cc co 0 (?written (ReadModels ?routing rows)) = Some (?written (Fill ?torn))"
    using rows torn by (simp_all add: refill_step_def refill_start_def goto_def)
  let ?final = "load_ends 0 Plain (Inr ?torn) ((?written (Fill ?torn))\<lparr>rf_cache := write_to_redis cc ?torn c'\<rparr>)"
  have 4: "refill_step cc co 0 (?written (Fill ?torn)) = Some ?final"
    by (simp add: refill_step_def refill_start_def)
  have fills: "alone cc co 0 (?written (ReadTiers ?routing)) ?final"
    by (rule alone_step [OF 2 alone_step [OF 3 alone_step [OF 4 alone_refl]]])
  from alone_schedules [OF reads writes fills] obtain ms where
    ms: "\<And>pass. refill_run cc pass co ms ?start = Some ?final" "\<And>d. Pause d \<notin> set ms" by blast
  have "valid_config ?torn"
    using load_from_db_validates(1) [OF new] \<open>valid_routing_config ?routing\<close> by (simp add: valid_config_def)
  then have "cached_config cc (write_to_redis cc ?torn c') = Some ?torn"
    by (rule config_caching.cached_after_fill [OF caching ttl])
  then show ?thesis
    using ms by (intro exI [of _ ms] exI [of _ ?final]) (simp add: load_ends_def refill_start_def)
qed

section \<open>Two loads, and a load with a write\<close>

text \<open>Both loads find the cache cold and come to the lock; the first reads the tables, the second does not.\<close>

definition demo_crowd :: "(config \<times> rat) option refill" where
  "demo_crowd = refill_start demo_written None demo_config [loading Plain, loading Plain]"

definition demo_schedule :: "moment list" where
  "demo_schedule = map Turn [0, 1, 1, 0, 1, 1, 1, 1, 1, 1, 0, 0]"

lemma demo_crowd_runs:
  "refill_run plain_cache plain_pass c_collation demo_schedule demo_crowd =
     Some \<lparr>rf_db = demo_written, rf_cache = Some (demo_loaded, 60), rf_queue = [],
       rf_tasks = [Load Plain (Loaded (Inr demo_loaded)), Load Plain (Loaded (Inr demo_loaded))],
       rf_held = demo_config, rf_reads = 1\<rparr>"
  "refill_run plain_cache plain_pass c_collation (take 6 demo_schedule) demo_crowd =
     Some \<lparr>rf_db = demo_written, rf_cache = None, rf_queue = [1, 0],
       rf_tasks = [Load Plain Queued, Load Plain ReadRouting], rf_held = demo_config, rf_reads = 0\<rparr>"
  by code_simp+

lemma demo_crowd_fresh: "list_all fresh_task [loading Plain, loading Plain]"
  by (auto simp: fresh_task_def)

theorem one_refill_at_a_time_witness:
  "\<exists>s. refill_run plain_cache plain_pass c_collation (take 6 demo_schedule) demo_crowd = Some s \<and>
     rf_queue s = [1, 0] \<and>
     (\<forall>ms s'. refill_run plain_cache plain_pass c_collation ms s = Some s' \<longrightarrow>
        (\<exists>n new. rf_queue s' = drop n [1, 0] @ new))"
  using one_refill_at_a_time [OF demo_crowd_fresh demo_crowd_runs(2) [unfolded demo_crowd_def]]
    demo_crowd_runs(2) by auto


theorem refills_finish_witness:
  "\<exists>s ms' s'. refill_run plain_cache plain_pass c_collation (take 6 demo_schedule) demo_crowd = Some s \<and>
     refill_run plain_cache plain_pass c_collation ms' s = Some s' \<and> list_all ended (rf_tasks s')"
  using refills_finish [OF demo_crowd_fresh demo_crowd_runs(2) [unfolded demo_crowd_def]]
    demo_crowd_runs(2) by blast


definition demo_before :: database where
  "demo_before = demo_tables\<lparr>db_routing := Some (default_routing_config\<lparr>health_window_s := 30\<rparr>)\<rparr>"

definition demo_old :: config where
  "demo_old = demo_config\<lparr>cfg_tiers :=
       [(''fast'', \<lparr>tc_candidates = [demo_candidate ''google'' ''gemini'']\<rparr>), (''slow'', \<lparr>tc_candidates = []\<rparr>)],
     cfg_routing := default_routing_config\<lparr>health_window_s := 30\<rparr>\<rparr>"

lemma demo_rewrite:
  "load_from_db c_collation demo_before = Inr demo_old"
  "write_config plain_cache demo_config demo_before None = (Inr (), demo_written, None)"
  "load_from_db c_collation demo_written = Inr demo_loaded"
  "cached_config plain_cache None = None" "0 < cc_ttl_s plain_cache"
  by code_simp+

theorem stale_fill_outlives_write_witness:
  "\<exists>ms s. refill_run plain_cache plain_pass c_collation ms
       (refill_start demo_before None demo_old [loading Plain, writing demo_config]) = Some s \<and>
     load_from_db c_collation (rf_db s) = Inr demo_loaded \<and>
     fst (load_or_refresh plain_cache c_collation False (rf_db s) (plain_pass 59 (rf_cache s))) = Inr demo_old \<and>
     demo_old \<noteq> demo_loaded"
proof -
  have "demo_old \<noteq> demo_loaded" by code_simp
  moreover have "0 \<le> (59 :: rat) \<and> 59 < cc_ttl_s plain_cache" by (simp add: plain_cache_def)
  ultimately show ?thesis
    using stale_fill_outlives_write [OF plain_cache.config_caching_axioms demo_rewrite(5,4,1,2), where held = demo_old]
      demo_rewrite(3) by fastforce
qed

theorem torn_load_witness:
  "\<exists>ms s. refill_run plain_cache plain_pass c_collation ms
       (refill_start demo_before None demo_old [loading Plain, writing demo_config]) = Some s \<and>
     cached_config plain_cache (rf_cache s) =
       Some (demo_loaded\<lparr>cfg_routing := default_routing_config\<lparr>health_window_s := 30\<rparr>\<rparr>) \<and>
     health_window_s (cfg_routing demo_loaded) \<noteq> 30"
proof -
  have "health_window_s (cfg_routing demo_loaded) \<noteq> 30"
    "cfg_routing demo_old = default_routing_config\<lparr>health_window_s := 30\<rparr>" by code_simp+
  then show ?thesis
    using torn_load [OF plain_cache.config_caching_axioms demo_rewrite(5,4,1,2,3), where held = demo_old]
    by auto
qed

end
