(* ===== verification/Traffic.thy ===== *)
theory Traffic
  imports App
begin

text \<open>
  The application at work: requests of \<open>gateway/app.py\<close> that arrive and are answered in any
  order, the drain task of \<open>gateway/accounting.py\<close> between them, the tables behind both. It
  puts the theories \<open>App\<close>, \<open>Accounting\<close>, \<open>Auth\<close> and \<open>Db\<close> together to say where the tokens of an
  answer end up, and when the daily cap gets to see them.
\<close>

section \<open>A request in two parts\<close>

text \<open>
  \<open>chat_completions\<close> up to the call of the router, and from there on. In between, the handler
  awaits the vendors, and everything else goes on.
\<close>

definition admit ::
    "'w gateway \<Rightarrow> string option \<Rightarrow> app_state \<Rightarrow> (chat_reply + caller) \<times> app_state" where
  "admit gw authorization s =
     (case resolve_caller gw authorization s of
        (Inl reply, s) \<Rightarrow> (Inl reply, s)
      | (Inr caller, s) \<Rightarrow>
          (case check_cap caller s of
             (Some reply, s) \<Rightarrow> (Inl reply, s)
           | (None, s) \<Rightarrow> (Inr caller, s)))"

definition answer_request ::
    "'w gateway \<Rightarrow> caller \<Rightarrow> chat_request \<Rightarrow> app_state \<Rightarrow> 'w \<Rightarrow> chat_reply \<times> app_state \<times> 'w" where
  "answer_request gw caller req s w =
     (let (t0, w) = rt_now (gw_router gw) w
      in case route (gw_router gw) req caller w of
           (Escaped e, w) \<Rightarrow> (Crash e, s, w)
         | (Refused e, w) \<Rightarrow>
             (let (t1, w) = rt_now (gw_router gw) w
              in (failed_with_body (http_status_for (re_kind e)) (re_body e),
                  s\<lparr>as_collectors := count_request (cl_name caller) (rq_model req)
                      (router_error_kind_value (re_kind e)) (t1 - t0) (as_collectors s)\<rparr>, w))
         | (Routed result, w) \<Rightarrow>
             (let (t1, w) = rt_now (gw_router gw) w;
                  s = s\<lparr>as_collectors := count_request (cl_name caller) (rq_model req) ''ok''
                      (t1 - t0) (as_collectors s)\<rparr>
              in (Ok (rr_response result), account gw caller req (rr_attempts result) s, w)))"

text \<open>The two parts one after the other are the handler.\<close>

lemma chat_completions_parts:
  "chat_completions gw authorization req s w =
     (case admit gw authorization s of
        (Inl reply, s) \<Rightarrow> (reply, s, w)
      | (Inr caller, s) \<Rightarrow> answer_request gw caller req s w)"
  unfolding chat_completions_def admit_def answer_request_def
  by (simp split: prod.split sum.split option.split)

section \<open>Traffic\<close>

text \<open>
  Between two events the handlers that have been admitted wait in \<open>tr_pending\<close>; \<open>tr_answers\<close>
  lists what was answered with 200, to whom. \<open>Elsewhere\<close> is whatever other replicas, vendors,
  clocks and the refresh task do to the router's world, \<open>Reseeds\<close> what an operator does to the
  callers.
\<close>

record 'w traffic =
  tr_app :: app_state
  tr_world :: 'w
  tr_pending :: "(caller \<times> chat_request) list"
  tr_answers :: "(caller \<times> chat_response) list"

datatype 'w traffic_event =
    Arrives "string option" chat_request
  | Answers nat
  | Queue queue_event
  | Passes rat
  | Reseeds "(string, caller_row) pydict"
  | Elsewhere 'w

fun traffic_step :: "'w gateway \<Rightarrow> 'w traffic_event \<Rightarrow> 'w traffic \<Rightarrow> 'w traffic option" where
  "traffic_step gw (Arrives authorization req) s =
     (case admit gw authorization (tr_app s) of
        (Inl reply, a) \<Rightarrow> Some (s\<lparr>tr_app := a\<rparr>)
      | (Inr caller, a) \<Rightarrow> Some (s\<lparr>tr_app := a, tr_pending := tr_pending s @ [(caller, req)]\<rparr>))"
| "traffic_step gw (Answers i) s =
     (if i < length (tr_pending s)
      then let (caller, req) = tr_pending s ! i;
               (reply, a, w) = answer_request gw caller req (tr_app s) (tr_world s);
               s = s\<lparr>tr_app := a, tr_world := w, tr_pending := take i (tr_pending s) @ drop (Suc i) (tr_pending s)\<rparr>
           in Some (case reply of Ok resp \<Rightarrow> s\<lparr>tr_answers := tr_answers s @ [(caller, resp)]\<rparr> | _ \<Rightarrow> s)
      else None)"
| "traffic_step gw (Queue ev) s =
     (if offered ev \<noteq> [] then None
      else map_option (\<lambda>(q, db). s\<lparr>tr_app := (tr_app s)\<lparr>as_queue := q, as_db := db\<rparr>\<rparr>)
             (aq_step (gw_accounting gw) ev (as_queue (tr_app s), as_db (tr_app s))))"
| "traffic_step gw (Passes d) s =
     (if 0 \<le> d
      then Some (s\<lparr>tr_app := (tr_app s)\<lparr>as_db := (as_db (tr_app s))\<lparr>db_now := db_now (as_db (tr_app s)) + d\<rparr>\<rparr>\<rparr>)
      else None)"
| "traffic_step gw (Reseeds rows) s =
     Some (s\<lparr>tr_app := (tr_app s)\<lparr>as_db := (as_db (tr_app s))\<lparr>db_callers := rows\<rparr>\<rparr>\<rparr>)"
| "traffic_step gw (Elsewhere w) s = Some (s\<lparr>tr_world := w\<rparr>)"

fun traffic_run :: "'w gateway \<Rightarrow> 'w traffic_event list \<Rightarrow> 'w traffic \<Rightarrow> 'w traffic option" where
  "traffic_run gw [] s = Some s"
| "traffic_run gw (ev # evs) s = Option.bind (traffic_step gw ev s) (traffic_run gw evs)"

lemma traffic_run_append:
  "traffic_run gw (evs @ evs') s = Option.bind (traffic_run gw evs s) (traffic_run gw evs')"
proof (induction gw evs s rule: traffic_run.induct)
  case (2 gw ev evs s)
  then show ?case by (cases "traffic_step gw ev s") simp_all
qed simp

definition traffic_start :: "auth_cache \<Rightarrow> database \<Rightarrow> collectors \<Rightarrow> 'w \<Rightarrow> 'w traffic" where
  "traffic_start cache db m w =
     \<lparr>tr_app = \<lparr>as_cache = cache, as_db = db, as_queue = new_queue, as_collectors = m\<rparr>,
      tr_world = w, tr_pending = [], tr_answers = []\<rparr>"

text \<open>Bodies have passed the validation of \<open>max_tokens\<close>.\<close>

fun valid_arrival :: "'w traffic_event \<Rightarrow> bool" where
  "valid_arrival (Arrives _ req) \<longleftrightarrow> 0 < rq_max_tokens req"
| "valid_arrival _ \<longleftrightarrow> True"

section \<open>What an answer accounts for\<close>

text \<open>The attempts behind an answer: the failed ones, without tokens, and the one that answered.\<close>

fun accounted :: "caller \<times> chat_response \<Rightarrow> attempt_record list \<Rightarrow> bool" where
  "accounted (caller, resp) as \<longleftrightarrow> (\<exists>fails a. as = fails @ [a] \<and>
     list_all failed_attempt fails \<and> ar_status a = ''ok'' \<and>
     ar_input_tokens a = us_prompt_tokens (rs_usage resp) \<and>
     ar_output_tokens a = us_completion_tokens (rs_usage resp) \<and>
     us_total_tokens (rs_usage resp) = us_prompt_tokens (rs_usage resp) + us_completion_tokens (rs_usage resp) \<and>
     (\<forall>b \<in> set as. valid_attempt_record b \<and> ar_caller b = cl_name caller \<and> ar_request_id b = rs_id resp))"

lemma routed_total:
  assumes "route rt req caller w = (Routed res, w')"
    and "map_of (cfg_tiers (rt_config rt)) (rq_model req) = Some tc" and "0 < rq_max_tokens req"
  shows "us_total_tokens (rs_usage (rr_response res)) =
    us_prompt_tokens (rs_usage (rr_response res)) + us_completion_tokens (rs_usage (rr_response res))"
proof -
  obtain cx st v where "route_step rt cx st v = (Finish (Routed res), w')"
    using route_last_round [OF assms] by metis
  from route_step_round [OF this] show ?thesis
    by cases (auto simp: mk_response_def mk_message_def exhausted_def deadline_exceeded_def split: if_splits)
qed

lemma answer_request_cases:
  assumes "answer_request gw caller req s w = (reply, s', w')" and "0 < rq_max_tokens req"
  obtains (answered) resp as where "reply = Ok resp" "accounted (caller, resp) as"
      "as_queue s' = fold (enqueue (gw_accounting gw)) as (as_queue s)" "as_db s' = as_db s" "as_cache s' = as_cache s"
  | (other) "\<And>resp. reply \<noteq> Ok resp" "as_queue s' = as_queue s" "as_db s' = as_db s" "as_cache s' = as_cache s"
proof -
  obtain t0 v where t0: "rt_now (gw_router gw) w = (t0, v)" by force
  obtain out v' where out: "route (gw_router gw) req caller v = (out, v')" by force
  note run = assms(1) [unfolded answer_request_def t0 prod.case Let_def out]
  show thesis
  proof (cases out)
    case (Routed res)
    note route = out [unfolded Routed]
    obtain tc where tc: "map_of (cfg_tiers (rt_config (gw_router gw))) (rq_model req) = Some tc"
      using routed_known_tier [OF route] by blast
    have "accounted (caller, rr_response res) (rr_attempts res)"
      using route_history [OF route tc assms(2)] routed_total [OF route tc assms(2)]
      unfolding routed_history_def by auto
    with run Routed show thesis by (intro answered) (auto split: prod.splits)
  next
    case (Refused e)
    with run show thesis by (intro other) (auto simp: failed_with_body_def split: prod.splits)
  next
    case (Escaped e)
    with run show thesis by (intro other) auto
  qed
qed

text \<open>With the resolver of the database, an arrival changes the cache only.\<close>

lemma resolve_db: "snd (snd (resolve_bearer (db_resolver hm pepper) authorization cache db)) = db"
  by (auto simp: resolve_bearer_def db_resolver_def Let_def split: option.splits sum.splits prod.splits
      dest: arg_cong [where f = snd])

lemma admit_cases:
  assumes "admit gw authorization s = (r, s')" and "gw_auth gw = db_resolver hm pepper"
  shows "as_queue s' = as_queue s" and "as_db s' = as_db s" and "as_collectors s' = as_collectors s"
proof -
  obtain r1 s1 where r1: "resolve_caller gw authorization s = (r1 :: chat_reply + caller, s1)" by force
  obtain rb cache db where rb: "resolve_bearer (gw_auth gw) authorization (as_cache s) (as_db s) = (rb, cache, db)"
    by (metis prod_cases3)
  have "db = as_db s"
    using resolve_db [of hm pepper authorization "as_cache s" "as_db s"] rb by (simp add: assms(2))
  with r1 rb have "as_db s1 = as_db s"
    by (auto simp: resolve_caller_def Let_def split: sum.splits option.splits)
  moreover have "s' = s1"
    using assms(1) check_cap_cases(1)
    by (auto simp: admit_def r1 split: sum.splits prod.splits option.splits)
  ultimately show "as_queue s' = as_queue s" and "as_db s' = as_db s" and "as_collectors s' = as_collectors s"
    using resolve_caller_cases(1,2) [OF r1] by simp_all
qed

section \<open>The books\<close>

text \<open>What a step of the queue does to the tables: at most, it adds rows of now.\<close>

lemma write_batch_db:
  assumes "write_batch batch db = (r, db')"
  obtains new where "db' = db\<lparr>db_requests := db_requests db @ new\<rparr>" "\<And>row. row \<in> set new \<Longrightarrow> snd row = db_now db"
proof (cases "batch \<noteq> [] \<and> db_connected db \<and> list_all row_fits batch")
  case True
  with assms show thesis
    by (intro that [of "map (\<lambda>r. (stored_row r, db_now db)) batch"]) (auto simp: write_batch_def with_pool_def)
next
  case False
  with assms show thesis by (intro that [of "[]"]) (auto simp: write_batch_def with_pool_def split: if_splits)
qed

lemma queue_step_db:
  assumes "aq_step (db_accounting capacity flush_size) ev (q, db) = Some (q', db')"
  obtains new where "db' = db\<lparr>db_requests := db_requests db @ new\<rparr>" "\<And>row. row \<in> set new \<Longrightarrow> snd row = db_now db"
proof -
  have "db' = db \<or> (\<exists>batch. db' = snd (write_batch batch db))"
    using assms by (cases "(db_accounting capacity flush_size, ev, q, db)" rule: aq_step.cases)
      (auto simp: db_accounting_def Let_def split: if_splits drain_phase.splits sum.splits prod.splits
        intro: arg_cong [where f = snd, symmetric] dest!: arg_cong [where f = snd])
  then show thesis
  proof
    assume "db' = db"
    then show thesis by (intro that [of "[]"]) simp_all
  next
    assume "\<exists>batch. db' = snd (write_batch batch db)"
    then obtain batch r where "write_batch batch db = (r, db')" by (metis prod.collapse)
    then show thesis using that by (rule write_batch_db)
  qed
qed

text \<open>
  The invariant: one list of attempts per answer, which together are what the queue was
  offered, and the rows that were added since the start.
\<close>

definition books :: "int \<Rightarrow> int \<Rightarrow> database \<Rightarrow> attempt_record list list \<Rightarrow> 'w traffic \<Rightarrow> bool" where
  "books capacity flush_size db0 atts s \<longleftrightarrow>
     list_all2 accounted (tr_answers s) atts \<and>
     batched_writer.conserved (db_accounting capacity flush_size) db_rows stored_row db0 (concat atts)
       (as_queue (tr_app s), as_db (tr_app s)) \<and>
     list_all (\<lambda>(_, req). 0 < rq_max_tokens req) (tr_pending s) \<and>
     (\<exists>new. db_requests (as_db (tr_app s)) = db_requests db0 @ new \<and> (\<forall>row \<in> set new. db_now db0 \<le> snd row)) \<and>
     db_now db0 \<le> db_now (as_db (tr_app s)) \<and> db_connected (as_db (tr_app s)) = db_connected db0"

lemma books_start: "books capacity flush_size db [] (traffic_start cache db m w)"
  by (simp add: books_def traffic_start_def db_writer.conserved_init)

text \<open>A step that leaves the queue and the rows alone keeps the books.\<close>

lemma books_same:
  assumes "books capacity flush_size db0 atts s"
    and "tr_answers s' = tr_answers s" "as_queue (tr_app s') = as_queue (tr_app s)"
    and "db_requests (as_db (tr_app s')) = db_requests (as_db (tr_app s))"
    and "db_now (as_db (tr_app s)) \<le> db_now (as_db (tr_app s'))"
    and "db_connected (as_db (tr_app s')) = db_connected (as_db (tr_app s))"
    and "list_all (\<lambda>(_, req). 0 < rq_max_tokens req) (tr_pending s')"
  shows "books capacity flush_size db0 atts s'"
proof -
  have "db_rows (as_db (tr_app s')) = db_rows (as_db (tr_app s))" by (simp add: db_rows_def assms(4))
  note conserved = db_writer.conserved_rows [OF this]
  show ?thesis
    using assms conserved unfolding books_def by auto
qed

lemma books_step:
  assumes "gw_accounting gw = db_accounting capacity flush_size" and "gw_auth gw = db_resolver hm pepper"
    and "traffic_step gw ev s = Some s'" and "valid_arrival ev" and "books capacity flush_size db0 atts s"
  shows "\<exists>new. books capacity flush_size db0 (atts @ new) s'"
proof -
  have pending: "list_all (\<lambda>(_, req). 0 < rq_max_tokens req) (tr_pending s)"
    using assms(5) by (simp add: books_def)
  have same: "\<exists>new. books capacity flush_size db0 (atts @ new) s'" if "books capacity flush_size db0 atts s'"
    using that by (intro exI [of _ "[]"]) simp
  show ?thesis
  proof (cases ev)
    case (Arrives authorization req)
    obtain r a where admit: "admit gw authorization (tr_app s) = (r, a)" by force
    from admit_cases [OF this assms(2)] assms(3,4) Arrives admit pending show ?thesis
      by (intro same books_same [OF assms(5)]) (auto split: sum.splits)
  next
    case (Answers i)
    with assms(3) have i: "i < length (tr_pending s)" by (simp split: if_splits)
    obtain caller req where p: "tr_pending s ! i = (caller, req)" by force
    obtain reply a w where run: "answer_request gw caller req (tr_app s) (tr_world s) = (reply, a, w)"
      by (metis prod_cases3)
    let ?rest = "take i (tr_pending s) @ drop (Suc i) (tr_pending s)"
    from pending have rest: "list_all (\<lambda>(_, req). 0 < rq_max_tokens req) ?rest"
      by (auto simp: list_all_iff dest: in_set_takeD in_set_dropD)
    from pending i p have "0 < rq_max_tokens req" by (metis (mono_tags, lifting) case_prodD list_all_length)
    with run show ?thesis
    proof (cases rule: answer_request_cases)
      case (answered resp as)
      have s': "s' = s\<lparr>tr_app := a, tr_world := w, tr_pending := ?rest, tr_answers := tr_answers s @ [(caller, resp)]\<rparr>"
        using assms(3) Answers i p run answered(1) by simp
      have "books capacity flush_size db0 (atts @ [as]) s'"
        using assms(5) rest answered(2-4) db_writer.conserved_enqueues
        by (auto simp: books_def s' assms(1) intro!: list_all2_appendI)
      then show ?thesis by blast
    next
      case other
      have s': "s' = s\<lparr>tr_app := a, tr_world := w, tr_pending := ?rest\<rparr>"
        using assms(3) Answers i p run other(1) by (cases reply) auto
      have "books capacity flush_size db0 (atts @ []) s'"
        using books_same [OF assms(5), of s'] rest other(2,3) by (simp add: s')
      then show ?thesis by blast
    qed
  next
    case (Queue qev)
    with assms(1,3) obtain q db where step: "aq_step (db_accounting capacity flush_size) qev
        (as_queue (tr_app s), as_db (tr_app s)) = Some (q, db)" and off: "offered qev = []"
      and s': "s' = s\<lparr>tr_app := (tr_app s)\<lparr>as_queue := q, as_db := db\<rparr>\<rparr>"
      by (auto split: if_splits)
    from step obtain new where db: "db = (as_db (tr_app s))\<lparr>db_requests := db_requests (as_db (tr_app s)) @ new\<rparr>"
      and new: "\<And>row. row \<in> set new \<Longrightarrow> snd row = db_now (as_db (tr_app s))"
      by (rule queue_step_db) blast
    have "batched_writer.conserved (db_accounting capacity flush_size) db_rows stored_row db0 (concat atts) (q, db)"
      using db_writer.conserved_step [OF _ step] off assms(5) by (simp add: books_def)
    then have "books capacity flush_size db0 atts s'"
      using assms(5) new by (auto simp: books_def s' db)
    then show ?thesis by (intro exI [of _ "[]"]) simp
  next
    case (Passes d)
    with assms(3) pending show ?thesis
      by (intro same books_same [OF assms(5)]) (auto split: if_splits)
  next
    case (Reseeds rows)
    with assms(3) pending show ?thesis
      by (intro same books_same [OF assms(5)]) (auto split: if_splits)
  next
    case (Elsewhere w)
    with assms(3) pending show ?thesis
      by (intro same books_same [OF assms(5)]) (auto split: if_splits)
  qed
qed

lemma books_run:
  assumes "gw_accounting gw = db_accounting capacity flush_size" and "gw_auth gw = db_resolver hm pepper"
    and "traffic_run gw evs s = Some s'" and "list_all valid_arrival evs" and "books capacity flush_size db0 atts s"
  shows "\<exists>new. books capacity flush_size db0 (atts @ new) s'"
  using assms(3-5)
proof (induction evs arbitrary: s atts)
  case Nil
  then show ?case by (intro exI [of _ "[]"]) simp
next
  case (Cons ev evs)
  then obtain s1 where step: "traffic_step gw ev s = Some s1" and run: "traffic_run gw evs s1 = Some s'"
    by (auto simp: bind_eq_Some_conv)
  from books_step [OF assms(1,2) step _ Cons.prems(3)] Cons.prems(2) obtain n1
    where "books capacity flush_size db0 (atts @ n1) s1" by auto
  from Cons.IH [OF run _ this] Cons.prems(2) show ?case by auto
qed

lemma books_lossless:
  assumes "books capacity flush_size db0 atts s" and "qs_dropped_total (as_queue (tr_app s)) = 0"
  shows "\<exists>written. db_rows (as_db (tr_app s)) = db_rows db0 @ map stored_row written \<and>
    concat atts = written @ in_flight (qs_phase (as_queue (tr_app s))) @ qs_buffer (as_queue (tr_app s))"
proof -
  from assms(1) have "batched_writer.conserved (db_accounting capacity flush_size) db_rows stored_row db0
      (concat atts) (as_queue (tr_app s), as_db (tr_app s))" by (simp add: books_def)
  from db_writer.conserved_lossless [OF this assms(2)] show ?thesis .
qed

section \<open>Tokens\<close>

definition caller_tokens :: "string \<Rightarrow> attempt_record list \<Rightarrow> int" where
  "caller_tokens name rows = sum_list (map row_tokens (filter (\<lambda>r. ar_caller r = name) rows))"

text \<open>What the answers told their callers, for one caller.\<close>

definition told_tokens :: "string \<Rightarrow> (caller \<times> chat_response) list \<Rightarrow> int" where
  "told_tokens name answers =
     sum_list (map (\<lambda>(_, resp). us_total_tokens (rs_usage resp)) (filter (\<lambda>(c, _). cl_name c = name) answers))"

lemma caller_tokens_append [simp]: "caller_tokens name (xs @ ys) = caller_tokens name xs + caller_tokens name ys"
  by (simp add: caller_tokens_def)

lemma caller_tokens_stored [simp]: "caller_tokens name (map stored_row rows) = caller_tokens name rows"
  by (simp add: caller_tokens_def filter_map comp_def row_tokens_def [abs_def] stored_row_def)

lemma accounted_tokens:
  assumes "accounted (c, resp) as"
  shows "caller_tokens name as = (if cl_name c = name then us_total_tokens (rs_usage resp) else 0)"
proof -
  from assms obtain fails a where as: "as = fails @ [a]" "list_all failed_attempt fails"
    and a: "ar_input_tokens a = us_prompt_tokens (rs_usage resp)"
      "ar_output_tokens a = us_completion_tokens (rs_usage resp)"
      "us_total_tokens (rs_usage resp) = us_prompt_tokens (rs_usage resp) + us_completion_tokens (rs_usage resp)"
    and name: "\<forall>b \<in> set as. ar_caller b = cl_name c"
    unfolding accounted.simps by blast
  have "caller_tokens name fails = 0"
    using as(2) by (induction fails) (auto simp: caller_tokens_def failed_attempt_def row_tokens_def)
  then show ?thesis using a name by (simp add: as(1)) (simp add: caller_tokens_def row_tokens_def)
qed

lemma answered_tokens:
  "list_all2 accounted answers atts \<Longrightarrow> caller_tokens name (concat atts) = told_tokens name answers"
proof (induction answers atts rule: list_all2_induct)
  case (Cons answer answers as atts)
  obtain c resp where answer: "answer = (c, resp)" by force
  from accounted_tokens [of c resp as name] Cons show ?case
    by (simp add: answer told_tokens_def del: accounted.simps)
qed (simp add: caller_tokens_def told_tokens_def)

lemma today_start_le: "today_start t \<le> t"
proof -
  have "\<lfloor>t\<rfloor> div 86400 * 86400 \<le> \<lfloor>t\<rfloor>" using pos_mod_sign [of 86400 "\<lfloor>t\<rfloor>"] by (simp add: minus_mod_eq_div_mult [symmetric])
  then have "of_int (\<lfloor>t\<rfloor> div 86400 * 86400) \<le> (of_int \<lfloor>t\<rfloor> :: rat)" by (simp only: of_int_le_iff)
  then show ?thesis using of_int_floor_le [of t] unfolding today_start_def by linarith
qed

section \<open>Where answers end up\<close>


text \<open>C12: The usage report bills what the answers told: once the queue has drained without dropping anything,
  the tokens that \<open>usage_summary\<close> reports for a caller are those of the rows from before and
  the total tokens of exactly the answers this caller got, failed attempts and other callers'
  answers adding nothing.\<close>

theorem usage_bills_answers:
  assumes "gw_accounting gw = db_accounting capacity flush_size" and "gw_auth gw = db_resolver hm pepper"
    and "list_all valid_arrival evs" and "traffic_run gw evs (traffic_start cache db m w) = Some s"
    and "qs_dropped_total (as_queue (tr_app s)) = 0"
    and "in_flight (qs_phase (as_queue (tr_app s))) = []" "qs_buffer (as_queue (tr_app s)) = []"
    and "collating co" and "db_connected db"
  shows "\<exists>items. usage_summary co (Some name) None (as_db (tr_app s)) = (Inr items, as_db (tr_app s)) \<and>
    sum_list (map ui_tokens items) = caller_tokens name (db_rows db) + told_tokens name (tr_answers s)"
proof -
  obtain atts where books: "books capacity flush_size db atts s"
    using books_run [OF assms(1,2,4,3) books_start] by auto
  then have answers: "list_all2 accounted (tr_answers s) atts" and conn: "db_connected (as_db (tr_app s))"
    using assms(9) by (simp_all add: books_def)
  from books_lossless [OF books assms(5)] assms(6,7)
  have rows: "db_rows (as_db (tr_app s)) = db_rows db @ map stored_row (concat atts)" by auto
  have "usage_rows (Some name) None (as_db (tr_app s)) =
      filter (\<lambda>r. ar_caller r = name) (db_rows (as_db (tr_app s)))"
    by (simp add: usage_rows_def db_rows_def filter_map comp_def case_prod_unfold)
  then have "sum_list (map row_tokens (usage_rows (Some name) None (as_db (tr_app s)))) =
      caller_tokens name (db_rows db) + told_tokens name (tr_answers s)"
    using answered_tokens [OF answers, of name] by (simp add: caller_tokens_def [symmetric] rows)
  with usage_summary_partition [OF assms(8) conn refl, of "Some name" None] show ?thesis
    by (auto simp: partition_report_def)
qed

text \<open>C13: The daily cap lags behind by everything that is not in the table yet: within a day and while nothing is
  dropped, the usage that the cap is checked against, with the tokens of the caller's records
  in flight and in the buffer, is the usage at the start and what all answers since have told
  the caller. So until a flush a caller below the cap stays below it, however many requests
  it sends and whatever they cost.\<close>

theorem cap_lags_behind:
  assumes "gw_accounting gw = db_accounting capacity flush_size" and "gw_auth gw = db_resolver hm pepper"
    and "list_all valid_arrival evs" and "traffic_run gw evs (traffic_start cache db m w) = Some s"
    and "qs_dropped_total (as_queue (tr_app s)) = 0" and "db_connected db"
    and "today_start (db_now (as_db (tr_app s))) = today_start (db_now db)"
    and "q = as_queue (tr_app s)"
  shows "\<exists>used used'. fst (caller_tokens_used_today (db_now db) name db) = Inr used \<and>
    fst (caller_tokens_used_today (db_now (as_db (tr_app s))) name (as_db (tr_app s))) = Inr used' \<and>
    used' + caller_tokens name (in_flight (qs_phase q) @ qs_buffer q) = used + told_tokens name (tr_answers s)"
proof -
  let ?db = "as_db (tr_app s)" and ?day = "today_start (db_now db)"
  let ?today = "\<lambda>rows. sum_list (map (\<lambda>(r, ts). row_tokens r)
    (filter (\<lambda>(r, ts). ar_caller r = name \<and> ?day \<le> ts) rows))"
  obtain atts where books: "books capacity flush_size db atts s"
    using books_run [OF assms(1,2,4,3) books_start] by auto
  then obtain new where new: "db_requests ?db = db_requests db @ new" "\<forall>row \<in> set new. db_now db \<le> snd row"
    and answers: "list_all2 accounted (tr_answers s) atts" and conn: "db_connected ?db"
    using assms(6) by (auto simp: books_def)
  from books_lossless [OF books assms(5)] obtain written
    where written: "db_rows ?db = db_rows db @ map stored_row written"
      "concat atts = written @ in_flight (qs_phase q) @ qs_buffer q"
    by (auto simp: assms(8))
  have "?day \<le> ts" if "(r, ts) \<in> set new" for r ts
    using new(2) that today_start_le [of "db_now db"] by fastforce
  then have "filter (\<lambda>(r, ts). ar_caller r = name \<and> ?day \<le> ts) new = filter (\<lambda>(r, ts). ar_caller r = name) new"
    by (intro filter_cong) auto
  then have "?today new = caller_tokens name (map fst new)"
    by (simp add: caller_tokens_def filter_map comp_def case_prod_unfold)
  moreover have "map fst new = map stored_row written"
    using written(1) new(1) by (simp add: db_rows_def)
  moreover have "caller_tokens name written + caller_tokens name (in_flight (qs_phase q) @ qs_buffer q) =
      told_tokens name (tr_answers s)"
    using answered_tokens [OF answers, of name] written(2) by simp
  ultimately have "?today (db_requests ?db) + caller_tokens name (in_flight (qs_phase q) @ qs_buffer q) =
      ?today (db_requests db) + told_tokens name (tr_answers s)"
    by (simp add: new(1))
  then show ?thesis
    using conn assms(6,7) by (simp add: caller_tokens_used_today_def with_pool_def)
qed

section \<open>Three requests at once\<close>

text \<open>Of the caller the router only sees the name.\<close>

lemma route_step_caller:
  assumes "cl_name c = cl_name (rx_caller cx)"
  shows "route_step rt (cx\<lparr>rx_caller := c\<rparr>) st w = route_step rt cx st w"
proof -
  let ?cx = "cx\<lparr>rx_caller := c\<rparr>"
  have locals: "rx_deadline ?cx = rx_deadline cx" "rx_candidates ?cx = rx_candidates cx" "rx_est ?cx = rx_est cx"
    "rx_messages ?cx = rx_messages cx" "rx_params ?cx = rx_params cx"
    "rx_request_id ?cx = rx_request_id cx" "rx_tier ?cx = rx_tier cx" by simp_all
  have recs: "mk_record rt ?cx = mk_record rt cx" by (intro ext) (simp add: mk_record_def assms)
  have response: "mk_response ?cx = mk_response cx" by (intro ext) (simp only: mk_response_def locals)
  have outcomes: "on_provider_error rt ?cx = on_provider_error rt cx" "on_result rt ?cx = on_result rt cx"
    by (intro ext, simp only: on_provider_error_def on_result_def recs response)+
  have call: "call_vendor rt ?cx = call_vendor rt cx"
    by (intro ext) (simp only: call_vendor_def outcomes locals)
  show ?thesis unfolding route_step_def locals call ..
qed

lemma route_loop_caller:
  "cl_name c = cl_name (rx_caller cx) \<Longrightarrow> route_loop rt (cx\<lparr>rx_caller := c\<rparr>) st w = route_loop rt cx st w"
proof (induction rt cx st w rule: route_loop.induct)
  case (1 rt cx st w)
  obtain r w' where step: "route_step rt cx st w = (r, w')" by force
  then have step': "route_step rt (cx\<lparr>rx_caller := c\<rparr>) st w = (r, w')"
    by (simp only: route_step_caller [OF "1.prems"])
  show ?case
  proof (cases r)
    case (Again st')
    from "1.IH" [OF step [symmetric] Again "1.prems"] Again step step' show ?thesis
      by (simp add: route_loop.simps [of _ _ st])
  qed (simp add: route_loop.simps [of _ _ st] step step')
qed

lemma route_caller:
  assumes "cl_name c = cl_name c'"
  shows "route rt req c w = route rt req c' w"
proof -
  have loop: "route_loop rt (start_ctx rt req c tc now params i) st v = route_loop rt (start_ctx rt req c' tc now params i) st v"
    for tc now params i st v
    using route_loop_caller [of c "start_ctx rt req c' tc now params i" rt st v] assms
    by (simp add: start_ctx_def)
  show ?thesis unfolding route_def loop ..
qed

text \<open>A caller with a cap of twenty tokens has used fifteen; each request costs five.\<close>

definition capped_caller :: caller where
  "capped_caller = web_caller (Some 20)"

definition capped_state :: "auth_cache \<Rightarrow> queue_state \<Rightarrow> collectors \<Rightarrow> app_state" where
  "capped_state cache q m = \<lparr>as_cache = cache, as_db = web_db (Some 20), as_queue = q, as_collectors = m\<rparr>"

definition capped_cache :: auth_cache where
  "capped_cache = [(web_key, 90000, Some capped_caller)]"

abbreviation web_gateway :: "mem_world gateway" where
  "web_gateway \<equiv> demo_front failover"

lemma web_gateway_parts:
  "gw_accounting web_gateway = db_accounting 10000 200" "gw_auth web_gateway = db_resolver (@) ''salt''"
  by (simp_all add: demo_resolver_def)

lemma capped_admitted:
  assumes "cache \<in> {[], capped_cache}"
  shows "admit web_gateway (Some ''Bearer web-key'') (capped_state cache q m) =
    (Inr capped_caller, capped_state capped_cache q m)"
proof -
  have "resolve_bearer demo_resolver (Some ''Bearer web-key'') [] (web_db (Some 20)) =
      (Inr (Some capped_caller), capped_cache, web_db (Some 20))"
    "resolve_bearer demo_resolver (Some ''Bearer web-key'') capped_cache (web_db (Some 20)) =
      (Inr (Some capped_caller), capped_cache, web_db (Some 20))"
    "fst (caller_tokens_used_today (db_now (web_db (Some 20))) (cl_name capped_caller) (web_db (Some 20))) = Inr 15"
    "cl_daily_token_cap capped_caller = Some 20"
    by code_simp+
  with assms show ?thesis
    by (auto simp: admit_def resolve_caller_def check_cap_def capped_state_def split_beta Let_def)
qed

lemma capped_answered:
  "\<exists>m' w'. answer_request web_gateway capped_caller demo_request (capped_state cache q m) mem_empty =
     (Ok demo_response, capped_state cache (fold (enqueue (db_accounting 10000 200)) (rr_attempts demo_result) q) m', w')"
proof -
  have "cl_name capped_caller = cl_name demo_caller" by (simp add: capped_caller_def web_caller_def)
  then have "route failover demo_request capped_caller mem_empty = route failover demo_request demo_caller mem_empty"
    by (rule route_caller)
  then have route: "route failover demo_request capped_caller mem_empty =
      (Routed demo_result, obs_record_success mem_observer anthropic_ref 1 (demo_world 2 acquired_hashes))"
    by (simp only: demo_route)
  have account: "account web_gateway capped_caller demo_request attempts (capped_state cache q m1) =
      capped_state cache (fold (enqueue (db_accounting 10000 200)) attempts q)
        (fold (count_attempt (cl_name capped_caller) (rq_model demo_request)) attempts m1)" for attempts m1
    by (rule app_state.equality) (simp_all add: capped_state_def)
  have state: "(capped_state cache q m)\<lparr>as_collectors := m1\<rparr> = capped_state cache q m1" for m1
    by (simp add: capped_state_def)
  have "rr_response demo_result = demo_response" by (simp add: demo_result_def)
  then show ?thesis
    by (simp add: answer_request_def mem_clock_def route state account) blast
qed

definition burst_events :: "mem_world traffic_event list" where
  "burst_events =
     [Queue Start, Queue Run] @ replicate 3 (Arrives (Some ''Bearer web-key'') demo_request) @
     [Answers 0, Elsewhere mem_empty, Answers 0, Elsewhere mem_empty, Answers 0]"

definition waiting_queue :: "attempt_record list \<Rightarrow> queue_state" where
  "waiting_queue buffer =
     \<lparr>qs_buffer = buffer, qs_dropped_total = 0, qs_wakeup = False, qs_stop = False, qs_phase = Waiting, qs_metric = 0\<rparr>"

definition burst_buffer :: "attempt_record list" where
  "burst_buffer = concat (replicate 3 (rr_attempts demo_result))"

definition burst_state :: "collectors \<Rightarrow> mem_world \<Rightarrow> mem_world traffic" where
  "burst_state m w =
     \<lparr>tr_app = capped_state capped_cache (waiting_queue burst_buffer) m, tr_world = w, tr_pending = [],
      tr_answers = replicate 3 (capped_caller, demo_response)\<rparr>"

abbreviation burst_start :: "mem_world traffic" where
  "burst_start \<equiv> traffic_start [] (web_db (Some 20)) no_collectors mem_empty"

lemma enqueue_answer:
  "length buffer < 100 \<Longrightarrow>
   fold (enqueue (db_accounting 10000 200)) (rr_attempts demo_result) (waiting_queue buffer) =
     waiting_queue (buffer @ rr_attempts demo_result)"
  by (simp add: demo_result_def enqueue_def db_accounting_def waiting_queue_def Let_def)

lemma burst_run: "\<exists>m w. traffic_run web_gateway burst_events burst_start = Some (burst_state m w)"
proof -
  let ?auth = "Some ''Bearer web-key''" and ?as = "rr_attempts demo_result"
  have length: "length ?as = 2" by (simp add: demo_result_def)
  have state: "burst_start = \<lparr>tr_app = capped_state [] new_queue no_collectors, tr_world = mem_empty,
      tr_pending = [], tr_answers = []\<rparr>"
    by (simp add: traffic_start_def capped_state_def)
  have start: "traffic_run web_gateway [Queue Start, Queue Run] burst_start =
      Some \<lparr>tr_app = capped_state [] (waiting_queue []) no_collectors, tr_world = mem_empty,
        tr_pending = [], tr_answers = []\<rparr>"
    unfolding state
    by (simp add: capped_state_def waiting_queue_def start_def loop_head_def new_queue_def)
  obtain m1 w1 where 1: "answer_request web_gateway capped_caller demo_request
      (capped_state capped_cache (waiting_queue []) no_collectors) mem_empty =
      (Ok demo_response, capped_state capped_cache (waiting_queue ?as) m1, w1)"
    using capped_answered [of capped_cache "waiting_queue []" no_collectors] by (auto simp: enqueue_answer)
  obtain m2 w2 where 2: "answer_request web_gateway capped_caller demo_request
      (capped_state capped_cache (waiting_queue ?as) m1) mem_empty =
      (Ok demo_response, capped_state capped_cache (waiting_queue (?as @ ?as)) m2, w2)"
    using capped_answered [of capped_cache "waiting_queue ?as" m1] length by (auto simp: enqueue_answer)
  obtain m3 w3 where 3: "answer_request web_gateway capped_caller demo_request
      (capped_state capped_cache (waiting_queue (?as @ ?as)) m2) mem_empty =
      (Ok demo_response, capped_state capped_cache (waiting_queue ((?as @ ?as) @ ?as)) m3, w3)"
    using capped_answered [of capped_cache "waiting_queue (?as @ ?as)" m2] length by (auto simp: enqueue_answer)
  have rest: "traffic_run web_gateway (replicate 3 (Arrives ?auth demo_request) @
        [Answers 0, Elsewhere mem_empty, Answers 0, Elsewhere mem_empty, Answers 0])
      \<lparr>tr_app = capped_state [] (waiting_queue []) no_collectors, tr_world = mem_empty,
        tr_pending = [], tr_answers = []\<rparr> =
      Some (burst_state m3 w3)"
    by (simp add: numeral_3_eq_3 capped_admitted 1 2 3 burst_state_def burst_buffer_def)
  have "traffic_run web_gateway burst_events burst_start = Some (burst_state m3 w3)"
    unfolding burst_events_def traffic_run_append [of _ "[Queue Start, Queue Run]"] start by (simp only: rest bind.bind_lunit)
  then show ?thesis by blast
qed

lemma burst_valid: "list_all valid_arrival burst_events"
  by (simp add: burst_events_def demo_request_def numeral_3_eq_3)

lemma burst_length: "length burst_buffer = 6"
  by (simp add: burst_buffer_def demo_result_def numeral_3_eq_3)

lemma burst_queue:
  "as_queue (tr_app (burst_state m w)) = waiting_queue burst_buffer"
  "qs_buffer (waiting_queue buffer) = buffer" "qs_phase (waiting_queue buffer) = Waiting"
  "qs_dropped_total (waiting_queue buffer) = 0"
  by (simp_all add: burst_state_def capped_state_def waiting_queue_def)

lemma burst_told: "told_tokens ''web'' (tr_answers (burst_state m w)) = 15"
  by (simp add: told_tokens_def burst_state_def numeral_3_eq_3 capped_caller_def web_caller_def demo_caller_def
      demo_response_def)


text \<open>
  The three answers are worth fifteen tokens, so that the caller is at thirty of its twenty
  and still below the cap as far as the check can see.
\<close>

theorem cap_lags_behind_witness:
  "\<exists>s used'. traffic_run web_gateway burst_events burst_start = Some s \<and>
     fst (caller_tokens_used_today 90000 ''web'' (as_db (tr_app s))) = Inr used' \<and> used' < 20 \<and>
     used' + caller_tokens ''web'' (qs_buffer (as_queue (tr_app s))) = 30"
proof -
  obtain m w where run: "traffic_run web_gateway burst_events burst_start = Some (burst_state m w)"
    using burst_run by blast
  have db: "as_db (tr_app (burst_state m w)) = web_db (Some 20)" by (simp add: burst_state_def capped_state_def)
  have used: "fst (caller_tokens_used_today 90000 ''web'' (web_db (Some 20))) = Inr 15"
    "db_connected (web_db (Some 20))" "db_now (web_db (Some 20)) = 90000" by code_simp+
  from cap_lags_behind [OF web_gateway_parts burst_valid run _ used(2) _ refl, where name = "''web''"]
  show ?thesis
    using run used by (intro exI [of _ "burst_state m w"] exI [of _ 15]) (simp add: db burst_queue burst_told)
qed

text \<open>The drain task writes the six records.\<close>

theorem usage_bills_answers_witness:
  "\<exists>s items. traffic_run web_gateway (burst_events @ [Queue Wake, Queue Write_returns]) burst_start = Some s \<and>
     fst (usage_summary c_collation (Some ''web'') None (as_db (tr_app s))) = Inr items \<and>
     sum_list (map ui_tokens items) = 30"
proof -
  obtain m w where run: "traffic_run web_gateway burst_events burst_start = Some (burst_state m w)"
    using burst_run by blast
  let ?db = "(web_db (Some 20))\<lparr>db_requests := db_requests (web_db (Some 20)) @
    map (\<lambda>r. (stored_row r, 90000)) burst_buffer\<rparr>"
  let ?s = "(burst_state m w)\<lparr>tr_app := (capped_state capped_cache (waiting_queue []) m)\<lparr>as_db := ?db\<rparr>\<rparr>"
  have fits: "list_all row_fits burst_buffer" "db_connected (web_db (Some 20))" "db_now (web_db (Some 20)) = 90000"
    "caller_tokens ''web'' (db_rows (web_db (Some 20))) = 15"
    by code_simp+
  have "burst_buffer \<noteq> []" using burst_length by auto
  with fits have "traffic_run web_gateway [Queue Wake, Queue Write_returns] (burst_state m w) = Some ?s"
    by (simp add: burst_state_def capped_state_def waiting_queue_def queue_defs db_accounting_def
        write_batch_def with_pool_def)
  with run have all: "traffic_run web_gateway (burst_events @ [Queue Wake, Queue Write_returns]) burst_start = Some ?s"
    by (simp add: traffic_run_append)
  have "list_all valid_arrival (burst_events @ [Queue Wake, Queue Write_returns])" using burst_valid by simp
  from usage_bills_answers [OF web_gateway_parts this all _ _ _ c_order.collating_axioms fits(2), where name = "''web''"]
  obtain items where "usage_summary c_collation (Some ''web'') None (as_db (tr_app ?s)) = (Inr items, as_db (tr_app ?s))"
    "sum_list (map ui_tokens items) = 30"
    using fits(4) burst_told [of m w] by (auto simp: waiting_queue_def capped_state_def)
  with all show ?thesis by (intro exI [of _ ?s] exI [of _ items]) simp
qed

end
