(* ===== verification/Hosts.thy ===== *)
theory Hosts
  imports Breaker
begin

text \<open>
  Two replicas on one Redis. The breaker's samples of \<open>gateway/breaker.py\<close> are shared and named
  by a second of \<open>default_now_s\<close>, which is \<open>time.monotonic()\<close>: a clock that every host counts from
  a point of its own. The theory runs two \<open>BreakerSet\<close>s whose clocks are apart and says what they
  see of each other.
\<close>

section \<open>Two clocks\<close>

text \<open>The same breakers on a host whose clock is \<open>lag\<close> seconds behind.\<close>

definition behind :: "rat \<Rightarrow> 'w breaker_set \<Rightarrow> 'w breaker_set" where
  "behind lag bs = bs\<lparr>bk_now_s := \<lambda>w. (let (t, w) = bk_now_s bs w in (t - lag, w))\<rparr>"

lemma behind_sel [simp]:
  "bk_redis (behind lag bs) = bk_redis bs" "bk_window_s (behind lag bs) = bk_window_s bs"
  "bk_min_samples (behind lag bs) = bk_min_samples bs"
  "bk_open_duration_s (behind lag bs) = bk_open_duration_s bs"
  "bk_failure_threshold (behind lag bs) = bk_failure_threshold bs"
  by (simp_all add: behind_def)

lemma behind_ok [simp]: "breaker_ok (behind lag bs) = breaker_ok bs"
  by (simp add: breaker_ok_def)

section \<open>What the two do\<close>

datatype fleet_event = Here brk_event | There brk_event

text \<open>Snapshots and histories are each replica's own, the world is theirs together.\<close>

record 'w fleet =
  ft_world :: 'w
  ft_here :: snapshot
  ft_there :: snapshot
  ft_here_log :: brk_log
  ft_there_log :: brk_log

fun fleet_step :: "'w breaker_set \<Rightarrow> rat \<Rightarrow> (rat \<Rightarrow> 'w \<Rightarrow> 'w) \<Rightarrow> fleet_event \<Rightarrow> 'w fleet \<Rightarrow> 'w fleet" where
  "fleet_step bs lag pass (Here e) s =
     (let (snap, w, lg) = brk_run bs pass [e] (ft_here s, ft_world s, ft_here_log s)
      in s\<lparr>ft_world := w, ft_here := snap, ft_here_log := lg\<rparr>)"
| "fleet_step bs lag pass (There e) s =
     (let (snap, w, lg) = brk_run (behind lag bs) pass [e] (ft_there s, ft_world s, ft_there_log s)
      in s\<lparr>ft_world := w, ft_there := snap, ft_there_log := lg\<rparr>)"

definition fleet_run ::
    "'w breaker_set \<Rightarrow> rat \<Rightarrow> (rat \<Rightarrow> 'w \<Rightarrow> 'w) \<Rightarrow> fleet_event list \<Rightarrow> 'w fleet \<Rightarrow> 'w fleet" where
  "fleet_run bs lag pass es = fold (fleet_step bs lag pass) es"

fun fleet_event_ok :: "fleet_event \<Rightarrow> bool" where
  "fleet_event_ok (Here e) = brk_event_ok e"
| "fleet_event_ok (There e) = brk_event_ok e"

definition fleet_start :: "'w \<Rightarrow> 'w fleet" where
  "fleet_start w = \<lparr>ft_world = w, ft_here = [], ft_there = [], ft_here_log = [], ft_there_log = []\<rparr>"

section \<open>The later clock writes outside the earlier one's window\<close>

context breaker_store
begin

lemma second_behind_outside:
  assumes "bk_window_s bs + 1 \<le> lag"
  shows "\<not> in_window w \<lfloor>clk w - lag\<rfloor>"
  using of_int_floor_le [of "clk w - lag"] assms unfolding in_window_def by linarith

lemma increment_behind:
  assumes "lag \<le> clk w"
  shows "brk_increment (behind lag bs) p m f w =
    counter_bump (bk_redis bs) (sample_key p m \<lfloor>clk w - lag\<rfloor>) (of_int (\<lfloor>bk_window_s bs\<rfloor> * 4)) [(f, 1)] w"
  using settings assms
  by (simp add: brk_increment_def behind_def clock_reads counter_bump_def breaker_ok_def Let_def)

text \<open>One event of the replica behind leaves the counters of this one's window as they are.\<close>

lemma there_tracks:
  assumes "brk_run (behind lag bs) pass [e] (snap, w, lg') = (snap', w', lg'')" and "brk_event_ok e"
    and "bk_window_s bs + 1 \<le> lag" "lag \<le> clk w"
    and "distinct (map fst snap)" and tr: "tracks w (brk_bumps lg)"
  shows "tracks w' (brk_bumps lg) \<and> clk w \<le> clk w' \<and> distinct (map fst snap')"
proof -
  have bump: "tracks (brk_increment (behind lag bs) p m f w) (brk_bumps lg) \<and>
      clk (brk_increment (behind lag bs) p m f w) = clk w" if "CHR '':'' \<notin> set p" for p m f
    using tracks_outside [OF tr, of "(p, m)"] second_behind_outside [OF assms(3)] that
    by (simp add: increment_behind [OF assms(4)] del: of_int_mult)
  have clock: "bk_now_s (behind lag bs) w = (clk w - lag, w)"
    by (simp add: behind_def clock_reads)
  from assms bump show ?thesis
  proof (cases e)
    case (Brk_wait d)
    with assms show ?thesis by (auto simp: tracks_pass clk_pass)
  next
    case Brk_refresh
    obtain s1 where "refresh_snapshot (behind lag bs) snap w = (Inr (), s1, w)" "distinct (map fst s1)"
      using refresh_snapshot_steps [OF _ assms(5) clock] settings by auto
    with assms show ?thesis by (auto simp: Brk_refresh)
  qed (auto simp: brk_record_success_def brk_record_failure_def)
qed

definition apart :: "rat \<Rightarrow> 'w fleet \<Rightarrow> bool" where
  "apart lag s \<longleftrightarrow> tracks (ft_world s) (brk_bumps (ft_here_log s)) \<and> lag \<le> clk (ft_world s) \<and>
     distinct (map fst (ft_here s)) \<and> distinct (map fst (ft_there s)) \<and> snapshot_times (ft_here s)"

lemma apart_step:
  assumes "apart lag s" and "fleet_event_ok e" and lag: "bk_window_s bs + 1 \<le> lag"
  shows "apart lag (fleet_step bs lag pass e s)"
proof (cases e)
  case (Here ev)
  obtain snap w lg where run: "brk_run bs pass [ev] (ft_here s, ft_world s, ft_here_log s) = (snap, w, lg)"
    by (metis prod_cases3)
  have ok: "list_all brk_event_ok [ev]" and pos: "0 \<le> clk (ft_world s)"
    using assms settings by (auto simp: Here apart_def breaker_ok_def)
  from assms(1) run_tracks [OF run ok pos] run_times [OF run ok pos] run show ?thesis
    by (auto simp: Here apart_def)
next
  case (There ev)
  obtain snap w lg where run: "brk_run (behind lag bs) pass [ev] (ft_there s, ft_world s, ft_there_log s) = (snap, w, lg)"
    by (metis prod_cases3)
  from assms(1,2) there_tracks [OF run _ lag, where lg = "ft_here_log s"] run show ?thesis
    by (auto simp: There apart_def)
qed

lemma apart_run:
  "apart lag s \<Longrightarrow> list_all fleet_event_ok es \<Longrightarrow> bk_window_s bs + 1 \<le> lag \<Longrightarrow>
   apart lag (fleet_run bs lag pass es s)"
  by (induction es arbitrary: s) (simp_all add: fleet_run_def apart_step)

lemma apart_start:
  assumes "\<And>k f. hmget (bk_redis bs) k f w = None" and "lag \<le> clk w"
  shows "apart lag (fleet_start w)"
  using empty_tracks [OF assms(1)] assms(2) by (simp add: apart_def fleet_start_def snapshot_times_def)

text \<open>A refresh of this replica, whatever the other one has recorded.\<close>

lemma fleet_refresh:
  assumes "bk_window_s bs + 1 \<le> lag" and "s = fleet_run bs lag pass es (fleet_start w)"
    and "list_all fleet_event_ok es" and "lag \<le> clk w" and "\<And>k f. hmget (bk_redis bs) k f w = None"
    and "CHR '':'' \<notin> set (fst c)"
    and "refresh_snapshot bs (ft_here s) (ft_world s) = (res, snap', w')"
    and "e = entry_or_new (ft_here s) c" and "now = clk (ft_world s)"
    and "se_state e = HALF_OPEN \<Longrightarrow> now \<le> se_half_opened_at_s e + bk_window_s bs"
    and "map_of snap' c = Some e'"
  shows "res = Inr () \<and>
    breaker_step bs now
      (brk_count True c (py_int (now - bk_window_s bs)) \<lfloor>now\<rfloor> (ft_here_log s))
      (brk_count False c (py_int (now - bk_window_s bs)) \<lfloor>now\<rfloor> (ft_here_log s))
      (brk_count True c \<lfloor>se_half_opened_at_s e\<rfloor> \<lfloor>now\<rfloor> (ft_here_log s),
       brk_count False c \<lfloor>se_half_opened_at_s e\<rfloor> \<lfloor>now\<rfloor> (ft_here_log s)) e e'"
proof -
  have "apart lag s" unfolding assms(2) by (rule apart_run [OF apart_start [OF assms(5,4)] assms(3,1)])
  then have "tracks (ft_world s) (brk_bumps (ft_here_log s))" "0 \<le> clk (ft_world s)"
    "distinct (map fst (ft_here s))" "snapshot_times (ft_here s)"
    using assms(1) settings by (auto simp: apart_def breaker_ok_def)
  from refresh_tracked [OF this assms(6,7)] assms(8-11) show ?thesis by simp
qed

end

section \<open>What they see of each other\<close>

text \<open>C8: A replica sees nothing of what another host records whose monotonic clock is behind by more than
  the window: whatever both record, wait for and refresh in any order on the one Redis, a
  refresh of the replica ahead moves every breaker by one step of the machine on its own
  outcomes alone. The statement is that of \<open>refresh_simulates_machine\<close> with the samples of the
  other host in the store and missing from the counts.
\<close>

theorem other_host_unseen:
  assumes "breaker_store bs pass clk ttl" and "bk_window_s bs + 1 \<le> lag"
    and "s = fleet_run bs lag pass es (fleet_start w)" and "list_all fleet_event_ok es"
    and "lag \<le> clk w" and "\<And>k f. hmget (bk_redis bs) k f w = None"
    and "CHR '':'' \<notin> set (fst c)"
    and "refresh_snapshot bs (ft_here s) (ft_world s) = (res, snap', w')"
    and "e = entry_or_new (ft_here s) c" and "now = clk (ft_world s)"
    and "se_state e = HALF_OPEN \<Longrightarrow> now \<le> se_half_opened_at_s e + bk_window_s bs"
    and "map_of snap' c = Some e'"
  shows "res = Inr () \<and>
    breaker_step bs now
      (brk_count True c (py_int (now - bk_window_s bs)) \<lfloor>now\<rfloor> (ft_here_log s))
      (brk_count False c (py_int (now - bk_window_s bs)) \<lfloor>now\<rfloor> (ft_here_log s))
      (brk_count True c \<lfloor>se_half_opened_at_s e\<rfloor> \<lfloor>now\<rfloor> (ft_here_log s),
       brk_count False c \<lfloor>se_half_opened_at_s e\<rfloor> \<lfloor>now\<rfloor> (ft_here_log s)) e e'"
  by (rule breaker_store.fleet_refresh [OF assms])

text \<open>So a breaker that is closed here and has not failed here stays closed.\<close>

lemma closed_until_failed_here:
  assumes "breaker_step bs now ok 0 half e e'" and "se_state e = CLOSED"
    and "0 < bk_failure_threshold bs" "0 < bk_min_samples bs"
  shows "se_state e' = CLOSED"
  using assms by (auto elim!: breaker_stepE simp: mult_le_0_iff)

section \<open>An outage that one of two replicas sees\<close>

text \<open>The clocks are at ten and seven seconds, the window is two seconds.\<close>

definition outage_events :: "fleet_event list" where
  "outage_events =
     [There (Brk_bad ''openai'' ''gpt-4o''), There (Brk_bad ''openai'' ''gpt-4o''), There Brk_refresh, Here Brk_refresh]"

definition outage_start :: mem_world where
  "outage_start = \<lparr>mw_now = 10, mw_hashes = [], mw_strings = []\<rparr>"

definition outage_fleet :: "mem_world fleet" where
  "outage_fleet =
     \<lparr>ft_world = \<lparr>mw_now = 10, mw_hashes = [(''gw:brk:openai:gpt-4o:samples:7'', [(''failures'', 2)], Some 18)],
        mw_strings = []\<rparr>,
      ft_here = [(gpt4o, mk_entry CLOSED 0 0 0 0)], ft_there = [(gpt4o, mk_entry OPEN 7 2 2 0)],
      ft_here_log = [], ft_there_log = [(gpt4o, 7, False), (gpt4o, 7, False)]\<rparr>"

lemma outage_runs:
  "fleet_run mem_breaker 3 mem_pass outage_events (fleet_start outage_start) = outage_fleet"
  "refresh_snapshot mem_breaker (ft_here outage_fleet) (ft_world outage_fleet) =
     (Inr (), [(gpt4o, mk_entry CLOSED 0 0 0 0)], ft_world outage_fleet)"
  by code_simp+

theorem other_host_unseen_witness:
  "fleet_run mem_breaker 3 mem_pass outage_events (fleet_start outage_start) = outage_fleet \<and>
   map_of (ft_there outage_fleet) gpt4o = Some (mk_entry OPEN 7 2 2 0) \<and>
   breaker_step mem_breaker 10 0 0 (0, 0) (mk_entry CLOSED 0 0 0 0) (mk_entry CLOSED 0 0 0 0)"
proof (intro conjI)
  have es: "list_all fleet_event_ok outage_events" by (simp add: outage_events_def)
  have empty: "hmget (bk_redis mem_breaker) k f outage_start = None" for k f
    by (simp add: outage_start_def mem_hmget_def mem_or_new_def mem_entry_def)
  have e: "entry_or_new (ft_here outage_fleet) gpt4o = mk_entry CLOSED 0 0 0 0"
    by (simp add: outage_fleet_def entry_or_new_def)
  from other_host_unseen [OF mem_breakers.breaker_store_axioms _ outage_runs(1) [symmetric] es _ empty _
      outage_runs(2) e [symmetric] refl, of "mk_entry CLOSED 0 0 0 0"]
  show "breaker_step mem_breaker 10 0 0 (0, 0) (mk_entry CLOSED 0 0 0 0) (mk_entry CLOSED 0 0 0 0)"
    by (simp add: outage_start_def outage_fleet_def brk_count_def)
qed (simp_all add: outage_runs(1), simp add: outage_fleet_def)

end
